(* ===== verification/Prelude.thy ===== *)
theory Prelude
  imports Main "HOL-Library.Sublist"
begin

text \<open>
  Shared vocabulary of the development: byte strings, the result type of fallible code,
  the named collections that drive the component proofs, and generic list facts.
\<close>

section \<open>Types and collections\<close>

text \<open>
  Go strings and byte slices are byte sequences; Isabelle's 8-bit characters are the bytes.
  A nil slice and an empty slice are the same value here: no code under verification
  distinguishes them except where an option type is used explicitly.
\<close>

type_synonym bytes = string

text \<open>Facts that turn "this operation returned normally" into its guards and its value.\<close>
named_theorems returns_iff

text \<open>Equations that describe what an operation leaves unchanged.\<close>
named_theorems frame_simps

abbreviation cr :: char where "cr \<equiv> CHR 0x0D"
abbreviation lf :: char where "lf \<equiv> CHR 0x0A"
abbreviation tab :: char where "tab \<equiv> CHR 0x09"
abbreviation sp :: char where "sp \<equiv> CHR 0x20"
abbreviation dquote :: char where "dquote \<equiv> CHR 0x22"
abbreviation crlf :: bytes where "crlf \<equiv> [cr, lf]"

section \<open>Sums\<close>

lemma bind_sum_Inr_iff [returns_iff]:
  "(case x of Inl e \<Rightarrow> Inl e | Inr a \<Rightarrow> f a) = Inr b \<longleftrightarrow> (\<exists>a. x = Inr a \<and> f a = Inr b)"
  by (cases x) auto

lemma if_Inl_Inr_iff [returns_iff]:
  "(if b then Inl e else x) = Inr y \<longleftrightarrow> \<not> b \<and> x = Inr y"
  by auto

section \<open>Lists\<close>

lemma takeWhile_neq_append [simp]:
  "c \<notin> set xs \<Longrightarrow> takeWhile (\<lambda>x. x \<noteq> c) (xs @ c # ys) = xs"
  by (induction xs) auto

lemma dropWhile_neq_append [simp]:
  "c \<notin> set xs \<Longrightarrow> dropWhile (\<lambda>x. x \<noteq> c) (xs @ c # ys) = c # ys"
  by (induction xs) auto

lemma dropWhile_id_iff: "dropWhile P xs = xs \<longleftrightarrow> xs = [] \<or> \<not> P (hd xs)"
  by (cases xs) (auto dest: arg_cong[where f = length]
      simp: dropWhile_eq_drop)

lemma set_dropWhile_subset: "set (dropWhile P xs) \<subseteq> set xs"
  by (auto dest: set_dropWhileD)

lemma last_dropWhile: "dropWhile P xs \<noteq> [] \<Longrightarrow> last (dropWhile P xs) = last xs"
  by (induction xs) (auto split: if_splits)

lemma drop_take_append_drop: "n \<le> k \<Longrightarrow> k \<le> length xs \<Longrightarrow> drop n (take k xs) @ drop k xs = drop n xs"
  using drop_append[of n "take k xs" "drop k xs"] by simp

lemma list_all2_mapI: "\<forall>x\<in>set xs. R (f x) (g x) \<Longrightarrow> list_all2 R (map f xs) (map g xs)"
  by (induction xs) auto

lemma butlast_butlast_append2 [simp]: "butlast (butlast (xs @ [a, b])) = xs"
  by (simp add: butlast_append)

lemma suffix_crlf_snoc: "suffix [a, b] (xs @ [c]) \<longleftrightarrow> c = b \<and> suffix [a] xs"
  using suffix_snoc[of "[a, b]" xs c] by auto

lemma suffix_singleton_iff: "suffix [a] xs \<longleftrightarrow> xs \<noteq> [] \<and> last xs = a"
  by (auto simp: suffix_def) (metis append_butlast_last_id)

end
