(* ===== verification/Go_Strings.thy ===== *)
theory Go_Strings
  imports Prelude
begin

text \<open>
  The operations of Go's packages \<open>strings\<close> and \<open>strconv\<close> that the server uses, on byte
  strings. Separators are single bytes in every call of the code, so they are characters
  here. \<open>equal_fold\<close> is exact whenever one of its arguments is ASCII (every call but the
  comparison of two configured or received header names and origins): the only code points
  beyond ASCII that fold to an ASCII letter are U+017F (to s) and U+212A (to k).
  Upper and lower case and \<open>trim_space\<close> treat ASCII only; other bytes are unchanged.
\<close>

section \<open>Searching\<close>

definition contains_any :: "bytes \<Rightarrow> bytes \<Rightarrow> bool" where
  "contains_any s cs \<longleftrightarrow> (\<exists>c\<in>set s. c \<in> set cs)"

definition has_prefix :: "bytes \<Rightarrow> bytes \<Rightarrow> bool" where
  "has_prefix s p \<longleftrightarrow> prefix p s"

definition has_suffix :: "bytes \<Rightarrow> bytes \<Rightarrow> bool" where
  "has_suffix s p \<longleftrightarrow> suffix p s"

definition trim_prefix :: "bytes \<Rightarrow> bytes \<Rightarrow> bytes" where
  "trim_prefix s p = (if has_prefix s p then drop (length p) s else s)"

text \<open>\<open>strings.Cut\<close>: the text before the first separator, the text after it, and whether it occurs.\<close>

definition cut :: "bytes \<Rightarrow> char \<Rightarrow> bytes \<times> bytes \<times> bool" where
  "cut s c = (takeWhile (\<lambda>x. x \<noteq> c) s, drop 1 (dropWhile (\<lambda>x. x \<noteq> c) s), c \<in> set s)"

lemma contains_any_Nil [simp]: "contains_any [] cs = False"
  by (simp add: contains_any_def)

lemma contains_any_Cons [simp]:
  "contains_any (x # s) cs \<longleftrightarrow> x \<in> set cs \<or> contains_any s cs"
  by (simp add: contains_any_def)

lemma contains_any_append [simp]:
  "contains_any (s @ t) cs \<longleftrightarrow> contains_any s cs \<or> contains_any t cs"
  by (auto simp: contains_any_def)

text \<open>On a symbolic string and a literal set of bytes, a search is a conjunction of memberships.\<close>

lemma contains_any_set:
  "contains_any s [] \<longleftrightarrow> False"
  "contains_any s (c # cs) \<longleftrightarrow> c \<in> set s \<or> contains_any s cs"
  by (auto simp: contains_any_def)

lemma not_contains_anyD: "\<not> contains_any s cs \<Longrightarrow> c \<in> set cs \<Longrightarrow> c \<notin> set s"
  by (auto simp: contains_any_def)

lemma contains_any_subset: "contains_any s cs \<Longrightarrow> set s \<subseteq> set t \<Longrightarrow> contains_any t cs"
  by (auto simp: contains_any_def)

lemma cut_append [simp]: "c \<notin> set s \<Longrightarrow> cut (s @ c # t) c = (s, t, True)"
  by (simp add: cut_def)

lemma cut_found: "cut s c = (a, b, True) \<Longrightarrow> s = a @ c # b \<and> c \<notin> set a"
proof -
  assume *: "cut s c = (a, b, True)"
  then have "c \<in> set s" and a: "a = takeWhile (\<lambda>x. x \<noteq> c) s"
    and b: "b = drop 1 (dropWhile (\<lambda>x. x \<noteq> c) s)"
    by (auto simp: cut_def)
  then obtain u v where "s = u @ c # v" "c \<notin> set u"
    by (meson split_list_first)
  with a b show ?thesis by simp
qed

lemma cut_not_found: "cut s c = (a, b, False) \<Longrightarrow> a = s \<and> b = [] \<and> c \<notin> set s"
proof -
  assume *: "cut s c = (a, b, False)"
  then have c: "c \<notin> set s" and a: "a = takeWhile (\<lambda>x. x \<noteq> c) s"
    and b: "b = drop 1 (dropWhile (\<lambda>x. x \<noteq> c) s)"
    by (auto simp: cut_def)
  from c have "takeWhile (\<lambda>x. x \<noteq> c) s = s" "dropWhile (\<lambda>x. x \<noteq> c) s = []"
    by (auto simp: takeWhile_eq_all_conv dropWhile_eq_Nil_conv)
  with a b c show ?thesis by simp
qed

section \<open>Splitting and joining\<close>

fun split_on :: "char \<Rightarrow> bytes \<Rightarrow> bytes list" where
  "split_on c [] = [[]]"
| "split_on c (x # s) =
     (if x = c then [] # split_on c s
      else (case split_on c s of [] \<Rightarrow> [[x]] | y # ys \<Rightarrow> (x # y) # ys))"

fun join :: "bytes \<Rightarrow> bytes list \<Rightarrow> bytes" where
  "join sep [] = []"
| "join sep [x] = x"
| "join sep (x # y # ys) = x @ sep @ join sep (y # ys)"

lemma split_on_ne [simp]: "split_on c s \<noteq> []"
  by (induction s) (auto split: list.splits)

lemma split_on_pieces: "p \<in> set (split_on c s) \<Longrightarrow> c \<notin> set p \<and> set p \<subseteq> set s"
proof (induction s arbitrary: p)
  case (Cons x s)
  then show ?case
    by (cases "split_on c s") (fastforce split: if_splits)+
qed simp

lemma split_on_no_sep [simp]: "c \<notin> set s \<Longrightarrow> split_on c s = [s]"
  by (induction s) auto

lemma split_on_append [simp]:
  "c \<notin> set s \<Longrightarrow> split_on c (s @ c # t) = s # split_on c t"
  by (induction s) auto

lemma join_Cons: "xs \<noteq> [] \<Longrightarrow> join sep (x # xs) = x @ sep @ join sep xs"
  by (cases xs) auto

lemma join_hd_Cons: "join sep ((x # p) # ps) = x # join sep (p # ps)"
  by (cases ps) auto

lemma join_split_on: "join [c] (split_on c s) = s"
proof (induction s)
  case (Cons x s)
  then show ?case
    by (cases "split_on c s") (auto simp: join_Cons join_hd_Cons)
qed simp

lemma split_on_join:
  "xs \<noteq> [] \<Longrightarrow> \<forall>x\<in>set xs. c \<notin> set x \<Longrightarrow> split_on c (join [c] xs) = xs"
proof (induction xs rule: induct_list012)
  case (3 x y zs)
  then show ?case by (simp add: join_Cons)
qed auto

lemma length_split_on: "length (split_on c s) = Suc (count_list s c)"
  by (induction s) (auto split: list.splits)

text \<open>\<open>strings.ReplaceAll\<close> for a non-empty search text.\<close>

function replace_all :: "bytes \<Rightarrow> bytes \<Rightarrow> bytes \<Rightarrow> bytes" where
  "replace_all s old new =
     (if s = [] \<or> old = [] then s
      else if has_prefix s old then new @ replace_all (drop (length old) s) old new
      else hd s # replace_all (tl s) old new)"
  by pat_completeness auto
termination by (relation "measure (\<lambda>(s, _, _). length s)") auto

declare replace_all.simps [simp del]

lemma replace_all_Nil [simp]: "replace_all [] old new = []"
  by (simp add: replace_all.simps)

lemma replace_all_char [simp]:
  "replace_all (x # s) [c] new = (if x = c then new else [x]) @ replace_all s [c] new"
  by (subst replace_all.simps) (simp add: has_prefix_def)

lemma replace_all_char_absent: "c \<notin> set new \<Longrightarrow> c \<notin> set (replace_all s [c] new)"
  by (induction s) auto

lemma replace_all_char_id: "c \<notin> set s \<Longrightarrow> replace_all s [c] new = s"
  by (induction s) auto

section \<open>Trimming\<close>

definition trim_left :: "bytes \<Rightarrow> bytes \<Rightarrow> bytes" where
  "trim_left s cs = dropWhile (\<lambda>x. x \<in> set cs) s"

definition trim_right :: "bytes \<Rightarrow> bytes \<Rightarrow> bytes" where
  "trim_right s cs = rev (dropWhile (\<lambda>x. x \<in> set cs) (rev s))"

definition trim :: "bytes \<Rightarrow> bytes \<Rightarrow> bytes" where
  "trim s cs = trim_right (trim_left s cs) cs"

definition trim_space :: "bytes \<Rightarrow> bytes" where
  "trim_space s = trim s [tab, lf, CHR 0x0B, CHR 0x0C, cr, sp]"

lemma set_trim: "set (trim s cs) \<subseteq> set s"
  unfolding trim_def trim_left_def trim_right_def
  by (auto dest!: set_dropWhileD)

lemma trim_Nil [simp]: "trim [] cs = []"
  by (simp add: trim_def trim_left_def trim_right_def)

lemma trim_id:
  "s = [] \<or> (hd s \<notin> set cs \<and> last s \<notin> set cs) \<Longrightarrow> trim s cs = s"
proof -
  assume *: "s = [] \<or> (hd s \<notin> set cs \<and> last s \<notin> set cs)"
  then have l: "trim_left s cs = s"
    by (cases s) (auto simp: trim_left_def)
  have r: "trim_right s cs = s"
    using * by (cases s rule: rev_cases) (auto simp: trim_right_def)
  from l r show ?thesis by (simp add: trim_def)
qed

lemma trim_disjoint: "(\<And>x. x \<in> set s \<Longrightarrow> x \<notin> set cs) \<Longrightarrow> trim s cs = s"
  by (rule trim_id) (cases s; simp)

lemma trim_ends:
  "trim s cs \<noteq> [] \<Longrightarrow> hd (trim s cs) \<notin> set cs \<and> last (trim s cs) \<notin> set cs"
proof -
  assume ne: "trim s cs \<noteq> []"
  let ?l = "dropWhile (\<lambda>x. x \<in> set cs) s"
  let ?r = "dropWhile (\<lambda>x. x \<in> set cs) (rev ?l)"
  have t: "trim s cs = rev ?r" by (simp add: trim_def trim_left_def trim_right_def)
  with ne have rne: "?r \<noteq> []" by simp
  then have "hd ?r \<notin> set cs" by (rule hd_dropWhile)
  moreover have "last ?r \<notin> set cs"
  proof -
    have lne: "?l \<noteq> []"
    proof
      assume "?l = []"
      then have "?r = []" by (simp only: rev.simps dropWhile.simps)
      with rne show False ..
    qed
    have "last ?r = last (rev ?l)"
      using rne by (rule last_dropWhile)
    also have "\<dots> = hd ?l" using lne by (simp add: last_rev)
    finally show ?thesis using hd_dropWhile [OF lne] by simp
  qed
  ultimately show ?thesis using t rne by (simp add: hd_rev last_rev)
qed

lemma trim_idem [simp]: "trim (trim s cs) cs = trim s cs"
  by (rule trim_id) (use trim_ends in blast)

lemma not_contains_any_trim: "\<not> contains_any s ds \<Longrightarrow> \<not> contains_any (trim s cs) ds"
  using contains_any_subset set_trim by blast

section \<open>Letter case\<close>

definition ascii_lower :: "char \<Rightarrow> char" where
  "ascii_lower c = (let n = of_char c :: nat in if 65 \<le> n \<and> n \<le> 90 then char_of (n + 32) else c)"

definition ascii_upper :: "char \<Rightarrow> char" where
  "ascii_upper c = (let n = of_char c :: nat in if 97 \<le> n \<and> n \<le> 122 then char_of (n - 32) else c)"

definition to_lower :: "bytes \<Rightarrow> bytes" where
  "to_lower s = map ascii_lower s"

definition to_upper :: "bytes \<Rightarrow> bytes" where
  "to_upper s = map ascii_upper s"

text \<open>
  The canonical form under simple case folding: ASCII letters in lower case, the UTF-8
  encodings of U+212A and U+017F replaced by the letters they fold to.
\<close>

fun fold_key :: "bytes \<Rightarrow> bytes" where
  "fold_key (x # y # z # s) =
     (if x = CHR 0xE2 \<and> y = CHR 0x84 \<and> z = CHR 0xAA then CHR ''k'' # fold_key s
      else if x = CHR 0xC5 \<and> y = CHR 0xBF then CHR ''s'' # fold_key (z # s)
      else ascii_lower x # fold_key (y # z # s))"
| "fold_key [x, y] =
     (if x = CHR 0xC5 \<and> y = CHR 0xBF then ''s'' else [ascii_lower x, ascii_lower y])"
| "fold_key [x] = [ascii_lower x]"
| "fold_key [] = []"

definition equal_fold :: "bytes \<Rightarrow> bytes \<Rightarrow> bool" where
  "equal_fold s t \<longleftrightarrow> fold_key s = fold_key t"

lemma equal_fold_refl [simp]: "equal_fold s s"
  by (simp add: equal_fold_def)

lemma equal_fold_sym: "equal_fold s t \<longleftrightarrow> equal_fold t s"
  by (auto simp: equal_fold_def)

lemma equal_fold_trans: "equal_fold s t \<Longrightarrow> equal_fold t u \<Longrightarrow> equal_fold s u"
  by (simp add: equal_fold_def)

lemma fold_key_ascii:
  "\<forall>c\<in>set s. of_char c < (128::nat) \<Longrightarrow> fold_key s = to_lower s"
  by (induction s rule: fold_key.induct) (auto simp: to_lower_def)

lemma of_char_ascii_lower:
  "of_char (ascii_lower c) = (let n = of_char c :: nat in if 65 \<le> n \<and> n \<le> 90 then n + 32 else n)"
  by (auto simp: ascii_lower_def Let_def)

lemma of_char_ascii_upper:
  "of_char (ascii_upper c) = (let n = of_char c :: nat in if 97 \<le> n \<and> n \<le> 122 then n - 32 else n)"
  by (auto simp: ascii_upper_def Let_def)

lemma ascii_upper_idem [simp]: "ascii_upper (ascii_upper c) = ascii_upper c"
proof -
  have "(of_char (ascii_upper (ascii_upper c)) :: nat) = of_char (ascii_upper c)"
    by (auto simp: of_char_ascii_upper Let_def)
  then show ?thesis by (simp add: of_char_eq_iff)
qed

lemma to_upper_idem [simp]: "to_upper (to_upper s) = to_upper s"
  by (simp add: to_upper_def comp_def)

lemma to_upper_eq_Nil_iff [simp]: "to_upper s = [] \<longleftrightarrow> s = []"
  by (simp add: to_upper_def)

section \<open>Numbers\<close>

abbreviation max_int64 :: int where "max_int64 \<equiv> 9223372036854775807"
abbreviation min_int64 :: int where "min_int64 \<equiv> -9223372036854775808"

definition dec_digit :: "nat \<Rightarrow> char" where
  "dec_digit d = char_of (48 + d)"

definition digit_val :: "char \<Rightarrow> nat" where
  "digit_val c = of_char c - 48"

definition is_digit :: "char \<Rightarrow> bool" where
  "is_digit c \<longleftrightarrow> 48 \<le> (of_char c :: nat) \<and> (of_char c :: nat) \<le> 57"

fun nat_dec :: "nat \<Rightarrow> bytes" where
  "nat_dec n = (if n < 10 then [dec_digit n] else nat_dec (n div 10) @ [dec_digit (n mod 10)])"

declare nat_dec.simps [simp del]

text \<open>\<open>strconv.Itoa\<close> and \<open>strconv.FormatInt(_, 10)\<close>.\<close>

definition format_int :: "int \<Rightarrow> bytes" where
  "format_int i = (if i < 0 then CHR ''-'' # nat_dec (nat (- i)) else nat_dec (nat i))"

definition dec_val :: "bytes \<Rightarrow> nat" where
  "dec_val s = foldl (\<lambda>a c. 10 * a + digit_val c) 0 s"

text \<open>
  \<open>strconv.ParseInt(s, 10, 64)\<close>: an optional sign, at least one digit and nothing else, and
  a value in the int64 range. The two kinds of error are one \<open>None\<close>: the callers only
  test whether there is an error.
\<close>

definition parse_digits :: "bytes \<Rightarrow> nat option" where
  "parse_digits s = (if s \<noteq> [] \<and> list_all is_digit s then Some (dec_val s) else None)"

definition parse_int64 :: "bytes \<Rightarrow> int option" where
  "parse_int64 s =
     (let (neg, ds) = (case s of [] \<Rightarrow> (False, [])
                       | c # r \<Rightarrow> if c = CHR ''-'' then (True, r)
                                 else if c = CHR ''+'' then (False, r) else (False, s))
      in case parse_digits ds of
           None \<Rightarrow> None
         | Some n \<Rightarrow>
             let v = (if neg then - int n else int n)
             in if min_int64 \<le> v \<and> v \<le> max_int64 then Some v else None)"

definition hex_digit :: "nat \<Rightarrow> char" where
  "hex_digit d = (if d < 10 then char_of (48 + d) else char_of (87 + d))"

fun nat_hex :: "nat \<Rightarrow> bytes" where
  "nat_hex n = (if n < 16 then [hex_digit n] else nat_hex (n div 16) @ [hex_digit (n mod 16)])"

declare nat_hex.simps [simp del]

lemma of_char_dec_digit: "d < 10 \<Longrightarrow> of_char (dec_digit d) = (48 + d :: nat)"
  by (simp add: dec_digit_def)

lemma digit_val_dec_digit [simp]: "d < 10 \<Longrightarrow> digit_val (dec_digit d) = d"
  by (simp add: digit_val_def of_char_dec_digit)

lemma is_digit_dec_digit [simp]: "d < 10 \<Longrightarrow> is_digit (dec_digit d)"
  by (simp add: is_digit_def of_char_dec_digit)

lemma nat_dec_ne [simp]: "nat_dec n \<noteq> []"
  by (subst nat_dec.simps) simp

lemma nat_dec_digits [simp]: "list_all is_digit (nat_dec n)"
  by (induction n rule: nat_dec.induct) (subst nat_dec.simps, simp)

lemma dec_val_snoc: "dec_val (s @ [c]) = 10 * dec_val s + digit_val c"
  by (simp add: dec_val_def)

lemma dec_val_nat_dec [simp]: "dec_val (nat_dec n) = n"
proof (induction n rule: nat_dec.induct)
  case (1 n)
  show ?case
  proof (cases "n < 10")
    case True
    then show ?thesis by (subst nat_dec.simps) (simp add: dec_val_def)
  next
    case False
    with "1.IH" have "dec_val (nat_dec (n div 10)) = n div 10" by simp
    with False show ?thesis by (subst nat_dec.simps) (simp add: dec_val_snoc)
  qed
qed

lemma length_nat_dec: "n < 10 ^ k \<Longrightarrow> 0 < k \<Longrightarrow> length (nat_dec n) \<le> k"
proof (induction n arbitrary: k rule: nat_dec.induct)
  case (1 n)
  show ?case
  proof (cases "n < 10")
    case False
    with 1 obtain j where "k = Suc j" "0 < j" by (cases k; cases "k - 1") auto
    with 1 False show ?thesis by (subst nat_dec.simps) (simp add: less_mult_imp_div_less mult.commute)
  qed (use 1 in \<open>simp add: nat_dec.simps\<close>)
qed

lemma dec_val_zeros: "dec_val (replicate k CHR ''0'' @ s) = dec_val s"
  by (induction k) (simp_all add: dec_val_def digit_val_def)

lemma parse_digits_nat_dec [simp]: "parse_digits (nat_dec n) = Some n"
  by (simp add: parse_digits_def)

lemma is_digit_not_sign: "is_digit c \<Longrightarrow> c \<noteq> CHR ''-'' \<and> c \<noteq> CHR ''+''"
  by (auto simp: is_digit_def)

lemma is_digit_not_ctl:
  "is_digit c \<Longrightarrow> c \<notin> {cr, lf, tab, sp, CHR '';'', CHR ''='', CHR '','', CHR '':''}"
  by (auto simp: is_digit_def)

lemma nat_dec_set: "c \<in> set (nat_dec n) \<Longrightarrow> is_digit c"
  using nat_dec_digits[of n] by (auto simp: list_all_iff)

theorem parse_format_int:
  assumes "min_int64 \<le> i" "i \<le> max_int64"
  shows "parse_int64 (format_int i) = Some i"
proof (cases "i < 0")
  case True
  with assms show ?thesis by (simp add: parse_int64_def format_int_def)
next
  case False
  obtain c r where cr: "nat_dec (nat i) = c # r" using nat_dec_ne by (meson neq_Nil_conv)
  then have "is_digit c" using nat_dec_set by (metis list.set_intros(1))
  then have "c \<noteq> CHR ''-''" "c \<noteq> CHR ''+''" by (auto dest: is_digit_not_sign)
  then have "parse_int64 (c # r) =
      (case parse_digits (c # r) of None \<Rightarrow> None
       | Some n \<Rightarrow> if int n \<le> max_int64 then Some (int n) else None)"
    by (simp add: parse_int64_def Let_def split: option.splits)
  with False assms show ?thesis
    by (simp add: format_int_def cr [symmetric])
qed

lemma parse_int64_range: "parse_int64 s = Some i \<Longrightarrow> min_int64 \<le> i \<and> i \<le> max_int64"
  by (auto simp: parse_int64_def Let_def split: list.splits option.splits if_splits)

lemma parse_int64_nonneg:
  "parse_int64 s = Some i \<Longrightarrow> \<not> has_prefix s ''-'' \<Longrightarrow> 0 \<le> i"
  by (auto simp: parse_int64_def has_prefix_def Let_def split: list.splits option.splits if_splits)

lemma format_int_no_ctl: "set ds \<subseteq> {cr, lf} \<Longrightarrow> \<not> contains_any (format_int i) ds"
  by (auto simp: contains_any_def format_int_def dest!: nat_dec_set is_digit_not_ctl)

end
