(* ===== verification/Go_IO.thy ===== *)
theory Go_IO
  imports Go_Strings
begin

text \<open>
  Byte input and output: the byte source behind a connection, \<open>bufio.Reader\<close> on top of it
  as the standard library implements it, and the \<open>io.Writer\<close> interface as a locale with a
  sink that can fail after any number of bytes.
\<close>

section \<open>Input: a source of segments\<close>

datatype io_err = IoEOF | IoTimeout | IoClosed | IoNoProgress

text \<open>
  A source delivers its bytes in segments, one \<open>Read\<close> never crossing a segment, and then
  reports \<open>src_err\<close> forever. A source may report the error already with its last bytes
  (\<open>src_eager\<close>), which the contract of \<open>io.Reader\<close> allows; a TCP connection does not.
  Empty segments stand for reads that made no progress and are retried.
\<close>

record byte_source =
  segs :: "bytes list"
  src_err :: io_err
  src_eager :: bool

definition src_bytes :: "byte_source \<Rightarrow> bytes" where
  "src_bytes s = concat (segs s)"

definition src_read :: "nat \<Rightarrow> byte_source \<Rightarrow> bytes \<times> io_err option \<times> byte_source" where
  "src_read n s =
     (case dropWhile (\<lambda>g. g = []) (segs s) of
        [] \<Rightarrow> ([], Some (src_err s), s\<lparr>segs := []\<rparr>)
      | g # gs \<Rightarrow>
          let s' = s\<lparr>segs := (if drop n g = [] then gs else drop n g # gs)\<rparr>
          in (take n g, if src_eager s \<and> src_bytes s' = [] then Some (src_err s) else None, s'))"

lemma concat_dropWhile_Nil: "concat (dropWhile (\<lambda>g. g = []) gs) = concat gs"
  by (induction gs) auto

lemma dropWhile_Nil_hd: "dropWhile (\<lambda>g. g = []) gs = g # hs \<Longrightarrow> g \<noteq> []"
  using hd_dropWhile[of "\<lambda>g. g = []" gs] by simp

lemma src_read_empty:
  "src_bytes s = [] \<Longrightarrow> src_read n s = ([], Some (src_err s), s\<lparr>segs := []\<rparr>)"
proof -
  assume "src_bytes s = []"
  then have "dropWhile (\<lambda>g. g = []) (segs s) = []"
    by (simp add: src_bytes_def dropWhile_eq_Nil_conv)
  then show ?thesis by (simp only: src_read_def list.case)
qed

lemma src_read_some:
  assumes "src_bytes s \<noteq> []" "0 < n"
  shows "\<exists>k s'. 0 < k \<and> k \<le> n \<and> k \<le> length (src_bytes s) \<and>
     src_read n s = (take k (src_bytes s),
        if src_eager s \<and> k = length (src_bytes s) then Some (src_err s) else None, s') \<and>
     src_bytes s' = drop k (src_bytes s) \<and> src_err s' = src_err s \<and> src_eager s' = src_eager s"
proof -
  obtain g gs where d: "dropWhile (\<lambda>g. g = []) (segs s) = g # gs"
    using assms(1) by (metis concat.simps(1) concat_dropWhile_Nil neq_Nil_conv src_bytes_def)
  then have g: "g \<noteq> []" and b: "src_bytes s = g @ concat gs"
    using concat_dropWhile_Nil[of "segs s"] dropWhile_Nil_hd[OF d]
    by (simp_all add: src_bytes_def)
  let ?k = "min n (length g)"
  let ?s = "s\<lparr>segs := (if drop n g = [] then gs else drop n g # gs)\<rparr>"
  have s': "src_bytes ?s = drop ?k (src_bytes s)"
    using b by (auto simp: src_bytes_def min_def)
  have "take n g = take ?k (src_bytes s)" by (auto simp: b min_def)
  moreover have "src_bytes ?s = [] \<longleftrightarrow> ?k = length (src_bytes s)"
    unfolding s' by (auto simp: b min_def)
  ultimately show ?thesis
    using g assms(2) d s'
    by (intro exI[of _ ?k] exI[of _ ?s]) (auto simp: src_read_def Let_def b)
qed

section \<open>bufio.Reader\<close>

definition bufio_size :: nat where
  "bufio_size = 4096"

text \<open>The unread part of the buffer, the error that a read will report once the buffer is empty, and the source.\<close>

record bufio =
  buf :: bytes
  pend_err :: "io_err option"
  source :: byte_source

definition new_bufio :: "byte_source \<Rightarrow> bufio" where
  "new_bufio s = \<lparr>buf = [], pend_err = None, source = s\<rparr>"

definition bufio_read_byte :: "bufio \<Rightarrow> (io_err + char) \<times> bufio" where
  "bufio_read_byte b =
     (case buf b of
        c # r \<Rightarrow> (Inr c, b\<lparr>buf := r\<rparr>)
      | [] \<Rightarrow>
         (case pend_err b of
            Some e \<Rightarrow> (Inl e, b\<lparr>pend_err := None\<rparr>)
          | None \<Rightarrow>
             (case src_read bufio_size (source b) of
                (c # r, e, s) \<Rightarrow> (Inr c, b\<lparr>buf := r, pend_err := e, source := s\<rparr>)
              | ([], Some e, s) \<Rightarrow> (Inl e, b\<lparr>source := s\<rparr>)
              | ([], None, s) \<Rightarrow> (Inl IoNoProgress, b\<lparr>source := s\<rparr>))))"

text \<open>\<open>Read\<close> into a slice of \<open>n > 0\<close> bytes: large reads bypass the empty buffer.\<close>

definition bufio_read :: "nat \<Rightarrow> bufio \<Rightarrow> bytes \<times> io_err option \<times> bufio" where
  "bufio_read n b =
     (if buf b \<noteq> [] then (take n (buf b), None, b\<lparr>buf := drop n (buf b)\<rparr>)
      else (case pend_err b of
        Some e \<Rightarrow> ([], Some e, b\<lparr>pend_err := None\<rparr>)
      | None \<Rightarrow>
          if bufio_size \<le> n
          then (case src_read n (source b) of (got, e, s) \<Rightarrow> (got, e, b\<lparr>source := s\<rparr>))
          else (case src_read bufio_size (source b) of
                  (got, e, s) \<Rightarrow>
                    if got = [] then ([], e, b\<lparr>source := s\<rparr>)
                    else (take n got, None, b\<lparr>buf := drop n got, pend_err := e, source := s\<rparr>))))"

definition pending :: "bufio \<Rightarrow> bytes" where
  "pending b = buf b @ src_bytes (source b)"

definition final_err :: "bufio \<Rightarrow> io_err" where
  "final_err b = src_err (source b)"

text \<open>A reader over a source that, like a TCP connection, reports errors separately from data.\<close>

definition plain_bufio :: "bufio \<Rightarrow> bool" where
  "plain_bufio b \<longleftrightarrow> \<not> src_eager (source b) \<and> pend_err b = None"

lemma pending_new [simp]: "pending (new_bufio s) = src_bytes s"
  by (simp add: pending_def new_bufio_def)

lemma final_err_new [simp]: "final_err (new_bufio s) = src_err s"
  by (simp add: final_err_def new_bufio_def)

lemma plain_new [simp]: "plain_bufio (new_bufio s) \<longleftrightarrow> \<not> src_eager s"
  by (simp add: plain_bufio_def new_bufio_def)

lemma bufio_size_pos [simp]: "0 < bufio_size"
  by (simp add: bufio_size_def)

lemma src_read_not_stuck: "src_read n s = ([], None, s') \<Longrightarrow> n = 0"
  by (cases "src_bytes s = []") (use src_read_some[of s n] in \<open>auto simp: src_read_empty\<close>)

lemma src_read_pending:
  "src_read n s = (got, e, s') \<Longrightarrow> 0 < n \<Longrightarrow> src_bytes s = got @ src_bytes s'"
  using src_read_some[of s n]
  by (cases "src_bytes s = []") (auto simp: src_read_empty src_bytes_def)

text \<open>A byte delivered is the first byte pending, whatever the segmentation.\<close>

lemma read_byte_Inr: "bufio_read_byte b = (Inr c, b') \<Longrightarrow> pending b = c # pending b'"
  by (auto simp: bufio_read_byte_def pending_def split: list.splits option.splits prod.splits
      dest!: src_read_pending)

lemma read_byte_size: "bufio_read_byte b = (Inr c, b') \<Longrightarrow> length (pending b') < length (pending b)"
  by (drule read_byte_Inr) simp

lemma read_Some_progress: "bufio_read n b = (got, None, b') \<Longrightarrow> 0 < n \<Longrightarrow> got \<noteq> []"
  by (auto simp: bufio_read_def split: if_splits option.splits prod.splits dest!: src_read_not_stuck)

lemma read_length: "bufio_read n b = (got, e, b') \<Longrightarrow> length got \<le> n"
proof -
  have "src_read m s = (g, e, s') \<Longrightarrow> length g \<le> m" for m s g e s'
    by (auto simp: src_read_def Let_def split: list.splits)
  then show "bufio_read n b = (got, e, b') \<Longrightarrow> length got \<le> n"
    by (fastforce simp: bufio_read_def split: if_splits option.splits prod.splits)
qed

text \<open>
  What the clients of a buffered reader over a plain source rely on: bytes come in order, a
  read delivers a non-empty part of what is pending, and the final error is reported exactly
  when nothing is pending.
\<close>

lemma plain_byte_some:
  assumes "plain_bufio b" "pending b = c # cs"
  shows "\<exists>b'. bufio_read_byte b = (Inr c, b') \<and> pending b' = cs \<and> plain_bufio b' \<and> final_err b' = final_err b"
proof (cases "buf b")
  case Nil
  with assms have ne: "src_bytes (source b) = c # cs" and pe: "pend_err b = None"
    by (auto simp: pending_def plain_bufio_def)
  then obtain k s' where "0 < k" "src_read bufio_size (source b) = (take k (c # cs), None, s')"
    "src_bytes s' = drop k (c # cs)" "src_err s' = src_err (source b)" "\<not> src_eager s'"
    using src_read_some[of "source b" bufio_size] assms(1) by (auto simp: plain_bufio_def)
  with Nil pe show ?thesis
    by (cases k) (auto simp: bufio_read_byte_def pending_def plain_bufio_def final_err_def)
next
  case (Cons x xs)
  with assms show ?thesis
    by (auto simp: bufio_read_byte_def pending_def plain_bufio_def final_err_def)
qed

lemma plain_byte_none:
  assumes "plain_bufio b" "pending b = []"
  shows "\<exists>b'. bufio_read_byte b = (Inl (final_err b), b') \<and> pending b' = [] \<and> plain_bufio b' \<and> final_err b' = final_err b"
  using assms
  by (auto simp: bufio_read_byte_def pending_def plain_bufio_def final_err_def src_read_empty src_bytes_def)

lemma plain_read_some:
  assumes "plain_bufio b" "pending b \<noteq> []" "0 < n"
  shows "\<exists>k b'. 0 < k \<and> k \<le> n \<and> k \<le> length (pending b) \<and>
    bufio_read n b = (take k (pending b), None, b') \<and>
    pending b' = drop k (pending b) \<and> plain_bufio b' \<and> final_err b' = final_err b"
proof (cases "buf b = []")
  case False
  with assms show ?thesis
    by (intro exI[of _ "min n (length (buf b))"])
       (auto simp: bufio_read_def pending_def plain_bufio_def final_err_def min_def)
next
  case True
  let ?s = "source b" and ?m = "if bufio_size \<le> n then n else bufio_size"
  have m: "0 < ?m" using assms(3) by simp
  from True assms have ne: "src_bytes ?s \<noteq> []" and p: "pending b = src_bytes ?s" "pend_err b = None" "\<not> src_eager ?s"
    by (auto simp: pending_def plain_bufio_def)
  then obtain k s' where k: "0 < k" "k \<le> ?m" "k \<le> length (src_bytes ?s)"
    and r: "src_read ?m ?s = (take k (src_bytes ?s), None, s')"
    and s': "src_bytes s' = drop k (src_bytes ?s)" "src_err s' = src_err ?s" "\<not> src_eager s'"
    using src_read_some[OF ne m] by (simp only: p if_False simp_thms) blast
  show ?thesis
    using k r s' True p ne assms(3)
    by (intro exI[of _ "min n k"])
       (auto simp: bufio_read_def pending_def plain_bufio_def final_err_def min_def
         drop_take_append_drop split: if_splits)
qed

lemma plain_read_none:
  assumes "plain_bufio b" "pending b = []"
  shows "\<exists>b'. bufio_read n b = ([], Some (final_err b), b') \<and> pending b' = [] \<and> plain_bufio b' \<and> final_err b' = final_err b"
  using assms
  by (auto simp: bufio_read_def pending_def plain_bufio_def final_err_def src_read_empty src_bytes_def)

end
