(* ===== verification/Http_Types.thy ===== *)
theory Http_Types
  imports Go_IO
begin

text \<open>
  The data of package http1: the error values, header fields, request lines, requests and
  responses. Wrapped errors (\<open>fmt.Errorf("%w: ...")\<close>) are the sentinel they wrap; the
  added text is only ever logged.
\<close>

datatype http_err =
    ErrLineTooLong | ErrLineEnding | ErrUnexpectedEOF
  | ErrMalformedRequestLine | ErrUnsupportedVersion
  | ErrMalformedHeader | ErrTooManyHeaders | ErrInvalidContentLength | ErrConflictingHeader
  | ErrMissingHost | ErrUnsupportedTransferEncoding
  | ErrBodyTooLarge | ErrUnexpectedBodyEOF
  | ErrInvalidStatusCode | ErrMalformedResponse
  | ErrIO io_err

record header_field =
  hname :: bytes
  hvalue :: bytes

abbreviation HeaderField :: "bytes \<Rightarrow> bytes \<Rightarrow> header_field" where
  "HeaderField n v \<equiv> \<lparr>hname = n, hvalue = v\<rparr>"

record request_line =
  rl_method :: bytes
  rl_target :: bytes
  rl_version :: bytes

record http_request =
  request_line :: request_line
  req_headers :: "header_field list"
  req_body :: bytes

record request_limits =
  max_headers :: int
  max_body :: int

text \<open>
  A body stream is a reader with, when its dynamic type has a \<open>Close\<close> method, the handle
  that method closes.
\<close>

record body_stream =
  stream_src :: byte_source
  stream_closer :: "nat option"

record response =
  resp_version :: bytes
  resp_status :: int
  resp_reason :: bytes
  resp_headers :: "header_field list"
  resp_body :: bytes
  resp_reader :: "body_stream option"
  resp_closer :: "nat option"
  resp_length :: int
  resp_chunked :: bool

text \<open>The zero value of the struct: what a composite literal leaves unset.\<close>

definition zero_response :: response where
  "zero_response = \<lparr>resp_version = [], resp_status = 0, resp_reason = [], resp_headers = [],
     resp_body = [], resp_reader = None, resp_closer = None, resp_length = 0, resp_chunked = False\<rparr>"

end
