(* ===== verification/Header.thy ===== *)
theory Header
  imports Http_Types
begin

text \<open>
  Request lines and header fields (http1/request_line.go, http1/header.go): parsing of one
  line, the interpretation of \<open>Content-Length\<close> and of comma-separated header tokens.
\<close>

section \<open>Request lines\<close>

definition parse_request_line :: "bytes \<Rightarrow> http_err + request_line" where
  "parse_request_line line =
     (case split_on sp line of
        [meth, target, version] \<Rightarrow>
          if meth = [] \<or> target = [] \<or> version = [] then Inl ErrMalformedRequestLine
          else if contains_any meth [cr, lf, tab] \<or> contains_any target [cr, lf, tab] \<or>
                  contains_any version [cr, lf, tab] then Inl ErrMalformedRequestLine
          else if version \<noteq> ''HTTP/1.1'' \<and> version \<noteq> ''HTTP/1.0'' then Inl ErrUnsupportedVersion
          else Inr \<lparr>rl_method = meth, rl_target = target, rl_version = version\<rparr>
      | _ \<Rightarrow> Inl ErrMalformedRequestLine)"

text \<open>A non-empty word without space, CR, LF or TAB, and the request lines built from such words.\<close>

definition token_word :: "bytes \<Rightarrow> bool" where
  "token_word w \<longleftrightarrow> w \<noteq> [] \<and> \<not> contains_any w [sp, cr, lf, tab]"

definition valid_request_line :: "request_line \<Rightarrow> bool" where
  "valid_request_line rl \<longleftrightarrow> token_word (rl_method rl) \<and> token_word (rl_target rl) \<and>
     rl_version rl \<in> {''HTTP/1.1'', ''HTTP/1.0''}"

definition render_request_line :: "request_line \<Rightarrow> bytes" where
  "render_request_line rl = rl_method rl @ [sp] @ rl_target rl @ [sp] @ rl_version rl"

lemma version_no_ctl: "v \<in> {''HTTP/1.1'', ''HTTP/1.0''} \<Longrightarrow> v \<noteq> [] \<and> \<not> contains_any v [sp, cr, lf, tab]"
  by auto

lemma split_on_three:
  "split_on c s = [x, y, z] \<longleftrightarrow> s = x @ [c] @ y @ [c] @ z \<and> c \<notin> set x \<and> c \<notin> set y \<and> c \<notin> set z"
proof
  assume *: "split_on c s = [x, y, z]"
  then have "join [c] [x, y, z] = s" using join_split_on[of c s] by simp
  moreover have "c \<notin> set x \<and> c \<notin> set y \<and> c \<notin> set z"
    using split_on_pieces[of _ c s] * by (metis list.set_intros)
  ultimately show "s = x @ [c] @ y @ [c] @ z \<and> c \<notin> set x \<and> c \<notin> set y \<and> c \<notin> set z"
    by auto
next
  assume "s = x @ [c] @ y @ [c] @ z \<and> c \<notin> set x \<and> c \<notin> set y \<and> c \<notin> set z"
  then show "split_on c s = [x, y, z]" by simp
qed

lemma parse_request_line_iff:
  "parse_request_line line = Inr rl \<longleftrightarrow> valid_request_line rl \<and> line = render_request_line rl"
proof
  assume "parse_request_line line = Inr rl"
  then obtain m t v where s: "split_on sp line = [m, t, v]"
    and ne: "m \<noteq> []" "t \<noteq> []" "v \<noteq> []"
    and c: "\<not> contains_any m [cr, lf, tab]" "\<not> contains_any t [cr, lf, tab]" "\<not> contains_any v [cr, lf, tab]"
    and v: "v = ''HTTP/1.1'' \<or> v = ''HTTP/1.0''"
    and rl: "rl = \<lparr>rl_method = m, rl_target = t, rl_version = v\<rparr>"
    by (auto simp: parse_request_line_def split: list.splits if_splits)
  from s have "line = m @ [sp] @ t @ [sp] @ v" "sp \<notin> set m" "sp \<notin> set t"
    unfolding split_on_three by auto
  with ne c v rl show "valid_request_line rl \<and> line = render_request_line rl"
    by (simp add: valid_request_line_def render_request_line_def token_word_def contains_any_set)
next
  assume *: "valid_request_line rl \<and> line = render_request_line rl"
  then have "split_on sp line = [rl_method rl, rl_target rl, rl_version rl]"
    unfolding split_on_three
    by (auto simp: valid_request_line_def render_request_line_def token_word_def contains_any_set)
  moreover have "\<not> contains_any (rl_version rl) [cr, lf, tab]" "rl_version rl \<noteq> []"
    using * by (auto simp: valid_request_line_def)
  ultimately show "parse_request_line line = Inr rl"
    using * by (simp add: parse_request_line_def valid_request_line_def token_word_def contains_any_set)
qed

section \<open>Header fields\<close>

definition parse_header_field :: "bytes \<Rightarrow> http_err + header_field" where
  "parse_header_field line =
     (case cut line CHR '':'' of (name, val, ok) \<Rightarrow>
        if \<not> ok then Inl ErrMalformedHeader
        else if name = [] then Inl ErrMalformedHeader
        else if contains_any name [sp, tab, cr, lf] then Inl ErrMalformedHeader
        else if contains_any val [cr, lf] then Inl ErrMalformedHeader
        else Inr (HeaderField name (trim val [sp, tab])))"

definition valid_name :: "bytes \<Rightarrow> bool" where
  "valid_name n \<longleftrightarrow> n \<noteq> [] \<and> \<not> contains_any n [sp, tab, cr, lf, CHR '':'']"

definition valid_field :: "header_field \<Rightarrow> bool" where
  "valid_field f \<longleftrightarrow> valid_name (hname f) \<and> \<not> contains_any (hvalue f) [cr, lf] \<and>
     trim (hvalue f) [sp, tab] = hvalue f"

lemma parse_header_field_iff:
  "parse_header_field line = Inr f \<longleftrightarrow>
     (\<exists>v. line = hname f @ [CHR '':''] @ v \<and> valid_name (hname f) \<and>
          \<not> contains_any v [cr, lf] \<and> hvalue f = trim v [sp, tab])"
proof
  assume *: "parse_header_field line = Inr f"
  obtain n v ok where c: "cut line CHR '':'' = (n, v, ok)" by (metis prod_cases3)
  with * have ok: ok and n: "n \<noteq> []" "\<not> contains_any n [sp, tab, cr, lf]"
    and v: "\<not> contains_any v [cr, lf]" and f: "f = HeaderField n (trim v [sp, tab])"
    by (auto simp: parse_header_field_def split: if_splits)
  from c ok have "line = n @ CHR '':'' # v" "CHR '':'' \<notin> set n"
    using cut_found by auto
  with n v f show "\<exists>v. line = hname f @ [CHR '':''] @ v \<and> valid_name (hname f) \<and>
      \<not> contains_any v [cr, lf] \<and> hvalue f = trim v [sp, tab]"
    by (auto simp: valid_name_def contains_any_set)
next
  assume "\<exists>v. line = hname f @ [CHR '':''] @ v \<and> valid_name (hname f) \<and>
      \<not> contains_any v [cr, lf] \<and> hvalue f = trim v [sp, tab]"
  then obtain v where line: "line = hname f @ CHR '':'' # v"
    and n: "hname f \<noteq> []" "\<not> contains_any (hname f) [sp, tab, cr, lf]" "CHR '':'' \<notin> set (hname f)"
    and v: "\<not> contains_any v [cr, lf]" "hvalue f = trim v [sp, tab]"
    by (auto simp: valid_name_def contains_any_set)
  have "cut line CHR '':'' = (hname f, v, True)" using line n(3) by simp
  then have "parse_header_field line = Inr (HeaderField (hname f) (trim v [sp, tab]))"
    unfolding parse_header_field_def using n v(1) by (simp only: prod.case if_False simp_thms)
  with v(2) show "parse_header_field line = Inr f" by simp
qed

lemma parse_header_field_valid: "parse_header_field line = Inr f \<Longrightarrow> valid_field f"
  unfolding parse_header_field_iff valid_field_def
  by (auto simp: not_contains_any_trim)

text \<open>The serialised form of a field, as the response writer emits it (without CRLF).\<close>

definition render_field :: "header_field \<Rightarrow> bytes" where
  "render_field f = hname f @ '': '' @ hvalue f"

lemma trim_sp_Cons: "trim (sp # v) [sp, tab] = trim v [sp, tab]"
  by (simp add: trim_def trim_left_def)

lemma parse_render_field:
  "valid_field f \<Longrightarrow> parse_header_field (render_field f) = Inr f"
  unfolding parse_header_field_iff
  by (intro exI[of _ "sp # hvalue f"])
     (auto simp: render_field_def valid_field_def trim_sp_Cons)

section \<open>Content-Length and tokens\<close>

definition parse_content_length_value :: "bytes \<Rightarrow> http_err + int" where
  "parse_content_length_value val =
     (if val = [] then Inl ErrInvalidContentLength
      else if has_prefix val ''+'' \<or> has_prefix val ''-'' then Inl ErrInvalidContentLength
      else (case parse_int64 val of
              None \<Rightarrow> Inl ErrInvalidContentLength
            | Some n \<Rightarrow> if n < 0 then Inl ErrInvalidContentLength else Inr n))"

fun content_length_loop :: "header_field list \<Rightarrow> int \<Rightarrow> bool \<Rightarrow> http_err + (int \<times> bool)" where
  "content_length_loop [] len found = Inr (len, found)"
| "content_length_loop (f # fs) len found =
     (if \<not> equal_fold (hname f) ''Content-Length'' then content_length_loop fs len found
      else (case parse_content_length_value (hvalue f) of
              Inl e \<Rightarrow> Inl e
            | Inr current \<Rightarrow>
                if found \<and> current \<noteq> len then Inl ErrConflictingHeader
                else content_length_loop fs current True))"

definition content_length :: "header_field list \<Rightarrow> http_err + (int \<times> bool)" where
  "content_length hs = content_length_loop hs 0 False"

definition header_has_token :: "header_field list \<Rightarrow> bytes \<Rightarrow> bytes \<Rightarrow> bool" where
  "header_has_token hs name token \<longleftrightarrow>
     (\<exists>f\<in>set hs. equal_fold (hname f) name \<and>
        (\<exists>v\<in>set (split_on CHR '','' (hvalue f)). equal_fold (trim v [sp, tab]) token))"

lemma parse_content_length_value_iff:
  "parse_content_length_value v = Inr n \<longleftrightarrow>
     v \<noteq> [] \<and> list_all is_digit v \<and> n = int (dec_val v) \<and> n \<le> max_int64"
proof (cases v)
  case (Cons c r)
  have "is_digit c \<Longrightarrow> c \<noteq> CHR ''-'' \<and> c \<noteq> CHR ''+''" by (rule is_digit_not_sign)
  then show ?thesis
    using Cons
    by (auto simp: parse_content_length_value_def parse_int64_def parse_digits_def has_prefix_def
        Let_def split: option.splits if_splits)
qed (simp add: parse_content_length_value_def)

lemma parse_content_length_value_nonneg: "parse_content_length_value v = Inr n \<Longrightarrow> 0 \<le> n"
  by (auto simp: parse_content_length_value_iff)

text \<open>The values of all the fields with a given name, in order.\<close>

definition field_values :: "header_field list \<Rightarrow> bytes \<Rightarrow> bytes list" where
  "field_values fs name = map hvalue (filter (\<lambda>f. equal_fold (hname f) name) fs)"

lemma field_values_Nil [simp]: "field_values [] name = []"
  by (simp add: field_values_def)

lemma field_values_Cons [simp]:
  "field_values (f # fs) name =
     (if equal_fold (hname f) name then hvalue f # field_values fs name else field_values fs name)"
  by (simp add: field_values_def)

lemma content_length_loop_iff:
  "content_length_loop fs len found = Inr (n, b) \<longleftrightarrow>
     (\<forall>v\<in>set (field_values fs ''Content-Length''). parse_content_length_value v = Inr n) \<and>
     (field_values fs ''Content-Length'' = [] \<longrightarrow> n = len \<and> b = found) \<and>
     (field_values fs ''Content-Length'' \<noteq> [] \<longrightarrow> b \<and> (found \<longrightarrow> n = len))"
  by (induction fs arbitrary: len found) (auto split: sum.splits)

lemma content_length_found_iff:
  "content_length fs = Inr (n, True) \<longleftrightarrow>
     field_values fs ''Content-Length'' \<noteq> [] \<and>
     (\<forall>v\<in>set (field_values fs ''Content-Length''). parse_content_length_value v = Inr n)"
  by (auto simp: content_length_def content_length_loop_iff)

lemma content_length_absent_iff:
  "content_length fs = Inr (n, False) \<longleftrightarrow> field_values fs ''Content-Length'' = [] \<and> n = 0"
  by (auto simp: content_length_def content_length_loop_iff)

lemma content_length_nonneg: "content_length fs = Inr (n, b) \<Longrightarrow> 0 \<le> n"
  by (cases b)
     (auto simp: content_length_found_iff content_length_absent_iff neq_Nil_conv
       dest: parse_content_length_value_nonneg)

end
