(* ===== verification/Line_Reader.thy ===== *)
theory Line_Reader
  imports Http_Types
begin

text \<open>
  \<open>LineReader\<close>: CRLF-terminated lines and fixed-length bodies read from one buffered
  connection (http1/line_reader.go, http1/body.go), with a specification on the flat byte
  sequence the connection delivers. The refinement lemmas say that how the network cuts
  that sequence into reads does not matter.
\<close>

section \<open>The code\<close>

record line_reader =
  reader :: bufio
  max_line :: int

definition new_line_reader :: "byte_source \<Rightarrow> int \<Rightarrow> line_reader" where
  "new_line_reader r maxLine = \<lparr>reader = new_bufio r, max_line = maxLine\<rparr>"

function read_line_loop :: "int \<Rightarrow> bytes \<Rightarrow> bufio \<Rightarrow> (http_err + bytes) \<times> bufio" where
  "read_line_loop maxLine line b =
     (case bufio_read_byte b of
        (Inl e, b') \<Rightarrow> (Inl (if e = IoEOF then ErrUnexpectedEOF else ErrIO e), b')
      | (Inr c, b') \<Rightarrow>
          let line' = line @ [c] in
          if 0 < maxLine \<and> maxLine < int (length line') then (Inl ErrLineTooLong, b')
          else if c = lf then
            (if has_suffix line' crlf then (Inr (take (length line' - length crlf) line'), b')
             else (Inl ErrLineEnding, b'))
          else read_line_loop maxLine line' b')"
  by pat_completeness auto
termination
  by (relation "measure (\<lambda>(m, l, b). length (pending b))") (auto dest!: read_byte_size [OF sym])

declare read_line_loop.simps [simp del]

definition read_line :: "line_reader \<Rightarrow> (http_err + bytes) \<times> line_reader" where
  "read_line r =
     (case read_line_loop (max_line r) [] (reader r) of (res, b) \<Rightarrow> (res, r\<lparr>reader := b\<rparr>))"

definition body_read_chunk_size :: int where
  "body_read_chunk_size = 4096"

function read_body_loop :: "int \<Rightarrow> bytes \<Rightarrow> bufio \<Rightarrow> (http_err + bytes) \<times> bufio" where
  "read_body_loop remaining acc b =
     (if 0 < remaining then
        let readSize = (if remaining < body_read_chunk_size then remaining else body_read_chunk_size)
        in (case bufio_read (nat readSize) b of (got, err, b') \<Rightarrow>
             (case err of
                Some e \<Rightarrow> (Inl (if e = IoEOF then ErrUnexpectedBodyEOF else ErrIO e), b')
              | None \<Rightarrow> read_body_loop (remaining - int (length got)) (acc @ got) b'))
      else (Inr acc, b))"
  by pat_completeness auto
termination
  by (relation "measure (\<lambda>(n, acc, b). nat n)")
     (auto dest!: read_Some_progress [OF sym] simp: body_read_chunk_size_def split: if_splits)

declare read_body_loop.simps [simp del]

text \<open>The largest \<open>int\<close> of the platform (64 bits), against which the code checks the length.\<close>

definition read_fixed_body :: "int \<Rightarrow> int \<Rightarrow> line_reader \<Rightarrow> (http_err + bytes) \<times> line_reader" where
  "read_fixed_body length' maxBody r =
     (if length' < 0 then (Inl ErrInvalidContentLength, r)
      else if 0 < maxBody \<and> maxBody < length' then (Inl ErrBodyTooLarge, r)
      else if length' = 0 then (Inr [], r)
      else if max_int64 < length' then (Inl ErrBodyTooLarge, r)
      else (case read_body_loop length' [] (reader r) of (res, b) \<Rightarrow> (res, r\<lparr>reader := b\<rparr>)))"

section \<open>The specification on the flat byte sequence\<close>

definition eof_line_err :: "io_err \<Rightarrow> http_err" where
  "eof_line_err e = (if e = IoEOF then ErrUnexpectedEOF else ErrIO e)"

definition eof_body_err :: "io_err \<Rightarrow> http_err" where
  "eof_body_err e = (if e = IoEOF then ErrUnexpectedBodyEOF else ErrIO e)"

text \<open>
  The line is what precedes the first LF, provided it and its LF fit the limit, and it must
  end in CR. Without such an LF the limit decides between an over-long line and a
  connection that ended early.
\<close>

definition flat_line :: "int \<Rightarrow> io_err \<Rightarrow> bytes \<Rightarrow> (http_err + bytes) \<times> bytes" where
  "flat_line m e p =
     (let l = takeWhile (\<lambda>c. c \<noteq> lf) p; rest = drop (Suc (length l)) p
      in if lf \<in> set p \<and> (m \<le> 0 \<or> int (length l) < m)
         then (if l \<noteq> [] \<and> last l = cr then Inr (butlast l) else Inl ErrLineEnding, rest)
         else if 0 < m \<and> m < int (length p) then (Inl ErrLineTooLong, drop (nat m + 1) p)
         else (Inl (eof_line_err e), []))"

definition flat_body :: "int \<Rightarrow> int \<Rightarrow> io_err \<Rightarrow> bytes \<Rightarrow> (http_err + bytes) \<times> bytes" where
  "flat_body n maxBody e p =
     (if n < 0 then (Inl ErrInvalidContentLength, p)
      else if 0 < maxBody \<and> maxBody < n \<or> max_int64 < n then (Inl ErrBodyTooLarge, p)
      else if n \<le> int (length p) then (Inr (take (nat n) p), drop (nat n) p)
      else (Inl (eof_body_err e), []))"

section \<open>The code refines the specification\<close>

lemma flat_line_found:
  "lf \<notin> set l \<Longrightarrow> m \<le> 0 \<or> int (length l) < m \<Longrightarrow>
   flat_line m e (l @ lf # rest) =
     (if l \<noteq> [] \<and> last l = cr then Inr (butlast l) else Inl ErrLineEnding, rest)"
  by (simp add: flat_line_def)

lemma flat_line_eof:
  "lf \<notin> set p \<Longrightarrow> m \<le> 0 \<or> int (length p) \<le> m \<Longrightarrow> flat_line m e p = (Inl (eof_line_err e), [])"
  by (auto simp: flat_line_def)

lemma flat_line_too_long:
  assumes "lf \<notin> set l" "int (length l) = m" "0 < m"
  shows "flat_line m e (l @ c # cs) = (Inl ErrLineTooLong, cs)"
proof -
  have "length (takeWhile (\<lambda>c. c \<noteq> lf) (l @ c # cs)) \<ge> length l"
    using assms(1) by (induction l) auto
  with assms show ?thesis by (auto simp: flat_line_def Let_def)
qed

lemma read_line_loop_refines:
  assumes "plain_bufio b" "lf \<notin> set line" "0 < m \<longrightarrow> int (length line) \<le> m"
  shows "\<exists>b'. read_line_loop m line b = (fst (flat_line m (final_err b) (line @ pending b)), b') \<and>
    pending b' = snd (flat_line m (final_err b) (line @ pending b)) \<and>
    plain_bufio b' \<and> final_err b' = final_err b"
  using assms
proof (induction "pending b" arbitrary: b line)
  case Nil
  from plain_byte_none[OF Nil(2)] Nil(1) obtain b' where
    "bufio_read_byte b = (Inl (final_err b), b')" "pending b' = []" "plain_bufio b'" "final_err b' = final_err b"
    by auto
  with Nil show ?case
    by (auto simp: read_line_loop.simps[of m line b] flat_line_eof eof_line_err_def)
next
  case (Cons c cs)
  from plain_byte_some[OF Cons(3) Cons(2)[symmetric]] obtain b1 where
    b1: "bufio_read_byte b = (Inr c, b1)" "pending b1 = cs" "plain_bufio b1" "final_err b1 = final_err b"
    by auto
  note step = read_line_loop.simps[of m line b]
  consider (long) "0 < m" "m < int (length (line @ [c]))"
    | (eol) "\<not> (0 < m \<and> m < int (length (line @ [c])))" "c = lf"
    | (more) "\<not> (0 < m \<and> m < int (length (line @ [c])))" "c \<noteq> lf"
    by blast
  then show ?case
  proof cases
    case long
    with Cons.prems have "int (length line) = m" by simp
    with Cons.prems long b1 show ?thesis
      by (auto simp: step flat_line_too_long Cons.hyps(2)[symmetric])
  next
    case eol
    have "has_suffix (line @ [lf]) crlf \<longleftrightarrow> line \<noteq> [] \<and> last line = cr"
      by (auto simp: has_suffix_def suffix_crlf_snoc suffix_singleton_iff)
    moreover have "m \<le> 0 \<or> int (length line) < m" using eol by auto
    ultimately show ?thesis
      using eol b1 Cons.prems
      by (auto simp: step flat_line_found Cons.hyps(2)[symmetric] butlast_conv_take)
  next
    case more
    from Cons.hyps(1)[OF b1(2)[symmetric] b1(3), of "line @ [c]"] Cons.prems more
    show ?thesis
      by (auto simp: step b1 Cons.hyps(2)[symmetric])
  qed
qed

text \<open>
  The observable state of a line reader: what the connection still delivers, and how it ends.
\<close>

definition unread :: "line_reader \<Rightarrow> bytes" where
  "unread r = pending (reader r)"

definition reader_err :: "line_reader \<Rightarrow> io_err" where
  "reader_err r = final_err (reader r)"

definition plain_reader :: "line_reader \<Rightarrow> bool" where
  "plain_reader r \<longleftrightarrow> plain_bufio (reader r)"

lemma read_line_refines:
  assumes "plain_reader r"
  shows "\<exists>r'. read_line r = (fst (flat_line (max_line r) (reader_err r) (unread r)), r') \<and>
    unread r' = snd (flat_line (max_line r) (reader_err r) (unread r)) \<and>
    plain_reader r' \<and> reader_err r' = reader_err r \<and> max_line r' = max_line r"
  using read_line_loop_refines[of "reader r" "[]" "max_line r"] assms
  by (auto simp: read_line_def plain_reader_def unread_def reader_err_def)

lemma read_body_loop_refines:
  assumes "plain_bufio b" "0 \<le> n"
  shows "\<exists>b'. read_body_loop n acc b =
      (if n \<le> int (length (pending b)) then Inr (acc @ take (nat n) (pending b))
       else Inl (eof_body_err (final_err b)), b') \<and>
    pending b' = drop (nat n) (pending b) \<and> plain_bufio b' \<and> final_err b' = final_err b"
  using assms
proof (induction n acc b rule: read_body_loop.induct)
  case (1 n acc b)
  note step = read_body_loop.simps[of n acc b]
  let ?k = "if n < body_read_chunk_size then n else body_read_chunk_size"
  show ?case
  proof (cases "0 < n")
    case False
    with "1.prems" show ?thesis by (simp add: read_body_loop.simps[of 0 acc b])
  next
    case True
    then have k: "0 < nat ?k" "int (nat ?k) \<le> n" by (auto simp: body_read_chunk_size_def)
    show ?thesis
    proof (cases "pending b = []")
      case True
      with plain_read_none[OF "1.prems"(1) True, of "nat ?k"] obtain b1 where
        "bufio_read (nat ?k) b = ([], Some (final_err b), b1)"
        "pending b1 = []" "plain_bufio b1" "final_err b1 = final_err b"
        by auto
      with True \<open>0 < n\<close> show ?thesis
        by (simp add: step Let_def eof_body_err_def)
    next
      case False
      from plain_read_some[OF "1.prems"(1) False k(1)] obtain j b1 where
        j: "0 < j" "j \<le> nat ?k" "j \<le> length (pending b)"
        and r: "bufio_read (nat ?k) b = (take j (pending b), None, b1)"
        and b1: "pending b1 = drop j (pending b)" "plain_bufio b1" "final_err b1 = final_err b"
        by auto
      have jn: "int j \<le> n" using j(2) k(2) by linarith
      have "read_body_loop n acc b = read_body_loop (n - int j) (acc @ take j (pending b)) b1"
        using True r j(3) by (simp add: step Let_def)
      moreover have nj: "nat n = j + nat (n - int j)" using jn by simp
      have "take j (pending b) @ take (nat (n - int j)) (drop j (pending b)) = take (nat n) (pending b)"
        by (simp only: nj take_add)
      moreover have "drop (nat (n - int j)) (drop j (pending b)) = drop (nat n) (pending b)"
        by (simp only: nj drop_drop add.commute)
      ultimately show ?thesis
        using "1.IH"[OF True refl r[symmetric] refl refl b1(2)] jn j(3) b1
        by (auto simp: algebra_simps)
    qed
  qed
qed

lemma read_fixed_body_refines:
  assumes "plain_reader r"
  shows "\<exists>r'. read_fixed_body n m r = (fst (flat_body n m (reader_err r) (unread r)), r') \<and>
    unread r' = snd (flat_body n m (reader_err r) (unread r)) \<and>
    plain_reader r' \<and> reader_err r' = reader_err r \<and> max_line r' = max_line r"
  using read_body_loop_refines[of "reader r" n "[]"] assms
  by (auto simp: read_fixed_body_def flat_body_def plain_reader_def unread_def reader_err_def)

text \<open>Success of the flat line reader, exactly.\<close>

lemma flat_line_Inr_iff:
  "flat_line m e p = (Inr l, q) \<longleftrightarrow>
     p = l @ crlf @ q \<and> lf \<notin> set l \<and> (m \<le> 0 \<or> int (length l) + 2 \<le> m)"
proof
  assume *: "flat_line m e p = (Inr l, q)"
  define t where "t = takeWhile (\<lambda>c. c \<noteq> lf) p"
  from * have "lf \<in> set p" and m: "m \<le> 0 \<or> int (length t) < m" and t: "t \<noteq> []" "last t = cr"
    and l: "l = butlast t" and q: "q = drop (Suc (length t)) p"
    by (auto simp: flat_line_def t_def Let_def split: if_splits)
  then obtain u v where p: "p = u @ lf # v" "lf \<notin> set u" by (meson split_list_first)
  then have "t = u" by (simp add: t_def)
  moreover have "t = l @ [cr]" using t l by (metis append_butlast_last_id)
  ultimately show "p = l @ crlf @ q \<and> lf \<notin> set l \<and> (m \<le> 0 \<or> int (length l) + 2 \<le> m)"
    using p q m by auto
next
  assume "p = l @ crlf @ q \<and> lf \<notin> set l \<and> (m \<le> 0 \<or> int (length l) + 2 \<le> m)"
  then show "flat_line m e p = (Inr l, q)"
    using flat_line_found[of "l @ [cr]" m e q] by auto
qed

lemma flat_line_shrinks: "flat_line m e p = (Inr l, q) \<Longrightarrow> length q < length p"
  by (simp add: flat_line_Inr_iff)

lemma flat_line_suffix: "suffix (snd (flat_line m e p)) p"
  by (auto simp: flat_line_def Let_def suffix_drop)

lemma flat_body_suffix: "suffix (snd (flat_body n mb e p)) p"
  by (auto simp: flat_body_def suffix_drop)

lemma flat_body_Inr_iff:
  "flat_body n mb e p = (Inr b, q) \<longleftrightarrow>
     p = b @ q \<and> int (length b) = n \<and> n \<le> max_int64 \<and> (mb \<le> 0 \<or> n \<le> mb)"
  by (auto simp: flat_body_def split: if_splits)

section \<open>Properties\<close>

text \<open>
  Line framing: on a connection, \<open>ReadLine\<close> returns \<open>l\<close> and leaves \<open>rest\<close> exactly when the
  unread bytes are \<open>l\<close>, CRLF, \<open>rest\<close>, with no LF inside \<open>l\<close> and the line within the limit,
  however the network cuts the bytes into reads.
\<close>

theorem read_line_exact:
  assumes "plain_reader r"
  shows "(\<exists>r'. read_line r = (Inr l, r') \<and> unread r' = rest) \<longleftrightarrow>
    unread r = l @ crlf @ rest \<and> lf \<notin> set l \<and> (max_line r \<le> 0 \<or> int (length l) + 2 \<le> max_line r)"
proof -
  obtain x q where f: "flat_line (max_line r) (reader_err r) (unread r) = (x, q)" by fastforce
  with read_line_refines[OF assms] obtain r' where "read_line r = (x, r')" "unread r' = q" by auto
  then have "(\<exists>r'. read_line r = (Inr l, r') \<and> unread r' = rest) \<longleftrightarrow>
      flat_line (max_line r) (reader_err r) (unread r) = (Inr l, rest)"
    using f by auto
  then show ?thesis by (simp add: flat_line_Inr_iff)
qed

theorem read_line_exact_witness:
  "\<exists>r'. read_line (new_line_reader \<lparr>segs = [''GE'', ''T'' @ [cr], [lf] @ ''x''], src_err = IoEOF, src_eager = False\<rparr> 5)
     = (Inr ''GET'', r') \<and> unread r' = ''x''"
  using read_line_exact[of "new_line_reader \<lparr>segs = [''GE'', ''T'' @ [cr], [lf] @ ''x''], src_err = IoEOF, src_eager = False\<rparr> 5"
      "''GET''" "''x''"]
  by (simp add: new_line_reader_def plain_reader_def unread_def src_bytes_def)

text \<open>
  Fixed-length bodies: \<open>ReadFixedBody\<close> returns exactly the next \<open>n\<close> unread bytes and leaves
  the rest, and it does so exactly when \<open>n\<close> is in range, within the limit and available; the
  loop over partial reads never loses or reorders bytes.
\<close>

theorem read_fixed_body_exact:
  assumes "plain_reader r"
  shows "(\<exists>r'. read_fixed_body n maxBody r = (Inr b, r') \<and> unread r' = rest) \<longleftrightarrow>
    unread r = b @ rest \<and> int (length b) = n \<and> n \<le> max_int64 \<and> (maxBody \<le> 0 \<or> n \<le> maxBody)"
proof -
  obtain x q where f: "flat_body n maxBody (reader_err r) (unread r) = (x, q)" by fastforce
  with read_fixed_body_refines[OF assms, of n maxBody] obtain r' where
    "read_fixed_body n maxBody r = (x, r')" "unread r' = q" by fastforce
  then have "(\<exists>r'. read_fixed_body n maxBody r = (Inr b, r') \<and> unread r' = rest) \<longleftrightarrow>
      flat_body n maxBody (reader_err r) (unread r) = (Inr b, rest)"
    using f by auto
  then show ?thesis by (simp add: flat_body_Inr_iff)
qed

theorem read_fixed_body_exact_witness:
  "\<exists>r'. read_fixed_body 5 10 (new_line_reader \<lparr>segs = [''he'', ''llo w''], src_err = IoEOF, src_eager = False\<rparr> 0)
     = (Inr ''hello'', r') \<and> unread r' = '' w''"
  using read_fixed_body_exact[of "new_line_reader \<lparr>segs = [''he'', ''llo w''], src_err = IoEOF, src_eager = False\<rparr> 0"
      5 10 "''hello''" "'' w''"]
  by (simp add: new_line_reader_def plain_reader_def unread_def src_bytes_def)

text \<open>
  A complete body is refused when its last bytes arrive in the same read as the end of the
  stream: with a source that reports \<open>io.EOF\<close> together with its data, as \<open>io.Reader\<close> allows, a
  body of exactly one read chunk is delivered in full and still ends in \<open>ErrUnexpectedBodyEOF\<close>.
\<close>

theorem read_fixed_body_eager_eof:
  "fst (read_fixed_body 4096 maxBody (new_line_reader
      \<lparr>segs = [replicate 4096 c], src_err = IoEOF, src_eager = True\<rparr> m)) =
   Inl (if 0 < maxBody \<and> maxBody < 4096 then ErrBodyTooLarge else ErrUnexpectedBodyEOF)"
proof -
  let ?s = "\<lparr>segs = [replicate 4096 c], src_err = IoEOF, src_eager = True\<rparr>"
  have "src_read 4096 ?s = (replicate 4096 c, Some IoEOF, ?s\<lparr>segs := []\<rparr>)"
    by (simp add: src_read_def Let_def src_bytes_def)
  then have "bufio_read 4096 (new_bufio ?s) = (replicate 4096 c, Some IoEOF, (new_bufio ?s)\<lparr>source := ?s\<lparr>segs := []\<rparr>\<rparr>)"
    by (simp add: bufio_read_def new_bufio_def bufio_size_def)
  then have "fst (read_body_loop 4096 [] (new_bufio ?s)) = Inl ErrUnexpectedBodyEOF"
    by (subst read_body_loop.simps) (simp add: body_read_chunk_size_def)
  then show ?thesis
    by (auto simp: read_fixed_body_def new_line_reader_def split: prod.splits)
qed

end
