(* ===== verification/Request.thy ===== *)
theory Request
  imports Header Line_Reader
begin

text \<open>
  Reading one request (\<open>ReadHeaderFields\<close> of http1/header.go and http1/request.go). The
  request parser uses its line reader through two operations, \<open>ReadLine\<close> and
  \<open>ReadFixedBody\<close>; it takes them as arguments, the locale \<open>request_source\<close> states what it
  relies on, and the line reader of the code and the flat byte sequence both provide it.
\<close>

section \<open>The code\<close>

text \<open>The loop over header lines ends with the input, not with a counter: \<open>None\<close> is not returning.\<close>

partial_function (option) read_header_fields_loop ::
  "('s \<Rightarrow> (http_err + bytes) \<times> 's) \<Rightarrow> int \<Rightarrow> header_field list \<Rightarrow> 's \<Rightarrow>
   ((http_err + header_field list) \<times> 's) option" where
  "read_header_fields_loop readLine maxHeaders hs s =
     (case readLine s of
        (Inl e, s') \<Rightarrow> Some (Inl e, s')
      | (Inr line, s') \<Rightarrow>
          if line = [] then Some (Inr hs, s')
          else if 0 < maxHeaders \<and> maxHeaders \<le> int (length hs) then Some (Inl ErrTooManyHeaders, s')
          else (case parse_header_field line of
                  Inl e \<Rightarrow> Some (Inl e, s')
                | Inr f \<Rightarrow> read_header_fields_loop readLine maxHeaders (hs @ [f]) s'))"

definition read_header_fields ::
  "('s \<Rightarrow> (http_err + bytes) \<times> 's) \<Rightarrow> int \<Rightarrow> 's \<Rightarrow>
   ((http_err + header_field list) \<times> 's) option" where
  "read_header_fields readLine maxHeaders s = read_header_fields_loop readLine maxHeaders [] s"

definition has_non_empty_header :: "header_field list \<Rightarrow> bytes \<Rightarrow> bool" where
  "has_non_empty_header hs name \<longleftrightarrow> (\<exists>h\<in>set hs. equal_fold (hname h) name \<and> hvalue h \<noteq> [])"

definition validate_request_headers :: "request_line \<Rightarrow> header_field list \<Rightarrow> http_err option" where
  "validate_request_headers rl hs =
     (if rl_version rl = ''HTTP/1.1'' \<and> \<not> has_non_empty_header hs ''Host'' then Some ErrMissingHost
      else if has_non_empty_header hs ''Transfer-Encoding'' then Some ErrUnsupportedTransferEncoding
      else None)"

definition read_request ::
  "('s \<Rightarrow> (http_err + bytes) \<times> 's) \<Rightarrow> (int \<Rightarrow> int \<Rightarrow> 's \<Rightarrow> (http_err + bytes) \<times> 's) \<Rightarrow>
   request_limits \<Rightarrow> 's \<Rightarrow> ((http_err + http_request) \<times> 's) option" where
  "read_request readLine readFixedBody limits s =
     (case readLine s of
        (Inl e, s1) \<Rightarrow> Some (Inl e, s1)
      | (Inr line, s1) \<Rightarrow>
     (case parse_request_line line of
        Inl e \<Rightarrow> Some (Inl e, s1)
      | Inr rl \<Rightarrow>
     (case read_header_fields readLine (max_headers limits) s1 of
        None \<Rightarrow> None
      | Some (Inl e, s2) \<Rightarrow> Some (Inl e, s2)
      | Some (Inr hs, s2) \<Rightarrow>
     (case validate_request_headers rl hs of
        Some e \<Rightarrow> Some (Inl e, s2)
      | None \<Rightarrow>
     (case content_length hs of
        Inl e \<Rightarrow> Some (Inl e, s2)
      | Inr (len, found) \<Rightarrow>
          if found then
            (case readFixedBody len (max_body limits) s2 of
               (Inl e, s3) \<Rightarrow> Some (Inl e, s3)
             | (Inr b, s3) \<Rightarrow> Some (Inr \<lparr>request_line = rl, req_headers = hs, req_body = b\<rparr>, s3))
          else Some (Inr \<lparr>request_line = rl, req_headers = hs, req_body = []\<rparr>, s2))))))"

lemma header_loop_done:
  "readLine s = (Inr [], s') \<Longrightarrow> read_header_fields_loop readLine mh hs s = Some (Inr hs, s')"
  by (subst read_header_fields_loop.simps) simp

lemma header_loop_step:
  "readLine s = (Inr l, s') \<Longrightarrow> l \<noteq> [] \<Longrightarrow> \<not> (0 < mh \<and> mh \<le> int (length hs)) \<Longrightarrow>
   parse_header_field l = Inr f \<Longrightarrow>
   read_header_fields_loop readLine mh hs s = read_header_fields_loop readLine mh (hs @ [f]) s'"
  by (subst read_header_fields_loop.simps) auto

section \<open>What the parser relies on\<close>

text \<open>
  A source of lines and bodies whose observable content is a byte sequence: reading a line
  and reading a body act on that content as \<open>flat_line\<close> and \<open>flat_body\<close> say.
\<close>

locale request_source =
  fixes readLine :: "'s \<Rightarrow> (http_err + bytes) \<times> 's"
    and readBody :: "int \<Rightarrow> int \<Rightarrow> 's \<Rightarrow> (http_err + bytes) \<times> 's"
    and view :: "'s \<Rightarrow> bytes"
    and ok :: "'s \<Rightarrow> bool"
    and maxLine :: int
    and endErr :: io_err
  assumes line_view: "ok s \<Longrightarrow> \<exists>s'. readLine s = (fst (flat_line maxLine endErr (view s)), s') \<and>
      view s' = snd (flat_line maxLine endErr (view s)) \<and> ok s'"
    and body_view: "ok s \<Longrightarrow> \<exists>s'. readBody n mb s = (fst (flat_body n mb endErr (view s)), s') \<and>
      view s' = snd (flat_body n mb endErr (view s)) \<and> ok s'"

context request_source
begin

lemma line_cases:
  assumes "ok s"
  obtains (err) x s' where "readLine s = (Inl x, s')" "flat_line maxLine endErr (view s) = (Inl x, view s')" "ok s'"
  | (line) l s' where "readLine s = (Inr l, s')" "flat_line maxLine endErr (view s) = (Inr l, view s')" "ok s'"
proof -
  from line_view[OF assms] obtain s' where
    s': "readLine s = (fst (flat_line maxLine endErr (view s)), s')"
      "view s' = snd (flat_line maxLine endErr (view s))" "ok s'" by blast
  then show thesis
    using err line by (cases "flat_line maxLine endErr (view s)"; cases "fst (flat_line maxLine endErr (view s))") auto
qed

text \<open>The header loop returns on every source, and acts on its content only.\<close>

lemma header_loop_view:
  assumes "ok s"
  shows "\<exists>r s'. read_header_fields_loop readLine mh hs s = Some (r, s') \<and>
    read_header_fields_loop (flat_line maxLine endErr) mh hs (view s) = Some (r, view s') \<and> ok s'"
  using assms
proof (induction "length (view s)" arbitrary: s hs rule: less_induct)
  case less
  note steps = read_header_fields_loop.simps[of readLine mh hs s]
    read_header_fields_loop.simps[of "flat_line maxLine endErr" mh hs "view s"]
  from less.prems show ?case
  proof (cases rule: line_cases)
    case (err x s')
    then show ?thesis by (auto simp: steps)
  next
    case (line l s')
    show ?thesis
    proof (cases "parse_header_field l")
      case (Inl e)
      with line show ?thesis by (auto simp: steps)
    next
      case (Inr f)
      from less.hyps[OF flat_line_shrinks[OF line(2)] line(3), of "hs @ [f]"] line Inr
      show ?thesis by (auto simp: steps)
    qed
  qed
qed

lemma request_view:
  assumes "ok s"
  shows "\<exists>r s'. read_request readLine readBody lims s = Some (r, s') \<and>
    read_request (flat_line maxLine endErr) (\<lambda>n mb. flat_body n mb endErr) lims (view s) = Some (r, view s') \<and> ok s'"
  using assms
proof (cases rule: line_cases)
  case (err x s')
  then show ?thesis by (auto simp: read_request_def)
next
  case (line l s1)
  show ?thesis
  proof (cases "parse_request_line l")
    case (Inl e)
    with line show ?thesis by (auto simp: read_request_def)
  next
    case rl: (Inr rl)
    from header_loop_view[OF line(3), of "max_headers lims" "[]"] obtain r2 s2 where
      h: "read_header_fields readLine (max_headers lims) s1 = Some (r2, s2)"
        "read_header_fields (flat_line maxLine endErr) (max_headers lims) (view s1) = Some (r2, view s2)"
        "ok s2"
      by (auto simp: read_header_fields_def)
    note known = line(1,2) rl h
    show ?thesis
    proof (cases r2)
      case (Inl e)
      with known show ?thesis by (auto simp: read_request_def)
    next
      case (Inr hs)
      show ?thesis
      proof (cases "validate_request_headers rl hs = None \<and> (\<exists>n. content_length hs = Inr (n, True))")
        case False
        with known Inr show ?thesis
          by (auto simp: read_request_def split: option.split sum.split)
      next
        case True
        then obtain n where n: "validate_request_headers rl hs = None" "content_length hs = Inr (n, True)"
          by blast
        from body_view[OF h(3), of n "max_body lims"] obtain s3 where
          "readBody n (max_body lims) s2 = (fst (flat_body n (max_body lims) endErr (view s2)), s3)"
          "view s3 = snd (flat_body n (max_body lims) endErr (view s2))" "ok s3" by blast
        with known Inr n show ?thesis
          by (cases "flat_body n (max_body lims) endErr (view s2)";
              cases "fst (flat_body n (max_body lims) endErr (view s2))")
             (auto simp: read_request_def)
      qed
    qed
  qed
qed

end

section \<open>The two providers\<close>

text \<open>The byte sequence itself, and the code's line reader over a connection.\<close>

interpretation flat: request_source "flat_line m e" "\<lambda>n mb. flat_body n mb e" "\<lambda>p. p" "\<lambda>_. True" m e
  for m :: int and e :: io_err
  by unfold_locales auto

interpretation lines: request_source read_line read_fixed_body unread
  "\<lambda>r. plain_reader r \<and> max_line r = m \<and> reader_err r = e" m e
  for m :: int and e :: io_err
proof unfold_locales
  fix s :: line_reader and n mb
  assume *: "plain_reader s \<and> max_line s = m \<and> reader_err s = e"
  show "\<exists>s'. read_line s = (fst (flat_line m e (unread s)), s') \<and> unread s' = snd (flat_line m e (unread s)) \<and>
      (plain_reader s' \<and> max_line s' = m \<and> reader_err s' = e)"
    using read_line_refines[of s] * by auto
  show "\<exists>s'. read_fixed_body n mb s = (fst (flat_body n mb e (unread s)), s') \<and>
      unread s' = snd (flat_body n mb e (unread s)) \<and>
      (plain_reader s' \<and> max_line s' = m \<and> reader_err s' = e)"
    using read_fixed_body_refines[of s n mb] * by auto
qed

text \<open>\<open>ReadRequest\<close> as the handler calls it.\<close>

definition read_http_request :: "request_limits \<Rightarrow> line_reader \<Rightarrow> ((http_err + http_request) \<times> line_reader) option" where
  "read_http_request limits r = read_request read_line read_fixed_body limits r"

abbreviation flat_read_request :: "int \<Rightarrow> io_err \<Rightarrow> request_limits \<Rightarrow> bytes \<Rightarrow> ((http_err + http_request) \<times> bytes) option" where
  "flat_read_request m e \<equiv> read_request (flat_line m e) (\<lambda>n mb. flat_body n mb e)"

lemma read_http_request_refines:
  assumes "plain_reader r"
  shows "\<exists>res r'. read_http_request lims r = Some (res, r') \<and>
    flat_read_request (max_line r) (reader_err r) lims (unread r) = Some (res, unread r') \<and>
    plain_reader r' \<and> max_line r' = max_line r \<and> reader_err r' = reader_err r"
  using lines.request_view[of r "max_line r" "reader_err r" lims] assms
  by (auto simp: read_http_request_def)

section \<open>The grammar of accepted requests\<close>

definition line_fits :: "int \<Rightarrow> bytes \<Rightarrow> bool" where
  "line_fits m l \<longleftrightarrow> lf \<notin> set l \<and> (m \<le> 0 \<or> int (length l) + 2 \<le> m)"

definition header_line :: "int \<Rightarrow> bytes \<Rightarrow> header_field \<Rightarrow> bool" where
  "header_line m l f \<longleftrightarrow> line_fits m l \<and> parse_header_field l = Inr f"

definition lines_bytes :: "bytes list \<Rightarrow> bytes" where
  "lines_bytes ls = concat (map (\<lambda>l. l @ crlf) ls)"

lemma lines_bytes_simps [simp]:
  "lines_bytes [] = []" "lines_bytes (l # ls) = l @ crlf @ lines_bytes ls"
  by (simp_all add: lines_bytes_def)

lemma parse_header_field_Nil [simp]: "parse_header_field [] \<noteq> Inr f"
  by (simp add: parse_header_field_iff)

lemma flat_line_fits: "flat_line m e p = (Inr l, q) \<longleftrightarrow> p = l @ crlf @ q \<and> line_fits m l"
  by (simp add: flat_line_Inr_iff line_fits_def)

lemma header_loop_sound:
  "read_header_fields_loop (flat_line m e) mh acc p = Some (Inr hs, q) \<Longrightarrow>
   \<exists>ls fs. p = lines_bytes ls @ crlf @ q \<and> hs = acc @ fs \<and> list_all2 (header_line m) ls fs \<and>
     line_fits m [] \<and> (0 < mh \<and> fs \<noteq> [] \<longrightarrow> int (length hs) \<le> mh)"
proof (induction "length p" arbitrary: p acc rule: less_induct)
  case less
  obtain x q1 where fl: "flat_line m e p = (x, q1)" by fastforce
  note step = read_header_fields_loop.simps[of "flat_line m e" mh acc p]
  from less.prems fl obtain l where x: "x = Inr l" by (cases x) (auto simp: step)
  have p: "p = l @ crlf @ q1" "line_fits m l" using fl x by (auto simp: flat_line_fits)
  show ?case
  proof (cases "l = []")
    case True
    then have "flat_line m e p = (Inr [], q1)" using fl x by simp
    with less.prems have "hs = acc \<and> q = q1"
      using header_loop_done[of "flat_line m e" p q1 mh acc] by simp
    with True p show ?thesis by (intro exI[of _ "[]"]) auto
  next
    case False
    with less.prems fl x obtain f where f: "parse_header_field l = Inr f"
      and mh: "\<not> (0 < mh \<and> mh \<le> int (length acc))"
      and rec: "read_header_fields_loop (flat_line m e) mh (acc @ [f]) q1 = Some (Inr hs, q)"
      by (auto simp: step split: if_splits sum.splits)
    from less.hyps[OF flat_line_shrinks[OF fl[unfolded x]] rec] obtain ls fs where
      "q1 = lines_bytes ls @ crlf @ q" "hs = (acc @ [f]) @ fs" "list_all2 (header_line m) ls fs"
      "line_fits m []" "0 < mh \<and> fs \<noteq> [] \<longrightarrow> int (length hs) \<le> mh"
      by blast
    with p f mh show ?thesis
      by (intro exI[of _ "l # ls"] exI[of _ "f # fs"]) (cases "fs = []"; auto simp: header_line_def)
  qed
qed

lemma header_loop_complete:
  assumes "list_all2 (header_line m) ls fs" "line_fits m []"
    "0 < mh \<longrightarrow> int (length acc + length fs) \<le> mh"
  shows "read_header_fields_loop (flat_line m e) mh acc (lines_bytes ls @ crlf @ q) = Some (Inr (acc @ fs), q)"
  using assms
proof (induction ls fs arbitrary: acc rule: list_all2_induct)
  case Nil
  then have "flat_line m e (crlf @ q) = (Inr [], q)" by (simp add: flat_line_fits)
  then show ?case by (simp add: read_header_fields_loop.simps[of "flat_line m e"])
next
  case (Cons l ls f fs)
  let ?rest = "lines_bytes ls @ crlf @ q"
  have "flat_line m e (l @ crlf @ ?rest) = (Inr l, ?rest)" "l \<noteq> []" "parse_header_field l = Inr f"
    using Cons.hyps(1) by (auto simp: flat_line_fits header_line_def)
  moreover have "\<not> (0 < mh \<and> mh \<le> int (length acc))" using Cons.prems by auto
  ultimately have "read_header_fields_loop (flat_line m e) mh acc (l @ crlf @ ?rest) =
      read_header_fields_loop (flat_line m e) mh (acc @ [f]) ?rest"
    using header_loop_step[of "flat_line m e" "l @ crlf @ ?rest" l ?rest mh acc f] by blast
  then show ?case
    using Cons.IH[of "acc @ [f]"] Cons.prems by simp
qed

definition body_framed :: "request_limits \<Rightarrow> header_field list \<Rightarrow> bytes \<Rightarrow> bool" where
  "body_framed lims hs b \<longleftrightarrow>
     (case content_length hs of
        Inl _ \<Rightarrow> False
      | Inr (n, found) \<Rightarrow>
          if found then int (length b) = n \<and> (max_body lims \<le> 0 \<or> n \<le> max_body lims) else b = [])"

definition accepted :: "int \<Rightarrow> request_limits \<Rightarrow> bytes \<Rightarrow> http_request \<Rightarrow> bytes \<Rightarrow> bool" where
  "accepted m lims p req q \<longleftrightarrow>
     (\<exists>ls. p = render_request_line (request_line req) @ crlf @ lines_bytes ls @ crlf @ req_body req @ q \<and>
       list_all2 (header_line m) ls (req_headers req)) \<and>
     valid_request_line (request_line req) \<and>
     line_fits m (render_request_line (request_line req)) \<and>
     (0 < max_headers lims \<longrightarrow> int (length (req_headers req)) \<le> max_headers lims) \<and>
     validate_request_headers (request_line req) (req_headers req) = None \<and>
     body_framed lims (req_headers req) (req_body req)"

lemma content_length_max: "content_length hs = Inr (n, True) \<Longrightarrow> n \<le> max_int64"
  by (auto simp: content_length_found_iff neq_Nil_conv parse_content_length_value_iff)

lemma line_fits_mono: "line_fits m l \<Longrightarrow> length k \<le> length l \<Longrightarrow> lf \<notin> set k \<Longrightarrow> line_fits m k"
  by (auto simp: line_fits_def)

lemma flat_read_request_sound:
  assumes *: "flat_read_request m e lims p = Some (Inr req, q)"
  shows "accepted m lims p req q"
proof -
  note D = read_request_def read_header_fields_def
  from * obtain l p1 where l: "flat_line m e p = (Inr l, p1)"
    by (cases "flat_line m e p"; cases "fst (flat_line m e p)") (auto simp: D)
  from * l obtain rl where rl: "parse_request_line l = Inr rl"
    by (cases "parse_request_line l") (auto simp: D)
  from * l rl obtain hs p2 where
    h: "read_header_fields_loop (flat_line m e) (max_headers lims) [] p1 = Some (Inr hs, p2)"
    by (auto simp: D split: option.splits prod.splits sum.splits)
  from * l rl h have v: "validate_request_headers rl hs = None"
    by (cases "validate_request_headers rl hs") (auto simp: D)
  from * l rl h v obtain len found where c: "content_length hs = Inr (len, found)"
    by (cases "content_length hs") (auto simp: D)
  from * l rl h v c obtain b where req: "req = \<lparr>request_line = rl, req_headers = hs, req_body = b\<rparr>"
    and b: "if found then flat_body len (max_body lims) e p2 = (Inr b, q) else b = [] \<and> q = p2"
    by (auto simp: D split: if_splits prod.splits sum.splits)
  have p: "p = l @ crlf @ p1" "line_fits m l" using l by (auto simp: flat_line_fits)
  have rl': "valid_request_line rl" "l = render_request_line rl" using rl by (auto simp: parse_request_line_iff)
  from header_loop_sound[OF h] obtain ls where
    ls: "p1 = lines_bytes ls @ crlf @ p2" "list_all2 (header_line m) ls hs"
      "0 < max_headers lims \<and> hs \<noteq> [] \<longrightarrow> int (length hs) \<le> max_headers lims" by auto
  have "p2 = b @ q \<and> body_framed lims hs b"
    using b c by (auto simp: body_framed_def flat_body_Inr_iff split: if_splits)
  then show ?thesis
    using p rl' ls v req by (cases "hs = []") (auto simp: accepted_def)
qed

lemma flat_read_request_complete:
  assumes *: "accepted m lims p req q"
  shows "flat_read_request m e lims p = Some (Inr req, q)"
proof -
  let ?rl = "request_line req" and ?hs = "req_headers req" and ?b = "req_body req"
  from * obtain ls where
    p: "p = render_request_line ?rl @ crlf @ (lines_bytes ls @ crlf @ ?b @ q)"
    and ls: "list_all2 (header_line m) ls ?hs" by (auto simp: accepted_def)
  have l: "flat_line m e p = (Inr (render_request_line ?rl), lines_bytes ls @ crlf @ ?b @ q)"
    using * p by (simp add: flat_line_fits accepted_def)
  have rl: "parse_request_line (render_request_line ?rl) = Inr ?rl"
    using * by (simp add: parse_request_line_iff accepted_def)
  have "line_fits m []" using * line_fits_mono[of m _ "[]"] by (auto simp: accepted_def)
  then have h: "read_header_fields (flat_line m e) (max_headers lims) (lines_bytes ls @ crlf @ ?b @ q) = Some (Inr ?hs, ?b @ q)"
    using header_loop_complete[OF ls, of "max_headers lims" "[]"] * by (simp add: read_header_fields_def accepted_def)
  from * obtain n found where c: "content_length ?hs = Inr (n, found)"
    and b: "if found then int (length ?b) = n \<and> (max_body lims \<le> 0 \<or> n \<le> max_body lims) else ?b = []"
    by (auto simp: accepted_def body_framed_def split: sum.splits prod.splits)
  have "found \<Longrightarrow> flat_body n (max_body lims) e (?b @ q) = (Inr ?b, q)"
    using b c content_length_max by (auto simp: flat_body_Inr_iff)
  moreover have "validate_request_headers ?rl ?hs = None" using * by (simp add: accepted_def)
  ultimately show ?thesis
    using l rl h c b by (simp add: read_request_def)
qed

lemma flat_read_request_iff:
  "flat_read_request m e lims p = Some (Inr req, q) \<longleftrightarrow> accepted m lims p req q"
  using flat_read_request_sound flat_read_request_complete by blast

section \<open>Properties\<close>

lemma read_line_loop_shrinks:
  "read_line_loop m line b = (Inr l, b') \<Longrightarrow> length (pending b') < length (pending b)"
proof (induction m line b rule: read_line_loop.induct)
  case (1 m line b)
  note step = read_line_loop.simps[of m line b]
  obtain x b1 where rb: "bufio_read_byte b = (x, b1)" by fastforce
  from "1.prems" rb obtain c where x: "x = Inr c" by (cases x) (auto simp: step)
  have "length (pending b1) < length (pending b)" using rb x read_byte_size by simp
  moreover have "b' = b1 \<or> length (pending b') < length (pending b1)"
    using "1.prems" rb x "1.IH"[OF rb[symmetric] x refl]
    by (auto simp: step Let_def split: if_splits)
  ultimately show ?case by auto
qed

lemma read_line_shrinks: "read_line r = (Inr l, r') \<Longrightarrow> length (unread r') < length (unread r)"
  by (auto simp: read_line_def unread_def dest: read_line_loop_shrinks split: prod.splits)

lemma read_header_fields_returns: "\<exists>x. read_header_fields_loop read_line mh hs r = Some x"
proof (induction "length (unread r)" arbitrary: r hs rule: less_induct)
  case less
  note step = read_header_fields_loop.simps[of read_line mh hs r]
  obtain x r1 where rl: "read_line r = (x, r1)" by fastforce
  show ?case
  proof (cases x)
    case (Inr l)
    with rl less.hyps[OF read_line_shrinks[of r l r1]] show ?thesis
      by (cases "parse_header_field l") (auto simp: step)
  qed (use rl in \<open>auto simp: step\<close>)
qed

text \<open>
  Totality: on every connection, however it delivers its bytes and however it ends,
  \<open>ReadRequest\<close> returns, with a request or with an error.
\<close>

theorem read_http_request_returns: "\<exists>res r'. read_http_request lims r = Some (res, r')"
proof -
  obtain x r1 where rl: "read_line r = (x, r1)" by fastforce
  obtain y where h: "read_header_fields read_line (max_headers lims) r1 = Some y"
    using read_header_fields_returns unfolding read_header_fields_def by blast
  show ?thesis
    using rl h
    by (auto simp: read_http_request_def read_request_def split: sum.split option.split prod.split)
qed

text \<open>
  Refinement: \<open>ReadRequest\<close> on a connection is the same parser on the flat byte sequence,
  so two connections that deliver the same bytes in different segments give the same result
  and leave the same bytes for the next request.
\<close>

theorem read_http_request_segmentation:
  assumes "plain_reader r1" "plain_reader r2" "unread r1 = unread r2"
    and "max_line r1 = max_line r2" "reader_err r1 = reader_err r2"
  shows "map_option (\<lambda>(res, r). (res, unread r)) (read_http_request lims r1) =
         map_option (\<lambda>(res, r). (res, unread r)) (read_http_request lims r2)"
  using read_http_request_refines[OF assms(1), of lims] read_http_request_refines[OF assms(2), of lims] assms(3-5)
  by auto

theorem read_http_request_segmentation_witness:
  "map_option (\<lambda>(res, r). (res, unread r)) (read_http_request \<lparr>max_headers = 0, max_body = 0\<rparr>
      (new_line_reader \<lparr>segs = [''GET / HT'', ''TP/1.0'' @ crlf @ crlf], src_err = IoEOF, src_eager = False\<rparr> 0)) =
   map_option (\<lambda>(res, r). (res, unread r)) (read_http_request \<lparr>max_headers = 0, max_body = 0\<rparr>
      (new_line_reader \<lparr>segs = [''GET / HTTP/1.0'', crlf @ crlf], src_err = IoEOF, src_eager = False\<rparr> 0))"
  by (rule read_http_request_segmentation)
     (simp_all add: new_line_reader_def plain_reader_def unread_def src_bytes_def reader_err_def)

text \<open>
  C1. The accepted language: on a connection, \<open>ReadRequest\<close> returns \<open>req\<close> and leaves \<open>rest\<close>
  exactly when the unread bytes are a well-formed request line, one header line for each field,
  an empty line, the body that the Content-Length fields announce, and \<open>rest\<close>, all within the
  limits and with the Host and Transfer-Encoding rules satisfied.
\<close>

theorem read_http_request_exact:
  assumes "plain_reader r"
  shows "(\<exists>r'. read_http_request lims r = Some (Inr req, r') \<and> unread r' = rest) \<longleftrightarrow>
    accepted (max_line r) lims (unread r) req rest"
  using read_http_request_refines[OF assms, of lims]
    flat_read_request_iff[of "max_line r" "reader_err r" lims "unread r" req rest]
  by auto

text \<open>A concrete request, for the witnesses below.\<close>

definition example_request :: http_request where
  "example_request = \<lparr>request_line = \<lparr>rl_method = ''POST'', rl_target = ''/a'', rl_version = ''HTTP/1.1''\<rparr>,
     req_headers = [HeaderField ''Host'' ''h'', HeaderField ''content-length'' ''2''], req_body = ''hi''\<rparr>"

definition example_reader :: line_reader where
  "example_reader = new_line_reader
     \<lparr>segs = [''POST /a HTTP/1.1'' @ crlf @ ''Host: h'', crlf @ ''content-length: 2'' @ crlf @ crlf @ ''hiGET''],
      src_err = IoEOF, src_eager = False\<rparr> 100"

abbreviation example_limits :: request_limits where
  "example_limits \<equiv> \<lparr>max_headers = 2, max_body = 10\<rparr>"

lemma example_reader_plain: "plain_reader example_reader"
  by (simp add: example_reader_def new_line_reader_def plain_reader_def)

definition render_request :: "http_request \<Rightarrow> bytes" where
  "render_request req = render_request_line (request_line req) @ crlf @
     lines_bytes (map render_field (req_headers req)) @ crlf @ req_body req"

text \<open>The requests that a client can send in their canonical serialisation.\<close>

definition well_formed_request :: "int \<Rightarrow> request_limits \<Rightarrow> http_request \<Rightarrow> bool" where
  "well_formed_request m lims req \<longleftrightarrow> valid_request_line (request_line req) \<and>
     (\<forall>f\<in>set (req_headers req). valid_field f \<and> line_fits m (render_field f)) \<and>
     line_fits m (render_request_line (request_line req)) \<and>
     (0 < max_headers lims \<longrightarrow> int (length (req_headers req)) \<le> max_headers lims) \<and>
     validate_request_headers (request_line req) (req_headers req) = None \<and>
     body_framed lims (req_headers req) (req_body req)"

lemma well_formed_accepted:
  assumes "well_formed_request m lims req"
  shows "accepted m lims (render_request req @ rest) req rest"
proof -
  have "list_all2 (header_line m) (map render_field (req_headers req)) (map (\<lambda>f. f) (req_headers req))"
    using assms by (intro list_all2_mapI) (simp add: well_formed_request_def header_line_def parse_render_field)
  then show ?thesis
    using assms unfolding accepted_def well_formed_request_def render_request_def
    by (auto intro!: exI[of _ "map render_field (req_headers req)"])
qed

lemma example_well_formed: "well_formed_request 100 example_limits example_request"
  by code_simp

lemma example_unread: "unread example_reader = render_request example_request @ ''GET''"
  by (simp add: example_reader_def new_line_reader_def unread_def src_bytes_def render_request_def
      example_request_def render_request_line_def render_field_def)

lemma example_max_line: "max_line example_reader = 100"
  by (simp add: example_reader_def new_line_reader_def)

theorem read_http_request_exact_witness:
  "\<exists>r'. read_http_request example_limits example_reader = Some (Inr example_request, r') \<and> unread r' = ''GET''"
  using read_http_request_exact[OF example_reader_plain]
    well_formed_accepted[OF example_well_formed, of "''GET''"] example_unread example_max_line by simp

text \<open>
  C2. Round trip with pipelining: a well-formed request that was serialised onto a connection is
  read back as itself, and the bytes after it are untouched and unread.
\<close>

theorem read_http_request_roundtrip:
  assumes "plain_reader r" "well_formed_request (max_line r) lims req"
    and "unread r = render_request req @ rest"
  shows "\<exists>r'. read_http_request lims r = Some (Inr req, r') \<and> unread r' = rest"
  using read_http_request_exact[OF assms(1)] well_formed_accepted[OF assms(2)] assms(3) by simp

theorem read_http_request_roundtrip_witness:
  "\<exists>r'. read_http_request example_limits example_reader = Some (Inr example_request, r') \<and> unread r' = ''GET''"
  by (rule read_http_request_roundtrip)
     (simp_all add: example_reader_plain example_max_line example_well_formed example_unread)



end
