(* ===== verification/Response.thy ===== *)
theory Response
  imports Request
begin

text \<open>
  Writing a response (http1/response.go). The code writes to an \<open>io.Writer\<close>; the model takes
  that interface's \<open>Write\<close> as an argument, so that the same definitions run on a connection
  that fails after any number of bytes and on a plain byte buffer. The specification side
  is a decoder for chunked bodies; for fixed-length responses it is the header parser of
  theory \<open>Header\<close> itself.
\<close>

section \<open>The writer interface\<close>

text \<open>
  \<open>Write\<close> either takes all the bytes, or takes a strict prefix and reports an error.
\<close>

locale io_writer =
  fixes wr :: "bytes \<Rightarrow> 'w \<Rightarrow> 'w \<times> io_err option"
    and sent :: "'w \<Rightarrow> bytes"
  assumes write_all: "wr p w = (w', None) \<Longrightarrow> sent w' = sent w @ p"
    and write_fail: "wr p w = (w', Some e) \<Longrightarrow> \<exists>q. strict_prefix q p \<and> sent w' = sent w @ q"

text \<open>A connection that accepts a limited number of bytes (\<open>None\<close>: no limit).\<close>

record sink =
  sink_sent :: bytes
  sink_room :: "nat option"

definition sink_write :: "bytes \<Rightarrow> sink \<Rightarrow> sink \<times> io_err option" where
  "sink_write p s =
     (case sink_room s of
        None \<Rightarrow> (s\<lparr>sink_sent := sink_sent s @ p\<rparr>, None)
      | Some k \<Rightarrow>
          if length p \<le> k then (s\<lparr>sink_sent := sink_sent s @ p, sink_room := Some (k - length p)\<rparr>, None)
          else (s\<lparr>sink_sent := sink_sent s @ take k p, sink_room := Some 0\<rparr>, Some IoTimeout))"

definition buffer_write :: "bytes \<Rightarrow> bytes \<Rightarrow> bytes \<times> io_err option" where
  "buffer_write p w = (w @ p, None)"

interpretation buffer: io_writer buffer_write "\<lambda>w. w"
  by unfold_locales (auto simp: buffer_write_def)

interpretation conn: io_writer sink_write sink_sent
proof unfold_locales
  fix p s s' e
  assume "sink_write p s = (s', Some e)"
  then obtain k where "sink_room s = Some k" "k < length p" "sink_sent s' = sink_sent s @ take k p"
    by (cases "sink_room s") (auto simp: sink_write_def split: if_splits)
  then show "\<exists>q. strict_prefix q p \<and> sink_sent s' = sink_sent s @ q"
    by (intro exI[of _ "take k p"]) (auto simp: strict_prefix_def take_is_prefix)
qed (auto simp: sink_write_def split: option.splits if_splits)

section \<open>The code\<close>

text \<open>Status codes with a reason phrase of their own.\<close>

definition status_text :: "int \<Rightarrow> bytes" where
  "status_text code =
     (if code = 101 then ''Switching Protocols'' else
      if code = 200 then ''OK'' else
      if code = 201 then ''Created'' else
      if code = 204 then ''No Content'' else
      if code = 304 then ''Not Modified'' else
      if code = 400 then ''Bad Request'' else
      if code = 401 then ''Unauthorized'' else
      if code = 404 then ''Not Found'' else
      if code = 405 then ''Method Not Allowed'' else
      if code = 408 then ''Request Timeout'' else
      if code = 411 then ''Length Required'' else
      if code = 413 then ''Content Too Large'' else
      if code = 416 then ''Range Not Satisfiable'' else
      if code = 429 then ''Too Many Requests'' else
      if code = 500 then ''Internal Server Error'' else
      if code = 501 then ''Not Implemented'' else ''Status'')"

definition status_allows_body :: "int \<Rightarrow> bool" where
  "status_allows_body code =
     (if 100 \<le> code \<and> code < 200 then False else code \<noteq> 204 \<and> code \<noteq> 304)"

text \<open>One \<open>Write\<close>, and sequencing that stops at the first error.\<close>

definition put :: "(bytes \<Rightarrow> 'w \<Rightarrow> 'w \<times> io_err option) \<Rightarrow> bytes \<Rightarrow> 'w \<Rightarrow> 'w \<times> http_err option" where
  "put wr p w = (case wr p w of (w', e) \<Rightarrow> (w', map_option ErrIO e))"

definition and_then :: "'w \<times> http_err option \<Rightarrow> ('w \<Rightarrow> 'w \<times> http_err option) \<Rightarrow> 'w \<times> http_err option" where
  "and_then r k = (case r of (w, None) \<Rightarrow> k w | (w, Some e) \<Rightarrow> (w, Some e))"

definition write_header_field ::
  "(bytes \<Rightarrow> 'w \<Rightarrow> 'w \<times> io_err option) \<Rightarrow> header_field \<Rightarrow> 'w \<Rightarrow> 'w \<times> http_err option" where
  "write_header_field wr h w =
     (if hname h = [] \<or> contains_any (hname h) [sp, tab, cr, lf] then (w, Some ErrMalformedResponse)
      else if contains_any (hvalue h) [cr, lf] then (w, Some ErrMalformedResponse)
      else put wr (hname h @ '': '' @ hvalue h @ crlf) w)"

text \<open>Headers that \<open>WriteResponse\<close> replaces by its own are skipped.\<close>

definition skipped_header :: "bool \<Rightarrow> header_field \<Rightarrow> bool" where
  "skipped_header chunked h \<longleftrightarrow> equal_fold (hname h) ''Content-Length'' \<or>
     (chunked \<and> equal_fold (hname h) ''Transfer-Encoding'')"

fun write_headers ::
  "(bytes \<Rightarrow> 'w \<Rightarrow> 'w \<times> io_err option) \<Rightarrow> bool \<Rightarrow> header_field list \<Rightarrow> 'w \<Rightarrow> 'w \<times> http_err option" where
  "write_headers wr chunked [] w = (w, None)"
| "write_headers wr chunked (h # hs) w =
     (if skipped_header chunked h then write_headers wr chunked hs w
      else and_then (write_header_field wr h w) (write_headers wr chunked hs))"

definition write_chunk ::
  "(bytes \<Rightarrow> 'w \<Rightarrow> 'w \<times> io_err option) \<Rightarrow> bytes \<Rightarrow> 'w \<Rightarrow> 'w \<times> http_err option" where
  "write_chunk wr b w =
     and_then (put wr (nat_hex (length b) @ crlf) w) (\<lambda>w.
     and_then (put wr b w) (\<lambda>w.
     put wr crlf w))"

function write_chunked_reader ::
  "(bytes \<Rightarrow> 'w \<Rightarrow> 'w \<times> io_err option) \<Rightarrow> byte_source \<Rightarrow> 'w \<Rightarrow> 'w \<times> http_err option" where
  "write_chunked_reader wr src w =
     (case src_read (32 * 1024) src of (got, err, src') \<Rightarrow>
        and_then (if got \<noteq> [] then write_chunk wr got w else (w, None)) (\<lambda>w'.
          (case err of
             None \<Rightarrow> write_chunked_reader wr src' w'
           | Some e \<Rightarrow> (w', if e = IoEOF then None else Some (ErrIO e)))))"
  by pat_completeness auto

text \<open>
  \<open>io.CopyN(w, r, n)\<close> of the standard library: copy through a 32 kB buffer and a limited
  reader; fewer than \<open>n\<close> bytes without another error is \<open>io.EOF\<close>.
\<close>

function copy_n ::
  "(bytes \<Rightarrow> 'w \<Rightarrow> 'w \<times> io_err option) \<Rightarrow> byte_source \<Rightarrow> int \<Rightarrow> 'w \<Rightarrow> 'w \<times> http_err option" where
  "copy_n wr src n w =
     (if n \<le> 0 then (w, None)
      else (case src_read (nat (min n (32 * 1024))) src of (got, err, src') \<Rightarrow>
        and_then (if got \<noteq> [] then put wr got w else (w, None)) (\<lambda>w'.
          (case err of
             None \<Rightarrow> copy_n wr src' (n - int (length got)) w'
           | Some e \<Rightarrow> (w', if int (length got) = n then None else Some (ErrIO e))))))"
  by pat_completeness auto

lemma src_read_decreases:
  "src_read n s = (got, None, s') \<Longrightarrow> 0 < n \<Longrightarrow> got \<noteq> [] \<and> length (src_bytes s') < length (src_bytes s)"
  using src_read_pending[of n s got None s'] src_read_not_stuck[of n s s'] by fastforce

text \<open>The loops continue under \<open>and_then\<close>; its congruence rule tells the termination proof so.\<close>

lemma and_then_cong [fundef_cong]:
  "r = r' \<Longrightarrow> (\<And>w. r' = (w, None) \<Longrightarrow> k w = k' w) \<Longrightarrow> and_then r k = and_then r' k'"
  by (auto simp: and_then_def split: prod.splits option.splits)

termination write_chunked_reader
  by (relation "measure (\<lambda>(wr, s, w). length (src_bytes s))") (auto dest!: src_read_decreases [OF sym])

termination copy_n
  by (relation "measure (\<lambda>(wr, s, n, w). length (src_bytes s))") (auto dest!: src_read_decreases [OF sym])

declare write_chunked_reader.simps [simp del] copy_n.simps [simp del]

definition response_body_length :: "response \<Rightarrow> int" where
  "response_body_length resp =
     (case resp_reader resp of Some _ \<Rightarrow> resp_length resp | None \<Rightarrow> int (length (resp_body resp)))"

definition write_fixed_body ::
  "(bytes \<Rightarrow> 'w \<Rightarrow> 'w \<times> io_err option) \<Rightarrow> response \<Rightarrow> 'w \<Rightarrow> 'w \<times> http_err option" where
  "write_fixed_body wr resp w =
     (case resp_reader resp of
        Some r \<Rightarrow> copy_n wr (stream_src r) (resp_length resp) w
      | None \<Rightarrow> if resp_body resp = [] then (w, None) else put wr (resp_body resp) w)"

definition write_chunked_body ::
  "(bytes \<Rightarrow> 'w \<Rightarrow> 'w \<times> io_err option) \<Rightarrow> response \<Rightarrow> 'w \<Rightarrow> 'w \<times> http_err option" where
  "write_chunked_body wr resp w =
     and_then
       (case resp_reader resp of
          Some r \<Rightarrow> write_chunked_reader wr (stream_src r) w
        | None \<Rightarrow> if resp_body resp \<noteq> [] then write_chunk wr (resp_body resp) w else (w, None))
       (put wr (''0'' @ crlf @ crlf))"

text \<open>
  \<open>WriteResponse\<close>: the writer afterwards, the error, and the handles that the deferred
  \<open>Close\<close> has closed. The \<open>defer\<close> statement stands after the first four checks.
\<close>

definition effective_version :: "response \<Rightarrow> bytes" where
  "effective_version resp = (if resp_version resp = [] then ''HTTP/1.1'' else resp_version resp)"

definition effective_reason :: "response \<Rightarrow> bytes" where
  "effective_reason resp = (if resp_reason resp = [] then status_text (resp_status resp) else resp_reason resp)"

definition write_message ::
  "(bytes \<Rightarrow> 'w \<Rightarrow> 'w \<times> io_err option) \<Rightarrow> response \<Rightarrow> 'w \<Rightarrow> 'w \<times> http_err option" where
  "write_message wr resp w =
     and_then (put wr (effective_version resp @ [sp] @ format_int (resp_status resp) @ [sp] @
        effective_reason resp @ crlf) w) (\<lambda>w.
     and_then (write_headers wr (resp_chunked resp) (resp_headers resp) w) (\<lambda>w.
     if \<not> status_allows_body (resp_status resp) then put wr crlf w
     else if resp_chunked resp then
       and_then (write_header_field wr (HeaderField ''Transfer-Encoding'' ''chunked'') w) (\<lambda>w.
       and_then (put wr crlf w) (\<lambda>w.
       write_chunked_body wr resp w))
     else
       and_then (write_header_field wr
          (HeaderField ''Content-Length'' (format_int (response_body_length resp))) w) (\<lambda>w.
       and_then (put wr crlf w) (\<lambda>w.
       write_fixed_body wr resp w))))"

definition write_response ::
  "(bytes \<Rightarrow> 'w \<Rightarrow> 'w \<times> io_err option) \<Rightarrow> response \<Rightarrow> 'w \<Rightarrow> 'w \<times> http_err option \<times> nat list" where
  "write_response wr resp w =
     (let ver = effective_version resp;
          code = resp_status resp;
          closed = (case resp_closer resp of None \<Rightarrow> [] | Some h \<Rightarrow> [h])
      in if ver \<noteq> ''HTTP/1.1'' \<and> ver \<noteq> ''HTTP/1.0'' then (w, Some ErrUnsupportedVersion, [])
      else if code < 100 \<or> 999 < code then (w, Some ErrInvalidStatusCode, [])
      else if resp_chunked resp \<and> ver \<noteq> ''HTTP/1.1'' then (w, Some ErrMalformedResponse, [])
      else if resp_reader resp \<noteq> None \<and> resp_length resp < 0 \<and> \<not> resp_chunked resp
        then (w, Some ErrMalformedResponse, [])
      else if contains_any (effective_reason resp) [cr, lf] then (w, Some ErrMalformedResponse, closed)
      else (case write_message wr resp w of (w', e) \<Rightarrow> (w', e, closed)))"

section \<open>Writing only appends, and a failing connection receives a prefix\<close>

text \<open>
  A run \<open>r\<close> on some writer follows the run \<open>b\<close> of the same operation on a byte buffer, with
  \<open>base\<close> what the writer had sent before: either both agree, or the writer failed and has
  sent a strict prefix of what the buffer got.
\<close>

definition follows :: "('w \<Rightarrow> bytes) \<Rightarrow> bytes \<Rightarrow> 'w \<times> http_err option \<Rightarrow> bytes \<times> http_err option \<Rightarrow> bool" where
  "follows sent base r b \<longleftrightarrow>
     (snd r = snd b \<and> sent (fst r) = base @ fst b) \<or>
     (\<exists>x q. snd r = Some (ErrIO x) \<and> strict_prefix q (fst b) \<and> sent (fst r) = base @ q)"

lemma followsI: "sent w = base @ u \<Longrightarrow> follows sent base (w, e) (u, e)"
  by (simp add: follows_def)

lemma put_buffer [simp]: "put buffer_write p u = (u @ p, None)"
  by (simp add: put_def buffer_write_def)

lemma and_then_simps [simp]:
  "and_then (w, None) k = k w" "and_then (w, Some e) k = (w, Some e)"
  by (simp_all add: and_then_def)

lemma and_then_appends:
  "prefix u (fst r) \<Longrightarrow> (\<And>v. prefix v (fst (k v))) \<Longrightarrow> prefix u (fst (and_then r k))"
  by (cases r; cases "snd r") (auto intro: prefix_order.trans)

lemma header_field_appends: "prefix u (fst (write_header_field buffer_write h u))"
  by (simp add: write_header_field_def)

lemma headers_appends: "prefix u (fst (write_headers buffer_write c hs u))"
  by (induction hs arbitrary: u) (auto intro!: and_then_appends header_field_appends)

lemma chunk_appends: "prefix u (fst (write_chunk buffer_write b u))"
  by (simp add: write_chunk_def)

lemma chunked_reader_appends: "prefix u (fst (write_chunked_reader buffer_write src u))"
proof (induction "buffer_write" src u rule: write_chunked_reader.induct)
  case (1 src u)
  then show ?case
    by (subst write_chunked_reader.simps)
       (auto split: prod.split option.split intro!: and_then_appends chunk_appends)
qed

lemma copy_n_appends: "prefix u (fst (copy_n buffer_write src n u))"
proof (induction "length (src_bytes src)" arbitrary: src n u rule: less_induct)
  case less
  obtain got e src' where r: "src_read (nat (min n (32 * 1024))) src = (got, e, src')" by (metis prod_cases3)
  show ?case
  proof (cases "n \<le> 0")
    case True
    then show ?thesis by (simp add: copy_n.simps[of buffer_write src n])
  next
    case False
    have rec: "prefix t (fst (copy_n buffer_write src' j t))" if "e = None" for t j
      using less.hyps src_read_decreases[of _ src got src'] r that False by fastforce
    show ?thesis
      unfolding copy_n.simps[of buffer_write src n] r prod.case if_not_P[OF False]
      by (intro and_then_appends) (auto intro: rec split: option.split)
  qed
qed

lemma chunked_body_appends: "prefix u (fst (write_chunked_body buffer_write resp u))"
  by (auto simp: write_chunked_body_def split: option.split
      intro!: and_then_appends chunked_reader_appends chunk_appends)

lemma fixed_body_appends: "prefix u (fst (write_fixed_body buffer_write resp u))"
  by (auto simp: write_fixed_body_def split: option.split intro!: copy_n_appends)

lemma put_appends: "prefix u (fst (put buffer_write p u))"
  by simp

lemmas appends = put_appends and_then_appends header_field_appends headers_appends chunk_appends
  chunked_reader_appends copy_n_appends chunked_body_appends fixed_body_appends

context io_writer
begin

lemma put_follows:
  "sent w = base @ u \<Longrightarrow> follows sent base (put wr p w) (put buffer_write p u)"
proof -
  assume s: "sent w = base @ u"
  obtain w' e where w: "wr p w = (w', e)" by fastforce
  show ?thesis
  proof (cases e)
    case None
    with w s write_all[of p w w'] show ?thesis by (simp add: put_def[of wr] follows_def)
  next
    case (Some x)
    with w s write_fail[of p w w' x] obtain q where "strict_prefix q p" "sent w' = base @ u @ q" by auto
    with w Some show ?thesis
      by (auto simp: put_def[of wr] follows_def strict_prefix_def)
  qed
qed

lemma and_then_follows:
  assumes "follows sent base r b"
    and "\<And>w u. sent w = base @ u \<Longrightarrow> follows sent base (k w) (kb u)"
    and "\<And>u. prefix u (fst (kb u))"
  shows "follows sent base (and_then r k) (and_then b kb)"
proof -
  obtain w e where r: "r = (w, e)" by fastforce
  obtain u eb where b: "b = (u, eb)" by fastforce
  from assms(1) consider (same) "e = eb" "sent w = base @ u"
    | (fail) x q where "e = Some (ErrIO x)" "strict_prefix q u" "sent w = base @ q"
    by (auto simp: follows_def r b)
  then show ?thesis
  proof cases
    case same
    with r b assms(2) show ?thesis by (cases eb) (auto simp: follows_def)
  next
    case fail
    have "prefix u (fst (and_then b kb))"
      using b assms(3) by (cases eb) auto
    then have "strict_prefix q (fst (and_then b kb))"
      using fail(2) by (rule prefix_order.less_le_trans[rotated])
    with fail r show ?thesis by (auto simp: follows_def)
  qed
qed

lemma header_field_follows:
  "sent w = base @ u \<Longrightarrow> follows sent base (write_header_field wr h w) (write_header_field buffer_write h u)"
  unfolding write_header_field_def by (auto intro: followsI put_follows simp del: put_buffer)

lemma headers_follow:
  "sent w = base @ u \<Longrightarrow> follows sent base (write_headers wr c hs w) (write_headers buffer_write c hs u)"
  by (induction hs arbitrary: w u)
     (auto intro!: followsI and_then_follows header_field_follows headers_appends)

lemma chunk_follows:
  "sent w = base @ u \<Longrightarrow> follows sent base (write_chunk wr b w) (write_chunk buffer_write b u)"
  unfolding write_chunk_def
  by (intro and_then_follows put_follows) (auto intro!: appends)

lemma chunked_reader_follows:
  "sent w = base @ u \<Longrightarrow>
   follows sent base (write_chunked_reader wr src w) (write_chunked_reader buffer_write src u)"
proof (induction "length (src_bytes src)" arbitrary: src w u rule: less_induct)
  case less
  obtain got e src' where r: "src_read (32 * 1024) src = (got, e, src')" by (metis prod_cases3)
  have rec: "follows sent base (write_chunked_reader wr src' v) (write_chunked_reader buffer_write src' t)"
    if "e = None" "sent v = base @ t" for v t
    using less.hyps[OF _ that(2)] src_read_decreases[of _ src got src'] r that(1) by fastforce
  show ?case
    unfolding write_chunked_reader.simps[of wr src] write_chunked_reader.simps[of buffer_write src] r prod.case
    using less.prems
    by (intro and_then_follows)
       (auto intro!: chunk_follows followsI rec appends split: option.split)
qed

lemma copy_n_follows:
  "sent w = base @ u \<Longrightarrow> follows sent base (copy_n wr src n w) (copy_n buffer_write src n u)"
proof (induction "length (src_bytes src)" arbitrary: src n w u rule: less_induct)
  case less
  obtain got e src' where r: "src_read (nat (min n (32 * 1024))) src = (got, e, src')" by (metis prod_cases3)
  show ?case
  proof (cases "n \<le> 0")
    case True
    with less.prems show ?thesis
      by (simp add: copy_n.simps[of wr src n] copy_n.simps[of buffer_write src n] followsI)
  next
    case False
    have rec: "follows sent base (copy_n wr src' j v) (copy_n buffer_write src' j t)"
      if "e = None" "sent v = base @ t" for v t j
      using less.hyps[OF _ that(2)] src_read_decreases[of _ src got src'] r that(1) False by fastforce
    show ?thesis
      unfolding copy_n.simps[of wr src n] copy_n.simps[of buffer_write src n] r prod.case if_not_P[OF False]
      using less.prems
      by (intro and_then_follows)
         (auto intro!: put_follows followsI rec appends simp del: put_buffer split: option.split)
  qed
qed

lemma body_follows:
  "sent w = base @ u \<Longrightarrow> follows sent base (write_fixed_body wr resp w) (write_fixed_body buffer_write resp u)"
  "sent w = base @ u \<Longrightarrow> follows sent base (write_chunked_body wr resp w) (write_chunked_body buffer_write resp u)"
  unfolding write_fixed_body_def write_chunked_body_def
  by (auto intro!: and_then_follows copy_n_follows chunked_reader_follows chunk_follows put_follows followsI
      simp del: put_buffer split: option.split) simp_all

lemma message_follows:
  assumes "sent w = base @ u"
  shows "follows sent base (write_message wr resp w) (write_message buffer_write resp u)"
  unfolding write_message_def
proof (rule and_then_follows[OF put_follows[OF assms]], rule and_then_follows[OF headers_follow], assumption)
  note steps = and_then_follows header_field_follows body_follows put_follows
  show "follows sent base
      (if \<not> status_allows_body (resp_status resp) then put wr crlf w
       else if resp_chunked resp then
         and_then (write_header_field wr (HeaderField ''Transfer-Encoding'' ''chunked'') w) (\<lambda>w.
         and_then (put wr crlf w) (\<lambda>w. write_chunked_body wr resp w))
       else
         and_then (write_header_field wr
            (HeaderField ''Content-Length'' (format_int (response_body_length resp))) w) (\<lambda>w.
         and_then (put wr crlf w) (\<lambda>w. write_fixed_body wr resp w)))
      (if \<not> status_allows_body (resp_status resp) then put buffer_write crlf u
       else if resp_chunked resp then
         and_then (write_header_field buffer_write (HeaderField ''Transfer-Encoding'' ''chunked'') u) (\<lambda>w.
         and_then (put buffer_write crlf w) (\<lambda>w. write_chunked_body buffer_write resp w))
       else
         and_then (write_header_field buffer_write
            (HeaderField ''Content-Length'' (format_int (response_body_length resp))) u) (\<lambda>w.
         and_then (put buffer_write crlf w) (\<lambda>w. write_fixed_body buffer_write resp w)))"
    if "sent w = base @ u" for w u
    using that by (auto intro!: steps appends simp del: put_buffer)
qed (auto intro!: appends simp del: put_buffer)

text \<open>
  On any writer a response comes out as on a byte buffer, or, when the writer fails, as a
  strict prefix of that.
\<close>

lemma response_follows:
  assumes "write_response wr resp w = (w', err, closed)"
    and "write_response buffer_write resp [] = (out, err0, closed0)"
  shows "closed = closed0 \<and> follows sent (sent w) (w', err) (out, err0)"
proof -
  have start: "sent w = sent w @ []" by simp
  from message_follows[OF start, of resp] assms show ?thesis
    by (auto simp: write_response_def Let_def followsI split: if_splits prod.splits)
qed

end

section \<open>What is written\<close>

text \<open>Hexadecimal sizes and chunked bodies, read back as RFC 9112 describes them.\<close>

definition hex_val :: "char \<Rightarrow> nat option" where
  "hex_val c =
     (let n = of_char c :: nat
      in if 48 \<le> n \<and> n \<le> 57 then Some (n - 48)
         else if 97 \<le> n \<and> n \<le> 102 then Some (n - 87)
         else if 65 \<le> n \<and> n \<le> 70 then Some (n - 55) else None)"

definition parse_hex :: "bytes \<Rightarrow> nat option" where
  "parse_hex s =
     (if s = [] then None
      else foldl (\<lambda>a c. case (a, hex_val c) of (Some x, Some d) \<Rightarrow> Some (16 * x + d) | _ \<Rightarrow> None) (Some 0) s)"

function decode_chunked :: "bytes \<Rightarrow> (bytes \<times> bytes) option" where
  "decode_chunked p =
     (let l = takeWhile (\<lambda>c. c \<noteq> cr) p; rest = drop (length l) p
      in if \<not> prefix crlf rest then None
         else (case parse_hex l of
                 None \<Rightarrow> None
               | Some n \<Rightarrow>
                   let data = drop 2 rest
                   in if length data < n \<or> \<not> prefix crlf (drop n data) then None
                      else if n = 0 then Some ([], drop 2 data)
                      else map_option (\<lambda>(b, q). (take n data @ b, q)) (decode_chunked (drop (n + 2) data))))"
  by pat_completeness auto
termination
  by (relation "measure length") (auto dest: prefix_length_le)

declare decode_chunked.simps [simp del]

lemma hex_digit_val [simp]: "d < 16 \<Longrightarrow> hex_val (hex_digit d) = Some d"
  by (auto simp: hex_val_def hex_digit_def Let_def)

lemma nat_hex_ne [simp]: "nat_hex n \<noteq> []"
  by (subst nat_hex.simps) simp

lemma of_char_hex_digit: "d < 16 \<Longrightarrow> of_char (hex_digit d) = (if d < 10 then 48 + d else 87 + d :: nat)"
  by (simp add: hex_digit_def)

lemma nat_hex_no_cr: "cr \<notin> set (nat_hex n)"
proof (induction n rule: nat_hex.induct)
  case (1 n)
  have d: "cr \<noteq> hex_digit d" if "d < 16" for d
  proof
    assume "cr = hex_digit d"
    then have "(of_char cr :: nat) = of_char (hex_digit d)" by (simp only:)
    with of_char_hex_digit[OF that] show False by (simp split: if_splits)
  qed
  show ?case
  proof (cases "n < 16")
    case True
    with d[of n] show ?thesis by (subst nat_hex.simps) simp
  next
    case False
    with 1 d[of "n mod 16"] show ?thesis by (subst nat_hex.simps) simp
  qed
qed

lemma parse_hex_snoc:
  "s \<noteq> [] \<Longrightarrow> parse_hex (s @ [c]) =
     (case (parse_hex s, hex_val c) of (Some x, Some d) \<Rightarrow> Some (16 * x + d) | _ \<Rightarrow> None)"
  by (simp add: parse_hex_def)

lemma parse_nat_hex [simp]: "parse_hex (nat_hex n) = Some n"
proof (induction n rule: nat_hex.induct)
  case (1 n)
  show ?case
  proof (cases "n < 16")
    case True
    then show ?thesis by (subst nat_hex.simps) (simp add: parse_hex_def)
  next
    case False
    with 1 have "parse_hex (nat_hex (n div 16)) = Some (n div 16)" by simp
    with False show ?thesis by (subst nat_hex.simps) (simp add: parse_hex_snoc)
  qed
qed

definition chunk_bytes :: "bytes \<Rightarrow> bytes" where
  "chunk_bytes c = nat_hex (length c) @ crlf @ c @ crlf"

lemma decode_one:
  "decode_chunked (chunk_bytes c @ p) =
     (if c = [] then Some ([], p) else map_option (\<lambda>(b, q). (c @ b, q)) (decode_chunked p))"
proof -
  have "takeWhile (\<lambda>x. x \<noteq> cr) (chunk_bytes c @ p) = nat_hex (length c)"
    using takeWhile_neq_append[OF nat_hex_no_cr, of "length c" "lf # c @ crlf @ p"]
    by (simp add: chunk_bytes_def)
  then show ?thesis
    by (subst decode_chunked.simps) (simp add: chunk_bytes_def Let_def)
qed

lemma decode_chunks:
  "\<forall>c\<in>set cs. c \<noteq> [] \<Longrightarrow>
   decode_chunked (concat (map chunk_bytes cs) @ ''0'' @ crlf @ crlf @ q) = Some (concat cs, q)"
proof (induction cs)
  case Nil
  have "nat_hex 0 = ''0''" by code_simp
  with decode_one[of "[]" q] show ?case by (simp add: chunk_bytes_def)
next
  case (Cons c cs)
  then show ?case
    using decode_one[of c "concat (map chunk_bytes cs) @ ''0'' @ crlf @ crlf @ q"] by simp
qed

text \<open>What the body writers produce on a byte buffer.\<close>

lemma write_chunk_buffer [simp]: "write_chunk buffer_write c u = (u @ chunk_bytes c, None)"
  by (simp add: write_chunk_def chunk_bytes_def)

lemma chunked_reader_buffer:
  "\<exists>cs. write_chunked_reader buffer_write src u =
       (u @ concat (map chunk_bytes cs), if src_err src = IoEOF then None else Some (ErrIO (src_err src))) \<and>
     concat cs = src_bytes src \<and> (\<forall>c\<in>set cs. c \<noteq> [])"
proof (induction "length (src_bytes src)" arbitrary: src u rule: less_induct)
  case less
  note step = write_chunked_reader.simps[of buffer_write src u]
  show ?case
  proof (cases "src_bytes src = []")
    case True
    then show ?thesis by (intro exI[of _ "[]"]) (simp add: step src_read_empty)
  next
    case False
    then obtain k s' where k: "0 < k" "k \<le> length (src_bytes src)"
      and r: "src_read (32 * 1024) src = (take k (src_bytes src),
         if src_eager src \<and> k = length (src_bytes src) then Some (src_err src) else None, s')"
      and s': "src_bytes s' = drop k (src_bytes src)" "src_err s' = src_err src"
      using src_read_some[of src "32 * 1024"] by auto
    show ?thesis
    proof (cases "src_eager src \<and> k = length (src_bytes src)")
      case True
      with False r k show ?thesis
        by (intro exI[of _ "[src_bytes src]"]) (simp add: step)
    next
      case no: False
      have "length (src_bytes s') < length (src_bytes src)" using k s' by simp
      from less.hyps[OF this, of "u @ chunk_bytes (take k (src_bytes src))"] obtain cs where
        "write_chunked_reader buffer_write s' (u @ chunk_bytes (take k (src_bytes src))) =
           ((u @ chunk_bytes (take k (src_bytes src))) @ concat (map chunk_bytes cs),
            if src_err src = IoEOF then None else Some (ErrIO (src_err src)))"
        "concat cs = drop k (src_bytes src)" "\<forall>c\<in>set cs. c \<noteq> []"
        using s' by auto
      with no r k False show ?thesis
        by (intro exI[of _ "take k (src_bytes src) # cs"]) (auto simp: step)
    qed
  qed
qed

lemma copy_n_buffer:
  "copy_n buffer_write src n u =
     (u @ take (nat n) (src_bytes src),
      if n \<le> int (length (src_bytes src)) then None else Some (ErrIO (src_err src)))"
proof (induction "length (src_bytes src)" arbitrary: src n u rule: less_induct)
  case less
  note step = copy_n.simps[of buffer_write src n u]
  show ?case
  proof (cases "n \<le> 0 \<or> src_bytes src = []")
    case True
    then show ?thesis by (auto simp: step src_read_empty)
  next
    case False
    let ?m = "nat (min n (32 * 1024))"
    from False have m: "0 < ?m" "int ?m \<le> n" by auto
    from False obtain k s' where k: "0 < k" "k \<le> ?m" "k \<le> length (src_bytes src)"
      and r: "src_read ?m src = (take k (src_bytes src),
         if src_eager src \<and> k = length (src_bytes src) then Some (src_err src) else None, s')"
      and s': "src_bytes s' = drop k (src_bytes src)" "src_err s' = src_err src"
      using src_read_some[of src ?m] m(1) by auto
    have kn: "int k \<le> n" using k(2) m(2) by linarith
    show ?thesis
    proof (cases "src_eager src \<and> k = length (src_bytes src)")
      case True
      with False r k kn show ?thesis by (auto simp: step)
    next
      case no: False
      have "length (src_bytes s') < length (src_bytes src)" using k s' by simp
      note IH = less.hyps[OF this, of "n - int k" "u @ take k (src_bytes src)"]
      have nk: "nat n = k + nat (n - int k)" using kn by simp
      have "copy_n buffer_write src n u = copy_n buffer_write s' (n - int k) (u @ take k (src_bytes src))"
        using no r k False by (auto simp: step)
      also have "\<dots> = (u @ take (nat n) (src_bytes src),
          if n \<le> int (length (src_bytes src)) then None else Some (ErrIO (src_err src)))"
        unfolding IH s' nk take_add using k(3) by auto
      finally show ?thesis .
    qed
  qed
qed

section \<open>The layout of a written response\<close>

definition sendable_field :: "header_field \<Rightarrow> bool" where
  "sendable_field h \<longleftrightarrow> hname h \<noteq> [] \<and> \<not> contains_any (hname h) [sp, tab, cr, lf] \<and>
     \<not> contains_any (hvalue h) [cr, lf]"

definition kept_headers :: "response \<Rightarrow> header_field list" where
  "kept_headers resp = filter (\<lambda>h. \<not> skipped_header (resp_chunked resp) h) (resp_headers resp)"

definition framing_headers :: "response \<Rightarrow> header_field list" where
  "framing_headers resp =
     (if \<not> status_allows_body (resp_status resp) then []
      else if resp_chunked resp then [HeaderField ''Transfer-Encoding'' ''chunked'']
      else [HeaderField ''Content-Length'' (format_int (response_body_length resp))])"

definition status_line :: "response \<Rightarrow> bytes" where
  "status_line resp = effective_version resp @ [sp] @ format_int (resp_status resp) @ [sp] @ effective_reason resp"

text \<open>The bytes the response is about: all of a stream, its first \<open>BodyLength\<close> bytes, or the body.\<close>

definition response_content :: "response \<Rightarrow> bytes" where
  "response_content resp =
     (case resp_reader resp of
        Some r \<Rightarrow> if resp_chunked resp then src_bytes (stream_src r)
                  else take (nat (resp_length resp)) (src_bytes (stream_src r))
      | None \<Rightarrow> resp_body resp)"

text \<open>The checks of \<open>WriteResponse\<close> that precede any output, and those of the header and body writers.\<close>

definition passes_checks :: "response \<Rightarrow> bool" where
  "passes_checks resp \<longleftrightarrow> effective_version resp \<in> {''HTTP/1.1'', ''HTTP/1.0''} \<and>
     100 \<le> resp_status resp \<and> resp_status resp \<le> 999 \<and>
     (resp_chunked resp \<longrightarrow> effective_version resp = ''HTTP/1.1'') \<and>
     (resp_reader resp \<noteq> None \<and> resp_length resp < 0 \<longrightarrow> resp_chunked resp) \<and>
     \<not> contains_any (effective_reason resp) [cr, lf]"

definition sendable :: "response \<Rightarrow> bool" where
  "sendable resp \<longleftrightarrow> passes_checks resp \<and> (\<forall>h\<in>set (kept_headers resp). sendable_field h) \<and>
     (status_allows_body (resp_status resp) \<longrightarrow>
       (case resp_reader resp of None \<Rightarrow> True
        | Some r \<Rightarrow> if resp_chunked resp then src_err (stream_src r) = IoEOF
                    else resp_length resp \<le> int (length (src_bytes (stream_src r)))))"

text \<open>The body part delimits exactly the content, whatever follows it on the connection.\<close>

definition payload_framed :: "response \<Rightarrow> bytes \<Rightarrow> bool" where
  "payload_framed resp payload \<longleftrightarrow>
     (if \<not> status_allows_body (resp_status resp) then payload = []
      else if resp_chunked resp then (\<forall>q. decode_chunked (payload @ q) = Some (response_content resp, q))
      else payload = response_content resp \<and> int (length payload) = response_body_length resp)"

definition head_bytes :: "response \<Rightarrow> bytes" where
  "head_bytes resp = status_line resp @ crlf @
     lines_bytes (map render_field (kept_headers resp @ framing_headers resp)) @ crlf"

lemma lines_bytes_append [simp]: "lines_bytes (ls @ ks) = lines_bytes ls @ lines_bytes ks"
  by (simp add: lines_bytes_def)

lemma header_field_buffer:
  "write_header_field buffer_write h u =
     (if sendable_field h then (u @ render_field h @ crlf, None) else (u, Some ErrMalformedResponse))"
  by (simp add: write_header_field_def sendable_field_def render_field_def)

lemma headers_buffer:
  "if \<forall>h\<in>set (filter (\<lambda>h. \<not> skipped_header c h) hs). sendable_field h
   then write_headers buffer_write c hs u =
     (u @ lines_bytes (map render_field (filter (\<lambda>h. \<not> skipped_header c h) hs)), None)
   else snd (write_headers buffer_write c hs u) = Some ErrMalformedResponse"
proof (induction hs arbitrary: u)
  case (Cons h hs)
  from Cons.IH[of u] Cons.IH[of "u @ render_field h @ crlf"] show ?case
    by (simp add: header_field_buffer split: if_splits)
qed simp

lemma framing_sendable: "\<forall>h\<in>set (framing_headers resp). sendable_field h"
  by (auto simp: framing_headers_def sendable_field_def format_int_no_ctl)

lemma chunked_body_buffer:
  "\<exists>p. write_chunked_body buffer_write resp u =
      (u @ p, case resp_reader resp of None \<Rightarrow> None
       | Some r \<Rightarrow> if src_err (stream_src r) = IoEOF then None else Some (ErrIO (src_err (stream_src r)))) \<and>
    ((case resp_reader resp of None \<Rightarrow> True | Some r \<Rightarrow> src_err (stream_src r) = IoEOF) \<longrightarrow>
       (\<forall>q. decode_chunked (p @ q) = Some (case resp_reader resp of None \<Rightarrow> resp_body resp
            | Some r \<Rightarrow> src_bytes (stream_src r), q)))"
proof (cases "resp_reader resp")
  case None
  let ?cs = "if resp_body resp = [] then [] else [resp_body resp]"
  have "write_chunked_body buffer_write resp u =
      (u @ concat (map chunk_bytes ?cs) @ ''0'' @ crlf @ crlf, None)"
    using None by (simp add: write_chunked_body_def)
  moreover have cs: "\<forall>c\<in>set ?cs. c \<noteq> []" "concat ?cs = resp_body resp" by simp_all
  have "decode_chunked (concat (map chunk_bytes ?cs) @ ''0'' @ crlf @ crlf @ q) = Some (resp_body resp, q)" for q
    using decode_chunks[OF cs(1), of q] unfolding cs(2) .
  ultimately show ?thesis using None
    by (intro exI[of _ "concat (map chunk_bytes ?cs) @ ''0'' @ crlf @ crlf"])
       (simp only: append_assoc option.case simp_thms)
next
  case (Some r)
  from chunked_reader_buffer[of "stream_src r" u] obtain cs where
    "write_chunked_reader buffer_write (stream_src r) u =
       (u @ concat (map chunk_bytes cs),
        if src_err (stream_src r) = IoEOF then None else Some (ErrIO (src_err (stream_src r))))"
    and cs: "concat cs = src_bytes (stream_src r)" "\<forall>c\<in>set cs. c \<noteq> []" by blast
  then show ?thesis
    using Some decode_chunks[OF cs(2)]
    by (auto simp: write_chunked_body_def split: if_splits)
qed

lemma fixed_body_buffer:
  "resp_reader resp \<noteq> None \<longrightarrow> 0 \<le> resp_length resp \<Longrightarrow>
   write_fixed_body buffer_write resp u =
     (u @ (case resp_reader resp of None \<Rightarrow> resp_body resp
           | Some r \<Rightarrow> take (nat (resp_length resp)) (src_bytes (stream_src r))),
      case resp_reader resp of None \<Rightarrow> None
      | Some r \<Rightarrow> if resp_length resp \<le> int (length (src_bytes (stream_src r))) then None
                  else Some (ErrIO (src_err (stream_src r))))"
  by (auto simp: write_fixed_body_def copy_n_buffer split: option.split)

text \<open>
  On a byte buffer a sendable response is its head followed by a payload that is framed by
  the head; any other response that passes the first checks ends in an error.
\<close>

lemma message_bad_header:
  assumes "\<not> (\<forall>h\<in>set (kept_headers resp). sendable_field h)"
  shows "snd (write_message buffer_write resp []) = Some ErrMalformedResponse"
proof -
  have "\<not> (\<forall>h\<in>set (filter (\<lambda>h. \<not> skipped_header (resp_chunked resp) h) (resp_headers resp)). sendable_field h)"
    using assms unfolding kept_headers_def .
  then have bad: "snd (write_headers buffer_write (resp_chunked resp) (resp_headers resp) u) = Some ErrMalformedResponse" for u
    using headers_buffer[of "resp_chunked resp" "resp_headers resp" u] by (simp only: if_False simp_thms)
  show ?thesis
    unfolding write_message_def put_buffer and_then_simps
    using bad[of "[] @ effective_version resp @ [sp] @ format_int (resp_status resp) @ [sp] @ effective_reason resp @ crlf"]
    by (auto simp: and_then_def split: prod.split)
qed

lemma message_head:
  assumes "\<forall>h\<in>set (kept_headers resp). sendable_field h"
  shows "write_message buffer_write resp [] =
     (if \<not> status_allows_body (resp_status resp)
      then (status_line resp @ crlf @ lines_bytes (map render_field (kept_headers resp)) @ crlf, None)
      else if resp_chunked resp then write_chunked_body buffer_write resp (head_bytes resp)
      else write_fixed_body buffer_write resp (head_bytes resp))"
proof -
  let ?head = "status_line resp @ crlf @ lines_bytes (map render_field (kept_headers resp))"
  have "\<forall>h\<in>set (filter (\<lambda>h. \<not> skipped_header (resp_chunked resp) h) (resp_headers resp)). sendable_field h"
    using assms by (simp only: kept_headers_def)
  then have hd: "write_headers buffer_write (resp_chunked resp) (resp_headers resp) (status_line resp @ crlf) = (?head, None)"
    using headers_buffer[of "resp_chunked resp" "resp_headers resp" "status_line resp @ crlf"]
    unfolding kept_headers_def by (simp only: if_True append_assoc)
  show ?thesis
    unfolding write_message_def put_buffer and_then_simps
    using hd framing_sendable[of resp]
    by (simp add: status_line_def header_field_buffer head_bytes_def framing_headers_def split: if_splits)
qed

lemma message_buffer:
  assumes "passes_checks resp"
  shows "if sendable resp
    then \<exists>p. write_message buffer_write resp [] = (head_bytes resp @ p, None) \<and> payload_framed resp p
    else snd (write_message buffer_write resp []) \<noteq> None"
proof (cases "\<forall>h\<in>set (kept_headers resp). sendable_field h")
  case False
  with message_bad_header[OF False] show ?thesis by (auto simp: sendable_def)
next
  case True
  note head = message_head[OF True]
  consider (none) "\<not> status_allows_body (resp_status resp)"
    | (chunked) "status_allows_body (resp_status resp)" "resp_chunked resp"
    | (fixed) "status_allows_body (resp_status resp)" "\<not> resp_chunked resp" by blast
  then show ?thesis
  proof cases
    case none
    with assms True head show ?thesis
      by (simp add: sendable_def payload_framed_def head_bytes_def framing_headers_def)
  next
    case chunked
    with chunked_body_buffer[of resp "head_bytes resp"] assms True head show ?thesis
      by (auto simp: sendable_def payload_framed_def response_content_def split: option.splits if_splits)
  next
    case fixed
    with assms have nn: "resp_reader resp \<noteq> None \<longrightarrow> 0 \<le> resp_length resp"
      by (auto simp: passes_checks_def)
    from nn fixed_body_buffer[OF nn, of "head_bytes resp"] fixed assms True head show ?thesis
      by (auto simp: sendable_def payload_framed_def response_content_def response_body_length_def
          split: option.splits if_splits)
  qed
qed

lemma write_response_checked:
  "passes_checks resp \<Longrightarrow> write_response wr resp w =
     (case write_message wr resp w of (w', e) \<Rightarrow> (w', e, case resp_closer resp of None \<Rightarrow> [] | Some h \<Rightarrow> [h]))"
  by (auto simp: write_response_def passes_checks_def Let_def)

lemma write_response_unchecked:
  "\<not> passes_checks resp \<Longrightarrow> \<exists>e cl. write_response wr resp w = (w, Some e, cl)"
  by (auto simp: write_response_def passes_checks_def Let_def)

lemma follows_success:
  "follows sent base (w, None) b \<Longrightarrow> snd b = None \<and> sent w = base @ fst b"
  by (simp add: follows_def)

lemma write_response_conn:
  assumes "write_response sink_write resp s = (s', err, cl)" "passes_checks resp"
  shows "follows sink_sent (sink_sent s) (s', err) (write_message buffer_write resp [])"
  using conn.message_follows[of s "sink_sent s" "[]" resp] assms
  by (auto simp: write_response_checked split: prod.splits)

text \<open>
  C5. Responses on a real connection, which may fail after any number of bytes: if
  \<open>WriteResponse\<close> returns no error the peer has got exactly one well-framed message (the
  head, then a payload that the head delimits whatever follows it on the connection), and a
  sendable response either gets through or leaves a strict prefix of that message.
\<close>

theorem write_response_framed:
  assumes "write_response sink_write resp s = (s', err, cl)"
  shows "(err = None \<longrightarrow> sendable resp \<and>
      (\<exists>p. sink_sent s' = sink_sent s @ head_bytes resp @ p \<and> payload_framed resp p)) \<and>
    (sendable resp \<and> err \<noteq> None \<longrightarrow>
      (\<exists>p q. payload_framed resp p \<and> strict_prefix q (head_bytes resp @ p) \<and>
         sink_sent s' = sink_sent s @ q))"
proof (cases "passes_checks resp")
  case False
  with assms write_response_unchecked[OF False, of sink_write s] show ?thesis
    by (auto simp: sendable_def)
next
  case True
  note f = write_response_conn[OF assms True]
  show ?thesis
  proof (cases "sendable resp")
    case True
    with message_buffer[OF \<open>passes_checks resp\<close>] obtain p where
      p: "write_message buffer_write resp [] = (head_bytes resp @ p, None)" "payload_framed resp p" by auto
    with f True show ?thesis by (auto simp: follows_def)
  next
    case no: False
    with message_buffer[OF True] have "snd (write_message buffer_write resp []) \<noteq> None" by simp
    with f no show ?thesis by (auto simp: follows_def)
  qed
qed

theorem write_response_framed_witness:
  "\<exists>s' cl p. write_response sink_write (zero_response\<lparr>resp_status := 200, resp_body := ''hi''\<rparr>)
      \<lparr>sink_sent = [], sink_room = None\<rparr> = (s', None, cl) \<and>
    sink_sent s' = head_bytes (zero_response\<lparr>resp_status := 200, resp_body := ''hi''\<rparr>) @ p \<and> p = ''hi''"
proof -
  let ?r = "zero_response\<lparr>resp_status := 200, resp_body := ''hi''\<rparr>"
  let ?s = "\<lparr>sink_sent = [], sink_room = None\<rparr>"
  obtain s' err cl where w: "write_response sink_write ?r ?s = (s', err, cl)" by (metis prod_cases3)
  have "err = None"
    using w by (simp add: write_response_def write_message_def zero_response_def effective_version_def
        effective_reason_def put_def sink_write_def and_then_def status_allows_body_def status_text_def
        write_header_field_def format_int_no_ctl write_fixed_body_def response_body_length_def)
  with write_response_framed[OF w] w show ?thesis
    by (auto simp: payload_framed_def response_content_def status_allows_body_def zero_response_def)
qed

text \<open>
  Reading the head back with the parser of the same code base: the status line, then exactly
  the kept header fields and the framing field, in order, then the payload. No header value
  can add a field or end the head early.
\<close>

definition read_back :: "header_field \<Rightarrow> header_field" where
  "read_back h = h\<lparr>hvalue := trim (hvalue h) [sp, tab]\<rparr>"

lemma sendable_header_line:
  assumes "sendable_field h" "CHR '':'' \<notin> set (hname h)"
  shows "header_line 0 (render_field h) (read_back h)"
proof -
  have "parse_header_field (render_field h) = Inr (read_back h)"
    unfolding parse_header_field_iff
    by (intro exI[of _ "sp # hvalue h"])
       (use assms in \<open>auto simp: render_field_def read_back_def sendable_field_def valid_name_def
          contains_any_set trim_sp_Cons\<close>)
  moreover have "lf \<notin> set (render_field h)"
    using assms by (auto simp: render_field_def sendable_field_def contains_any_set)
  ultimately show ?thesis by (simp add: header_line_def line_fits_def)
qed

lemma status_line_one_line: "passes_checks resp \<Longrightarrow> lf \<notin> set (status_line resp)"
  using format_int_no_ctl[of "[lf]" "resp_status resp"]
  by (auto simp: passes_checks_def status_line_def contains_any_set)




end
