(* ===== verification/Mime.thy ===== *)
theory Mime
  imports Response
begin

text \<open>
  Content types (http1/mime.go) and the plain-text error responses of http1/response.go.
\<close>

section \<open>The code\<close>

definition default_content_type :: bytes where
  "default_content_type = ''application/octet-stream''"

definition content_types_by_extension :: "(bytes \<times> bytes) list" where
  "content_types_by_extension =
     [(''.css'', ''text/css; charset=utf-8''),
      (''.gif'', ''image/gif''),
      (''.html'', ''text/html; charset=utf-8''),
      (''.jpeg'', ''image/jpeg''),
      (''.jpg'', ''image/jpeg''),
      (''.js'', ''text/javascript; charset=utf-8''),
      (''.json'', ''application/json''),
      (''.png'', ''image/png''),
      (''.svg'', ''image/svg+xml''),
      (''.txt'', ''text/plain; charset=utf-8''),
      (''.wasm'', ''application/wasm''),
      (''.webp'', ''image/webp''),
      (''.xml'', ''application/xml'')]"

text \<open>\<open>filepath.Ext\<close>: from the last dot of the last path element, the empty string without one.\<close>

definition file_ext :: "bytes \<Rightarrow> bytes" where
  "file_ext path =
     (let base = takeWhile (\<lambda>c. c \<noteq> CHR ''/'') (rev path)
      in if CHR ''.'' \<in> set base then CHR ''.'' # rev (takeWhile (\<lambda>c. c \<noteq> CHR ''.'') base) else [])"

definition content_type_by_path :: "bytes \<Rightarrow> bytes" where
  "content_type_by_path path =
     (case map_of content_types_by_extension (to_lower (file_ext path)) of
        Some ct \<Rightarrow> ct | None \<Rightarrow> default_content_type)"

fun with_content_type_loop ::
  "bytes \<Rightarrow> header_field list \<Rightarrow> header_field list \<Rightarrow> bool \<Rightarrow> header_field list \<times> bool" where
  "with_content_type_loop ct [] acc replaced = (acc, replaced)"
| "with_content_type_loop ct (h # hs) acc replaced =
     (if equal_fold (hname h) ''Content-Type''
      then with_content_type_loop ct hs
             (if replaced then acc else acc @ [HeaderField ''Content-Type'' ct]) True
      else with_content_type_loop ct hs (acc @ [h]) replaced)"

definition with_content_type :: "response \<Rightarrow> bytes \<Rightarrow> response" where
  "with_content_type resp contentType =
     (let ct = (if contentType = [] then default_content_type else contentType)
      in case with_content_type_loop ct (resp_headers resp) [] False of
           (hs, replaced) \<Rightarrow>
             resp\<lparr>resp_headers := (if replaced then hs else hs @ [HeaderField ''Content-Type'' ct])\<rparr>)"

definition with_content_type_for_path :: "response \<Rightarrow> bytes \<Rightarrow> response" where
  "with_content_type_for_path resp path = with_content_type resp (content_type_by_path path)"

definition error_response :: "int \<Rightarrow> bytes \<Rightarrow> response" where
  "error_response code message =
     (let m1 = (if message = [] then status_text code else message);
          m2 = (if has_suffix m1 [lf] then m1 else m1 @ [lf])
      in with_content_type (zero_response\<lparr>resp_status := code, resp_body := m2\<rparr>)
           ''text/plain; charset=utf-8'')"

section \<open>Lemmas\<close>

abbreviation is_content_type :: "header_field \<Rightarrow> bool" where
  "is_content_type h \<equiv> equal_fold (hname h) ''Content-Type''"

lemma content_type_loop_others:
  "filter (\<lambda>h. \<not> is_content_type h) (fst (with_content_type_loop ct hs acc rep)) =
   filter (\<lambda>h. \<not> is_content_type h) (acc @ hs)"
  by (induction ct hs acc rep rule: with_content_type_loop.induct) auto

lemma content_type_loop_types:
  "filter is_content_type (fst (with_content_type_loop ct hs acc rep)) =
     filter is_content_type acc @
       (if \<not> rep \<and> (\<exists>h\<in>set hs. is_content_type h) then [HeaderField ''Content-Type'' ct] else [])"
  by (induction ct hs acc rep rule: with_content_type_loop.induct) auto

lemma content_type_loop_flag:
  "snd (with_content_type_loop ct hs acc rep) \<longleftrightarrow> rep \<or> (\<exists>h\<in>set hs. is_content_type h)"
  by (induction ct hs acc rep rule: with_content_type_loop.induct) auto

text \<open>
  \<open>WithContentType\<close> leaves exactly one Content-Type field, with the requested value (the
  default for an empty one), keeps every other field in order, and changes nothing else of the
  response; doing it again with another value replaces the first.
\<close>

theorem with_content_type_single:
  "field_values (resp_headers (with_content_type resp ct)) ''Content-Type'' =
     [if ct = [] then default_content_type else ct] \<and>
   filter (\<lambda>h. \<not> is_content_type h) (resp_headers (with_content_type resp ct)) =
     filter (\<lambda>h. \<not> is_content_type h) (resp_headers resp) \<and>
   with_content_type resp ct = resp\<lparr>resp_headers := resp_headers (with_content_type resp ct)\<rparr>"
proof -
  let ?ct = "if ct = [] then default_content_type else ct"
  obtain hs rep where l: "with_content_type_loop ?ct (resp_headers resp) [] False = (hs, rep)" by fastforce
  have "rep \<longleftrightarrow> (\<exists>h\<in>set (resp_headers resp). is_content_type h)"
    and "filter is_content_type hs = (if rep then [HeaderField ''Content-Type'' ?ct] else [])"
    and "filter (\<lambda>h. \<not> is_content_type h) hs = filter (\<lambda>h. \<not> is_content_type h) (resp_headers resp)"
    using content_type_loop_flag[of ?ct "resp_headers resp" "[]" False]
      content_type_loop_types[of ?ct "resp_headers resp" "[]" False]
      content_type_loop_others[of ?ct "resp_headers resp" "[]" False] by (simp_all add: l)
  then show ?thesis
    using l by (auto simp: with_content_type_def field_values_def Let_def)
qed

lemma error_response_parts:
  "resp_status (error_response code m) = code"
  "resp_headers (error_response code m) = [HeaderField ''Content-Type'' ''text/plain; charset=utf-8'']"
  "resp_reader (error_response code m) = None"
  "resp_closer (error_response code m) = None"
  "resp_chunked (error_response code m) = False"
  "resp_version (error_response code m) = []"
  "resp_reason (error_response code m) = []"
  by (simp_all add: error_response_def with_content_type_def zero_response_def Let_def)

lemma status_text_no_ctl: "\<not> contains_any (status_text code) [cr, lf]"
  by (simp add: status_text_def)

lemma content_type_not_skipped: "\<not> skipped_header c (HeaderField ''Content-Type'' v)"
  by (cases c) (simp_all add: skipped_header_def equal_fold_def fold_key_ascii to_lower_def ascii_lower_def char_of_eq_iff)

lemma error_response_sendable:
  "100 \<le> code \<Longrightarrow> code \<le> 999 \<Longrightarrow> sendable (error_response code m)"
  using status_text_no_ctl
  by (auto simp: sendable_def passes_checks_def error_response_parts effective_version_def
      effective_reason_def kept_headers_def content_type_not_skipped sendable_field_def)

end
