(* ===== verification/App_Types.thy ===== *)
theory App_Types
  imports Mime
begin

text \<open>
  What the application layer of package httpserver shares: its error values, the request that
  handlers see (httpserver/app.go), and the header lookups of cors.go and compression.go.
\<close>

datatype app_err =
    ErrInvalidCookie | ErrInvalidCacheHeader | ErrInvalidRange | ErrInvalidSSEEvent
  | ErrInvalidWebSocketUpgrade | ErrFile | ErrOsInvalid

text \<open>
  A context is the background context or another context with the request ID attached; a nil
  context is \<open>None\<close> in the request.
\<close>

datatype req_ctx = BackgroundCtx | RequestIdCtx bytes req_ctx

record request =
  req_context :: "req_ctx option"
  req_http :: http_request
  req_params :: "(bytes \<rightharpoonup> bytes) option"

abbreviation http_headers :: "request \<Rightarrow> header_field list" where
  "http_headers r \<equiv> req_headers (req_http r)"

abbreviation http_method :: "request \<Rightarrow> bytes" where
  "http_method r \<equiv> rl_method (request_line (req_http r))"

abbreviation http_target :: "request \<Rightarrow> bytes" where
  "http_target r \<equiv> rl_target (request_line (req_http r))"

definition request_param :: "request \<Rightarrow> bytes \<Rightarrow> bytes" where
  "request_param r name =
     (case req_params r of None \<Rightarrow> [] | Some m \<Rightarrow> (case m name of None \<Rightarrow> [] | Some v \<Rightarrow> v))"

fun header_value_fold :: "header_field list \<Rightarrow> bytes \<Rightarrow> bytes" where
  "header_value_fold [] name = []"
| "header_value_fold (h # hs) name =
     (if equal_fold (hname h) name then hvalue h else header_value_fold hs name)"

definition has_header :: "header_field list \<Rightarrow> bytes \<Rightarrow> bool" where
  "has_header hs name \<longleftrightarrow> (\<exists>h\<in>set hs. equal_fold (hname h) name)"

definition without_header :: "header_field list \<Rightarrow> bytes \<Rightarrow> header_field list" where
  "without_header hs name = filter (\<lambda>h. \<not> equal_fold (hname h) name) hs"

text \<open>Splitting a comma-separated list, dropping blanks and empty parts (cors.go, cmd/wbsv/main.go).\<close>

definition split_header_list :: "bytes \<Rightarrow> bytes list" where
  "split_header_list v = filter (\<lambda>p. p \<noteq> []) (map (\<lambda>p. trim p [sp, tab]) (split_on CHR '','' v))"

lemma has_header_field_values: "has_header hs name \<longleftrightarrow> field_values hs name \<noteq> []"
  by (induction hs) (auto simp: has_header_def)

lemma header_value_fold_values:
  "header_value_fold hs name = (case field_values hs name of [] \<Rightarrow> [] | v # _ \<Rightarrow> v)"
  by (induction hs) auto

lemma without_header_has [simp]: "\<not> has_header (without_header hs name) name"
  by (simp add: without_header_def has_header_def)

lemma split_header_list_parts:
  "p \<in> set (split_header_list v) \<Longrightarrow> p \<noteq> [] \<and> CHR '','' \<notin> set p \<and> trim p [sp, tab] = p"
proof -
  assume p: "p \<in> set (split_header_list v)"
  then obtain q where "q \<in> set (split_on CHR '','' v)" "p = trim q [sp, tab]" "p \<noteq> []"
    by (auto simp: split_header_list_def)
  then show ?thesis using split_on_pieces set_trim by fastforce
qed

end
