(* ===== verification/Sse.thy ===== *)
theory Sse
  imports App_Types
begin

text \<open>
  Server-sent events (httpserver/sse.go): the encoder of one event, and, as the specification
  of what a client sees, the interpretation of an event stream given by the HTML standard.
\<close>

section \<open>The code\<close>

record server_sent_event =
  sse_id :: bytes
  sse_event :: bytes
  sse_data :: bytes
  sse_retry :: int

definition invalid_sse_field_value :: "bytes \<Rightarrow> bool" where
  "invalid_sse_field_value v = contains_any v [cr, lf]"

definition normalize_sse_data :: "bytes \<Rightarrow> bytes" where
  "normalize_sse_data d = replace_all (replace_all d crlf [lf]) [cr] [lf]"

definition encode_server_sent_event :: "server_sent_event \<Rightarrow> app_err + bytes" where
  "encode_server_sent_event ev =
     (if invalid_sse_field_value (sse_id ev) then Inl ErrInvalidSSEEvent
      else if invalid_sse_field_value (sse_event ev) then Inl ErrInvalidSSEEvent
      else if sse_retry ev < 0 then Inl ErrInvalidSSEEvent
      else Inr (
        (if sse_id ev \<noteq> [] then ''id: '' @ sse_id ev @ [lf] else []) @
        (if sse_event ev \<noteq> [] then ''event: '' @ sse_event ev @ [lf] else []) @
        (if 0 < sse_retry ev then ''retry: '' @ format_int (sse_retry ev) @ [lf] else []) @
        concat (map (\<lambda>line. ''data: '' @ line @ [lf]) (split_on lf (normalize_sse_data (sse_data ev)))) @
        [lf]))"

section \<open>What a client reads\<close>

text \<open>
  The lines of a stream end in CRLF, LF or CR; an unterminated rest is not processed. A CR at
  the very end of what has arrived ends its line as well.
\<close>

function sse_lines :: "bytes \<Rightarrow> bytes list" where
  "sse_lines s =
     (let l = takeWhile (\<lambda>c. c \<noteq> lf \<and> c \<noteq> cr) s; r = drop (length l) s
      in case r of [] \<Rightarrow> []
         | c # r' \<Rightarrow> l # sse_lines (if c = cr \<and> has_prefix r' [lf] then drop 1 r' else r'))"
  by pat_completeness auto
termination
  by (relation "measure length") (auto dest: arg_cong[where f = length] split: if_splits)

declare sse_lines.simps [simp del]

text \<open>The buffers of the interpretation: pending data lines, event type, last event ID, retry time.\<close>

record sse_client =
  data_lines :: "bytes list"
  event_type :: bytes
  last_id :: bytes
  retry_ms :: "nat option"

record sse_message =
  msg_id :: bytes
  msg_type :: bytes
  msg_data :: bytes

definition sse_field :: "bytes \<Rightarrow> bytes \<Rightarrow> sse_client \<Rightarrow> sse_client" where
  "sse_field name v st =
     (if name = ''event'' then st\<lparr>event_type := v\<rparr>
      else if name = ''data'' then st\<lparr>data_lines := data_lines st @ [v]\<rparr>
      else if name = ''id'' then (if CHR 0x00 \<in> set v then st else st\<lparr>last_id := v\<rparr>)
      else if name = ''retry'' then (case parse_digits v of None \<Rightarrow> st | Some n \<Rightarrow> st\<lparr>retry_ms := Some n\<rparr>)
      else st)"

definition sse_line :: "bytes \<Rightarrow> sse_client \<Rightarrow> sse_client" where
  "sse_line l st =
     (case cut l CHR '':'' of (name, v, colon) \<Rightarrow>
        if colon \<and> name = [] then st else sse_field name (trim_prefix v [sp]) st)"

fun sse_interpret :: "sse_client \<Rightarrow> bytes list \<Rightarrow> sse_message list \<times> sse_client" where
  "sse_interpret st [] = ([], st)"
| "sse_interpret st (l # ls) =
     (if l = [] then
        (let (ms, st') = sse_interpret (st\<lparr>data_lines := [], event_type := []\<rparr>) ls
         in (if data_lines st = [] then ms
             else \<lparr>msg_id = last_id st,
                   msg_type = (if event_type st = [] then ''message'' else event_type st),
                   msg_data = join [lf] (data_lines st)\<rparr> # ms, st'))
      else sse_interpret (sse_line l st) ls)"

text \<open>Between two events the data and the event type buffer are empty.\<close>

definition idle_client :: "bytes \<Rightarrow> nat option \<Rightarrow> sse_client" where
  "idle_client i rt = \<lparr>data_lines = [], event_type = [], last_id = i, retry_ms = rt\<rparr>"

text \<open>What a list of events means to a client, starting from a last event ID.\<close>

fun sse_meaning :: "bytes \<Rightarrow> server_sent_event list \<Rightarrow> sse_message list" where
  "sse_meaning i [] = []"
| "sse_meaning i (ev # evs) =
     (let i' = (if sse_id ev = [] then i else sse_id ev)
      in \<lparr>msg_id = i', msg_type = (if sse_event ev = [] then ''message'' else sse_event ev),
          msg_data = normalize_sse_data (sse_data ev)\<rparr> # sse_meaning i' evs)"

section \<open>Lemmas\<close>

lemma normalize_sse_data_no_cr: "cr \<notin> set (normalize_sse_data d)"
  by (simp add: normalize_sse_data_def replace_all_char_absent)

lemma sse_lines_Nil [simp]: "sse_lines [] = []"
  using sse_lines.simps[of "[]"] by simp

lemma sse_lines_line [simp]:
  "cr \<notin> set l \<Longrightarrow> lf \<notin> set l \<Longrightarrow> sse_lines (l @ lf # r) = l # sse_lines r"
proof -
  assume "cr \<notin> set l" "lf \<notin> set l"
  then have "takeWhile (\<lambda>c. c \<noteq> lf \<and> c \<noteq> cr) (l @ lf # r) = l"
    by (induction l) auto
  then show ?thesis using sse_lines.simps[of "l @ lf # r"] by (simp add: Let_def)
qed

lemma sse_lines_lines:
  "\<forall>l\<in>set ls. cr \<notin> set l \<and> lf \<notin> set l \<Longrightarrow>
     sse_lines (concat (map (\<lambda>l. l @ [lf]) ls) @ r) = ls @ sse_lines r"
  by (induction ls) auto

lemma sse_line_field:
  "CHR '':'' \<notin> set name \<Longrightarrow> name \<noteq> [] \<Longrightarrow> sse_line (name @ CHR '':'' # sp # v) st = sse_field name v st"
  by (simp add: sse_line_def trim_prefix_def has_prefix_def)

lemma sse_interpret_data:
  "sse_interpret st (map (\<lambda>l. ''data: '' @ l) ds @ ls) =
     sse_interpret (st\<lparr>data_lines := data_lines st @ ds\<rparr>) ls"
proof (induction ds arbitrary: st)
  case (Cons d ds)
  have "sse_line (''data: '' @ d) st = st\<lparr>data_lines := data_lines st @ [d]\<rparr>"
    using sse_line_field[of "''data''" d st] by (simp add: sse_field_def)
  with Cons show ?case by simp
qed simp

text \<open>The lines of one encoded event.\<close>

definition event_lines :: "server_sent_event \<Rightarrow> bytes list" where
  "event_lines ev =
     (if sse_id ev \<noteq> [] then [''id: '' @ sse_id ev] else []) @
     (if sse_event ev \<noteq> [] then [''event: '' @ sse_event ev] else []) @
     (if 0 < sse_retry ev then [''retry: '' @ format_int (sse_retry ev)] else []) @
     map (\<lambda>l. ''data: '' @ l) (split_on lf (normalize_sse_data (sse_data ev)))"

lemma encode_event_lines:
  "encode_server_sent_event ev = Inr s \<Longrightarrow>
     s = concat (map (\<lambda>l. l @ [lf]) (event_lines ev @ [[]])) \<and>
     (\<forall>l\<in>set (event_lines ev). cr \<notin> set l \<and> lf \<notin> set l \<and> l \<noteq> []) \<and> 0 \<le> sse_retry ev"
proof -
  assume "encode_server_sent_event ev = Inr s"
  then have ok: "\<not> contains_any (sse_id ev) [cr, lf]" "\<not> contains_any (sse_event ev) [cr, lf]" "0 \<le> sse_retry ev"
    and s: "s = concat (map (\<lambda>l. l @ [lf]) (event_lines ev @ [[]]))"
    by (auto simp: encode_server_sent_event_def invalid_sse_field_value_def event_lines_def comp_def
        split: if_splits)
  have "\<not> contains_any (format_int (sse_retry ev)) [cr, lf]" by (rule format_int_no_ctl) simp
  moreover have "cr \<notin> set l \<and> lf \<notin> set l" if "l \<in> set (split_on lf (normalize_sse_data d))" for l d
    using split_on_pieces[OF that] normalize_sse_data_no_cr by auto
  ultimately have "\<forall>l\<in>set (event_lines ev). cr \<notin> set l \<and> lf \<notin> set l \<and> l \<noteq> []"
    using ok by (auto simp: event_lines_def contains_any_set split: if_splits)
  with s ok(3) show ?thesis by blast
qed

lemma sse_interpret_event:
  assumes "0 \<le> sse_retry ev" "CHR 0x00 \<notin> set (sse_id ev)"
  shows "\<exists>rt'. sse_interpret (idle_client i rt) (event_lines ev @ [] # ls) =
    (let (ms, st') = sse_interpret (idle_client (if sse_id ev = [] then i else sse_id ev) rt') ls
     in (sse_meaning i [ev] @ ms, st'))"
proof -
  let ?ds = "split_on lf (normalize_sse_data (sse_data ev))"
  let ?i = "if sse_id ev = [] then i else sse_id ev"
  have idl: "sse_line (''id: '' @ v) st = sse_field ''id'' v st"
    and evl: "sse_line (''event: '' @ v) st = sse_field ''event'' v st"
    and rtl: "sse_line (''retry: '' @ v) st = sse_field ''retry'' v st" for v st
    using sse_line_field[of "''id''" v st] sse_line_field[of "''event''" v st] sse_line_field[of "''retry''" v st]
    by simp_all
  obtain rt' where "sse_interpret (idle_client i rt) (event_lines ev @ [] # ls) =
      sse_interpret \<lparr>data_lines = ?ds, event_type = sse_event ev, last_id = ?i, retry_ms = rt'\<rparr> ([] # ls)"
  proof -
    let ?rt = "if 0 < sse_retry ev then Some (nat (sse_retry ev)) else rt"
    have "sse_interpret (idle_client i rt) (event_lines ev @ [] # ls) =
        sse_interpret \<lparr>data_lines = [], event_type = sse_event ev, last_id = ?i, retry_ms = ?rt\<rparr>
          (map (\<lambda>l. ''data: '' @ l) ?ds @ [] # ls)"
      using assms by (simp add: event_lines_def idl[simplified] evl[simplified] rtl[simplified] idle_client_def sse_field_def format_int_def)
    then show ?thesis using that[of ?rt] by (simp only: sse_interpret_data) simp
  qed
  then have "sse_interpret (idle_client i rt) (event_lines ev @ [] # ls) =
    (let (ms, st') = sse_interpret (idle_client ?i rt') ls in (sse_meaning i [ev] @ ms, st'))"
    by (simp add: idle_client_def Let_def join_split_on split: prod.split)
  then show ?thesis ..
qed

section \<open>Properties\<close>

text \<open>
  C36. No event injection: whatever the fields of the events are, if they are all accepted, a
  client that interprets the concatenation of their encodings receives exactly these events, in
  order, each with its ID (inherited when empty), its type and its data with the line ends
  normalised. The HTML standard ignores an ID with a NUL byte, which the encoder accepts; such
  IDs are excluded.
\<close>

theorem sse_stream_roundtrip:
  assumes "list_all2 (\<lambda>ev s. encode_server_sent_event ev = Inr s) evs ss"
    and "\<forall>ev\<in>set evs. CHR 0x00 \<notin> set (sse_id ev)"
  shows "fst (sse_interpret (idle_client i rt) (sse_lines (concat ss))) = sse_meaning i evs"
  using assms
proof (induction evs ss arbitrary: i rt rule: list_all2_induct)
  case (Cons ev evs s ss)
  note enc = encode_event_lines[OF Cons.hyps(1)]
  have "sse_lines (concat (s # ss)) = (event_lines ev @ [[]]) @ sse_lines (concat ss)"
  proof -
    have "concat (s # ss) = concat (map (\<lambda>l. l @ [lf]) (event_lines ev @ [[]])) @ concat ss"
      using enc by simp
    then show ?thesis by (simp only:) (rule sse_lines_lines, use enc in auto)
  qed
  moreover obtain rt' where "sse_interpret (idle_client i rt) (event_lines ev @ [] # sse_lines (concat ss)) =
    (let (ms, st') = sse_interpret (idle_client (if sse_id ev = [] then i else sse_id ev) rt') (sse_lines (concat ss))
     in (sse_meaning i [ev] @ ms, st'))"
    using sse_interpret_event[of ev i rt "sse_lines (concat ss)"] enc Cons.prems by auto
  ultimately show ?case
    using Cons.IH[of "if sse_id ev = [] then i else sse_id ev" rt'] Cons.prems
    by (simp add: Let_def case_prod_beta)
qed simp

theorem sse_stream_roundtrip_witness:
  "fst (sse_interpret (idle_client [] None) (sse_lines
     (''id: 7'' @ [lf] @ ''data: a'' @ [lf] @ ''data: id: 8'' @ [lf, lf] @ ''data: '' @ [lf, lf]))) =
   [\<lparr>msg_id = ''7'', msg_type = ''message'', msg_data = ''a'' @ [lf] @ ''id: 8''\<rparr>,
    \<lparr>msg_id = ''7'', msg_type = ''message'', msg_data = []\<rparr>]"
proof -
  let ?a = "\<lparr>sse_id = ''7'', sse_event = [], sse_data = ''a'' @ crlf @ ''id: 8'', sse_retry = 0\<rparr>"
  let ?b = "\<lparr>sse_id = [], sse_event = [], sse_data = [], sse_retry = 0\<rparr>"
  let ?sa = "''id: 7'' @ [lf] @ ''data: a'' @ [lf] @ ''data: id: 8'' @ [lf, lf]"
  let ?sb = "''data: '' @ [lf, lf]"
  have "encode_server_sent_event ?a = Inr ?sa" "encode_server_sent_event ?b = Inr ?sb"
    "sse_meaning [] [?a, ?b] = [\<lparr>msg_id = ''7'', msg_type = ''message'', msg_data = ''a'' @ [lf] @ ''id: 8''\<rparr>,
      \<lparr>msg_id = ''7'', msg_type = ''message'', msg_data = []\<rparr>]"
    by code_simp+
  then show ?thesis using sse_stream_roundtrip[of "[?a, ?b]" "[?sa, ?sb]" "[]" None] by simp
qed

end
