(* ===== verification/Go_Time.thy ===== *)
theory Go_Time
  imports Go_Strings
begin

text \<open>
  The part of Go's package \<open>time\<close> that the server uses: instants, truncation to seconds, and
  the HTTP date format. An instant is the number of seconds since the zero time (1 January of
  year 1, UTC) with the nanoseconds after it; locations do not occur, since the code always
  converts to UTC first.
\<close>

section \<open>Instants\<close>

record go_time =
  t_sec :: int
  t_nsec :: int

definition zero_time :: go_time where
  "zero_time = \<lparr>t_sec = 0, t_nsec = 0\<rparr>"

definition time_is_zero :: "go_time \<Rightarrow> bool" where
  "time_is_zero t \<longleftrightarrow> t = zero_time"

definition truncate_second :: "go_time \<Rightarrow> go_time" where
  "truncate_second t = t\<lparr>t_nsec := 0\<rparr>"

definition time_after :: "go_time \<Rightarrow> go_time \<Rightarrow> bool" where
  "time_after a b \<longleftrightarrow> t_sec b < t_sec a \<or> t_sec a = t_sec b \<and> t_nsec b < t_nsec a"

text \<open>
  Durations are 64-bit numbers of nanoseconds: \<open>Sub\<close> saturates, while the arithmetic on
  durations themselves wraps around. Instants are taken to be far from the ends of their own
  range of 292 billion years.
\<close>

definition time_ns :: "go_time \<Rightarrow> int" where
  "time_ns t = t_sec t * 1000000000 + t_nsec t"

definition time_of_ns :: "int \<Rightarrow> go_time" where
  "time_of_ns n = \<lparr>t_sec = n div 1000000000, t_nsec = n mod 1000000000\<rparr>"

definition time_before :: "go_time \<Rightarrow> go_time \<Rightarrow> bool" where
  "time_before a b \<longleftrightarrow> time_after b a"

definition time_add :: "go_time \<Rightarrow> int \<Rightarrow> go_time" where
  "time_add t d = time_of_ns (time_ns t + d)"

definition time_sub :: "go_time \<Rightarrow> go_time \<Rightarrow> int" where
  "time_sub a b = max min_int64 (min max_int64 (time_ns a - time_ns b))"

definition wrap_int64 :: "int \<Rightarrow> int" where
  "wrap_int64 i = (i - min_int64) mod 18446744073709551616 + min_int64"

definition valid_time :: "go_time \<Rightarrow> bool" where
  "valid_time t \<longleftrightarrow> 0 \<le> t_nsec t \<and> t_nsec t < 1000000000"

lemma time_ns_of_ns [simp]: "time_ns (time_of_ns n) = n"
  by (simp add: time_ns_def time_of_ns_def)

lemma valid_time_of_ns [simp]: "valid_time (time_of_ns n)"
  by (simp add: valid_time_def time_of_ns_def)

lemma time_ns_add [simp]: "time_ns (time_add t d) = time_ns t + d"
  by (simp add: time_add_def)

lemma valid_time_add [simp]: "valid_time (time_add t d)"
  by (simp add: time_add_def)

lemma time_before_ns: "valid_time a \<Longrightarrow> valid_time b \<Longrightarrow> time_before a b \<longleftrightarrow> time_ns a < time_ns b"
  unfolding time_before_def time_after_def valid_time_def time_ns_def by linarith

lemma ns_zero_iff:
  fixes s k :: int
  assumes "0 \<le> k" "k < 1000000000"
  shows "s * 1000000000 + k = 0 \<longleftrightarrow> s = 0 \<and> k = 0"
proof
  assume sum: "s * 1000000000 + k = 0"
  have "\<not> s \<le> - 1" "\<not> 1 \<le> s" using sum assms by linarith+
  then have "s = 0" by linarith
  with sum show "s = 0 \<and> k = 0" by simp
qed simp

lemma zero_time_ns: "valid_time t \<Longrightarrow> t = zero_time \<longleftrightarrow> time_ns t = 0"
  using ns_zero_iff[of "t_nsec t" "t_sec t"]
  by (cases t) (simp add: valid_time_def time_ns_def zero_time_def)

lemma wrap_int64_id: "min_int64 \<le> i \<Longrightarrow> i \<le> max_int64 \<Longrightarrow> wrap_int64 i = i"
  by (simp add: wrap_int64_def)

section \<open>Civil dates\<close>

definition leap_year :: "int \<Rightarrow> bool" where
  "leap_year y \<longleftrightarrow> y mod 4 = 0 \<and> (y mod 100 \<noteq> 0 \<or> y mod 400 = 0)"

text \<open>Year and day of the year (from 0) of a day counted from 1 January of year 1.\<close>

definition year_day :: "int \<Rightarrow> int \<times> int" where
  "year_day d =
     (let n400 = d div 146097; d1 = d mod 146097;
          n100 = (let n = d1 div 36524 in n - n div 4); d2 = d1 - 36524 * n100;
          n4 = d2 div 1461; d3 = d2 mod 1461;
          n1 = (let n = d3 div 365 in n - n div 4)
      in (400 * n400 + 100 * n100 + 4 * n4 + n1 + 1, d3 - 365 * n1))"

definition month_lengths :: "int \<Rightarrow> int list" where
  "month_lengths y = [31, if leap_year y then 29 else 28, 31, 30, 31, 30, 31, 31, 30, 31, 30, 31]"

fun month_walk :: "int list \<Rightarrow> nat \<Rightarrow> int \<Rightarrow> nat \<times> int" where
  "month_walk [] m d = (m, d + 1)"
| "month_walk [l] m d = (m, d + 1)"
| "month_walk (l # l' # ls) m d = (if d < l then (m, d + 1) else month_walk (l' # ls) (Suc m) (d - l))"

text \<open>Year, month (from 0) and day of the month.\<close>

definition civil_date :: "int \<Rightarrow> int \<times> nat \<times> int" where
  "civil_date d = (case year_day d of (y, yd) \<Rightarrow> (y, month_walk (month_lengths y) 0 yd))"

lemma month_walk_range: "ls \<noteq> [] \<Longrightarrow> fst (month_walk ls m d) < m + length ls"
  by (induction ls m d rule: month_walk.induct) auto

lemma civil_month_range: "civil_date d = (y, m, dd) \<Longrightarrow> m < 12"
proof -
  assume "civil_date d = (y, m, dd)"
  then have "m = fst (month_walk (month_lengths y) 0 (snd (year_day d)))"
    by (auto simp: civil_date_def split: prod.splits)
  then show ?thesis using month_walk_range[of "month_lengths y" 0 "snd (year_day d)"] by (simp add: month_lengths_def)
qed

section \<open>The HTTP date format\<close>

definition day_names :: "bytes list" where
  "day_names = [''Sun'', ''Mon'', ''Tue'', ''Wed'', ''Thu'', ''Fri'', ''Sat'']"

definition month_names :: "bytes list" where
  "month_names = [''Jan'', ''Feb'', ''Mar'', ''Apr'', ''May'', ''Jun'', ''Jul'', ''Aug'', ''Sep'',
     ''Oct'', ''Nov'', ''Dec'']"

text \<open>A number padded with zeros to a width, its sign before the padding.\<close>

definition pad_int :: "nat \<Rightarrow> int \<Rightarrow> bytes" where
  "pad_int w i =
     (let ds = nat_dec (nat \<bar>i\<bar>) in (if i < 0 then ''-'' else []) @ replicate (w - length ds) CHR ''0'' @ ds)"

text \<open>The layout "Mon, 02 Jan 2006 15:04:05 GMT" (\<open>net/http.TimeFormat\<close>).\<close>

definition http_time_format :: "go_time \<Rightarrow> bytes" where
  "http_time_format t =
     (let days = t_sec t div 86400; s = t_sec t mod 86400
      in case civil_date days of (y, m, d) \<Rightarrow>
        day_names ! nat ((days + 1) mod 7) @ '', '' @ pad_int 2 d @ '' '' @ month_names ! m @ '' '' @
        pad_int 4 y @ '' '' @ pad_int 2 (s div 3600) @ '':'' @ pad_int 2 (s mod 3600 div 60) @ '':'' @
        pad_int 2 (s mod 60) @ '' GMT'')"

lemma pad_int_digits:
  assumes "0 \<le> i" "i < 10 ^ w" "0 < w"
  shows "length (pad_int w i) = w \<and> list_all is_digit (pad_int w i) \<and> dec_val (pad_int w i) = nat i"
proof -
  have "length (nat_dec (nat i)) \<le> w" using assms by (intro length_nat_dec) (simp_all add: nat_less_iff)
  moreover have "is_digit CHR ''0''" by (simp add: is_digit_def)
  ultimately show ?thesis using assms
    by (auto simp: pad_int_def Let_def dec_val_zeros list_all_iff dest: nat_dec_set)
qed

lemma pad_int_set: "c \<in> set (pad_int w i) \<Longrightarrow> is_digit c \<or> c = CHR ''-''"
  by (auto simp: pad_int_def Let_def is_digit_def dest: nat_dec_set[unfolded is_digit_def])

lemma day_name_in: "day_names ! nat ((d + 1) mod 7) \<in> set day_names"
  by (intro nth_mem) (simp add: day_names_def nat_less_iff)

lemma month_name_in: "m < 12 \<Longrightarrow> month_names ! m \<in> set month_names"
  by (intro nth_mem) (simp add: month_names_def)

text \<open>No byte of a formatted time is special in a header value or in a cookie attribute.\<close>

lemma http_time_format_plain:
  assumes "c \<in> set (http_time_format t)"
  shows "c \<notin> {cr, lf, tab, CHR '';'', CHR ''=''}"
proof -
  define days where "days = t_sec t div 86400"
  obtain y m d where civ: "civil_date days = (y, m, d)" using prod_cases3 by blast
  have m: "m < 12" using civil_month_range[OF civ] .
  have "set (day_names ! nat ((days + 1) mod 7)) \<inter> {cr, lf, tab, CHR '';'', CHR ''=''} = {}"
    using day_name_in[of days] by (auto simp: day_names_def)
  moreover have "set (month_names ! m) \<inter> {cr, lf, tab, CHR '';'', CHR ''=''} = {}"
    using month_name_in[OF m] by (auto simp: month_names_def)
  moreover have "set (pad_int w i) \<inter> {cr, lf, tab, CHR '';'', CHR ''=''} = {}" for w i
    by (auto dest!: pad_int_set simp: is_digit_def)
  ultimately show ?thesis
    using assms civ by (auto simp: http_time_format_def Let_def days_def)
qed

lemma http_time_format_ne [simp]: "http_time_format t \<noteq> []"
  by (simp add: http_time_format_def Let_def split: prod.splits)

text \<open>The example of RFC 9110, and the zero time.\<close>

lemma http_time_format_examples:
  "http_time_format \<lparr>t_sec = 62135596800 + 784111777, t_nsec = 5\<rparr> = ''Sun, 06 Nov 1994 08:49:37 GMT''"
  "http_time_format zero_time = ''Mon, 01 Jan 0001 00:00:00 GMT''"
  by code_simp+

end
