(* ===== verification/Http_Date.thy ===== *)
theory Http_Date
  imports Go_Time
begin

text \<open>
  Reading HTTP dates back: \<open>net/http.ParseTime\<close> with the layout that the server itself writes
  (\<open>time.Parse\<close> of Go's standard library, with the leniency it has), and the proof that it
  inverts \<open>http_time_format\<close>. The two legacy layouts that \<open>ParseTime\<close> tries next, of which one
  depends on the machine's time zone, are a parameter.
\<close>

section \<open>The calendar\<close>

definition days_before_year :: "int \<Rightarrow> int" where
  "days_before_year y = 365 * (y - 1) + (y - 1) div 4 - (y - 1) div 100 + (y - 1) div 400"

definition day_number :: "int \<Rightarrow> nat \<Rightarrow> int \<Rightarrow> int" where
  "day_number y m d = days_before_year y + sum_list (take m (month_lengths y)) + (d - 1)"

definition year_length :: "int \<Rightarrow> int" where
  "year_length y = (if leap_year y then 366 else 365)"

text \<open>A year written as centuries and quadrennia, and what the leap rules make of it.\<close>

lemma year_parts:
  fixes a b c e :: int
  assumes "0 \<le> b" "b \<le> 3" "0 \<le> c" "c \<le> 24" "0 \<le> e" "e \<le> 3"
  defines "y \<equiv> 400 * a + 100 * b + 4 * c + e + 1"
  shows "days_before_year y = 146097 * a + 36524 * b + 1461 * c + 365 * e"
    and "leap_year y \<longleftrightarrow> e = 3 \<and> (c = 24 \<longrightarrow> b = 3)"
proof -
  have "(y - 1) div 4 = 100 * a + 25 * b + c" "(y - 1) div 100 = 4 * a + b" "(y - 1) div 400 = a"
    using assms(1-6) unfolding y_def
    by (intro int_div_pos_eq[where r = e] int_div_pos_eq[where r = "4 * c + e"]
        int_div_pos_eq[where r = "100 * b + 4 * c + e"]; simp)+
  then show "days_before_year y = 146097 * a + 36524 * b + 1461 * c + 365 * e"
    by (simp add: days_before_year_def y_def)
  define z where "z = y - 1"
  have z: "y = z + 1" "z mod 4 = e" "z mod 100 = 4 * c + e" "z mod 400 = 100 * b + 4 * c + e"
    using assms(1-6) unfolding z_def y_def
    by (auto intro: int_mod_pos_eq[where q = "100 * a + 25 * b + c"] int_mod_pos_eq[where q = "4 * a + b"]
        int_mod_pos_eq[where q = a])
  have succ: "(z + 1) mod k = 0 \<longleftrightarrow> z mod k = k - 1" if "0 < k" for k
    using that by (smt (verit) mod_add_left_eq mod_pos_pos_trivial pos_mod_bound pos_mod_sign mod_self)
  have last: "4 * c + e = 99 \<longleftrightarrow> e = 3 \<and> c = 24" "100 * b + 4 * c + e = 399 \<longleftrightarrow> e = 3 \<and> c = 24 \<and> b = 3"
    using assms(1-6) by (auto; linarith)+
  have "y mod 4 = 0 \<longleftrightarrow> e = 3" using succ[of 4] z(1, 2) by simp
  moreover have "y mod 100 = 0 \<longleftrightarrow> e = 3 \<and> c = 24" using succ[of 100] z(1, 3) last(1) by simp
  moreover have "y mod 400 = 0 \<longleftrightarrow> e = 3 \<and> c = 24 \<and> b = 3" using succ[of 400] z(1, 4) last(2) by simp
  ultimately show "leap_year y \<longleftrightarrow> e = 3 \<and> (c = 24 \<longrightarrow> b = 3)" by (auto simp: leap_year_def)
qed

lemma capped_quotient:
  fixes x k :: int
  assumes "0 \<le> x" "x \<le> 4 * k" "1 < k"
  defines "n \<equiv> x div k - x div k div 4"
  shows "0 \<le> n" "n \<le> 3" "0 \<le> x - k * n" "x - k * n < k \<or> n = 3 \<and> x = 4 * k"
proof -
  let ?q = "x div k"
  have q: "k * ?q \<le> x" "x < k * ?q + k"
    using assms(3) mult_div_mod_eq[of k x] pos_mod_bound[of k x] pos_mod_sign[of k x] by linarith+
  have "0 \<le> ?q" using assms(1, 3) by (simp add: pos_imp_zdiv_nonneg_iff)
  moreover have "?q \<le> 4"
  proof (rule ccontr)
    assume "\<not> ?q \<le> 4"
    then have "k * 5 \<le> k * ?q" using assms(3) by (intro mult_left_mono) simp_all
    with q(1) assms(2, 3) show False by linarith
  qed
  ultimately have "?q = 0 \<or> ?q = 1 \<or> ?q = 2 \<or> ?q = 3 \<or> ?q = 4" by linarith
  with q assms(2) show "0 \<le> n" "n \<le> 3" "0 \<le> x - k * n" "x - k * n < k \<or> n = 3 \<and> x = 4 * k"
    by (auto simp: n_def)
qed

lemma year_day_correct:
  assumes "year_day n = (y, yd)"
  shows "days_before_year y + yd = n" "0 \<le> yd" "yd < year_length y"
proof -
  define a where "a = n div 146097"
  define d1 where "d1 = n mod 146097"
  define b where "b = d1 div 36524 - d1 div 36524 div 4"
  define d2 where "d2 = d1 - 36524 * b"
  define c where "c = d2 div 1461"
  define d3 where "d3 = d2 mod 1461"
  define e where "e = d3 div 365 - d3 div 365 div 4"
  have y: "y = 400 * a + 100 * b + 4 * c + e + 1" and yd: "yd = d3 - 365 * e"
    using assms[unfolded year_day_def Let_def, folded d1_def, folded b_def, folded d2_def, folded d3_def c_def,
      folded e_def a_def] by simp_all
  have n: "n = 146097 * a + d1" "0 \<le> d1" "d1 \<le> 146096" by (simp_all add: a_def d1_def)
  have b: "0 \<le> b" "b \<le> 3" "0 \<le> d2" "d2 < 36524 \<or> b = 3 \<and> d1 = 146096"
    using capped_quotient[of d1 36524, folded b_def, folded d2_def] n by auto
  then have d2: "d2 \<le> 36524" "d2 = 36524 \<longrightarrow> b = 3" unfolding d2_def by auto
  have d3: "d2 = 1461 * c + d3" "0 \<le> d3" "d3 \<le> 1460" by (simp_all add: c_def d3_def)
  have c: "0 \<le> c" "c \<le> 24" using d3 d2(1) b(3) by linarith+
  have e: "0 \<le> e" "e \<le> 3" "0 \<le> d3 - 365 * e" "d3 - 365 * e < 365 \<or> e = 3 \<and> d3 = 1460"
    using capped_quotient[of d3 365, folded e_def] d3 by auto
  note parts = year_parts[OF b(1, 2) c e(1, 2), of a, folded y]
  show "days_before_year y + yd = n" using parts(1) yd n(1) d3(1) by (simp add: d2_def)
  show "0 \<le> yd" using yd e(3) by simp
  show "yd < year_length y"
  proof (cases "yd < 365")
    case False
    then have "e = 3" "d3 = 1460" "yd = 365" using e(4) yd by auto
    moreover have "c = 24 \<longrightarrow> b = 3" using d2(2) d3(1) \<open>d3 = 1460\<close> by simp
    ultimately show ?thesis using parts(2) by (simp add: year_length_def)
  qed (simp add: year_length_def)
qed

lemma month_walk_correct:
  assumes "month_walk ls m0 d = (m, dd)" "0 \<le> d" "d < sum_list ls" "\<forall>l\<in>set ls. (0::int) < l"
  shows "\<exists>k<length ls. m = m0 + k \<and> d = sum_list (take k ls) + (dd - 1) \<and> 1 \<le> dd \<and> dd \<le> ls ! k"
  using assms
proof (induction ls m0 d rule: month_walk.induct)
  case (3 l l' ls m0 d)
  show ?case
  proof (cases "d < l")
    case False
    with 3 obtain k where "k < length (l' # ls)" "m = Suc m0 + k" "d - l = sum_list (take k (l' # ls)) + (dd - 1)"
      "1 \<le> dd" "dd \<le> (l' # ls) ! k" by auto
    then show ?thesis by (intro exI[of _ "Suc k"]) auto
  qed (use 3 in auto)
qed auto

lemma month_lengths_facts: "length (month_lengths y) = 12" "sum_list (month_lengths y) = year_length y"
  "\<forall>l\<in>set (month_lengths y). 0 < l \<and> l \<le> 31"
  by (simp_all add: month_lengths_def year_length_def)

text \<open>\<open>civil_date\<close> and \<open>day_number\<close> are inverse, and the dates are those of the calendar.\<close>

lemma civil_date_correct:
  assumes "civil_date n = (y, m, d)"
  shows "day_number y m d = n" "m < 12" "1 \<le> d" "d \<le> month_lengths y ! m"
proof -
  obtain yd where yd: "year_day n = (y, yd)" "month_walk (month_lengths y) 0 yd = (m, d)"
    using assms by (auto simp: civil_date_def split: prod.splits)
  note year = year_day_correct[OF yd(1)]
  have "\<forall>l\<in>set (month_lengths y). 0 < l" using month_lengths_facts(3) by blast
  then obtain k where "k < 12" "m = k" "yd = sum_list (take k (month_lengths y)) + (d - 1)" "1 \<le> d" "d \<le> month_lengths y ! k"
    using month_walk_correct[OF yd(2) year(2)] year(3) month_lengths_facts(1, 2)[of y] by auto
  with year(1) show "day_number y m d = n" "m < 12" "1 \<le> d" "d \<le> month_lengths y ! m"
    by (auto simp: day_number_def)
qed

section \<open>The parser\<close>

text \<open>The pieces of \<open>time.Parse\<close>: literal text of the layout, names, numbers of one or two digits.\<close>

function date_skip :: "bytes \<Rightarrow> bytes \<Rightarrow> bytes option" where
  "date_skip v [] = Some v"
| "date_skip v (p # ps) =
     (if p = sp then
        if v \<noteq> [] \<and> hd v \<noteq> sp then None
        else date_skip (dropWhile (\<lambda>c. c = sp) v) (dropWhile (\<lambda>c. c = sp) ps)
      else if v = [] \<or> hd v \<noteq> p then None
      else date_skip (tl v) ps)"
  by pat_completeness auto
termination
  by (relation "measure (\<lambda>(_, ps). length ps)") (auto simp: less_Suc_eq_le length_dropWhile_le)

declare date_skip.simps [simp del]

fun date_lookup :: "bytes list \<Rightarrow> nat \<Rightarrow> bytes \<Rightarrow> (nat \<times> bytes) option" where
  "date_lookup [] i v = None"
| "date_lookup (n # ns) i v =
     (if length n \<le> length v \<and> to_lower (take (length n) v) = to_lower n then Some (i, drop (length n) v)
      else date_lookup ns (Suc i) v)"

fun date_getnum :: "bool \<Rightarrow> bytes \<Rightarrow> (int \<times> bytes) option" where
  "date_getnum fixed [] = None"
| "date_getnum fixed [c] = (if is_digit c \<and> \<not> fixed then Some (int (digit_val c), []) else None)"
| "date_getnum fixed (c # d # s) =
     (if \<not> is_digit c then None
      else if is_digit d then Some (int (digit_val c) * 10 + int (digit_val d), s)
      else if fixed then None else Some (int (digit_val c), d # s))"

definition date_int :: "bytes \<Rightarrow> int" where
  "date_int ds = foldl (\<lambda>n c. 10 * n + int (digit_val c)) 0 ds"

definition date_year :: "bytes \<Rightarrow> (int \<times> bytes) option" where
  "date_year v = (if 4 \<le> length v \<and> list_all is_digit (take 4 v) then Some (date_int (take 4 v), drop 4 v) else None)"

text \<open>A fraction that the layout does not have is accepted after the seconds; nine digits count.\<close>

definition date_fraction :: "bytes \<Rightarrow> int \<times> bytes" where
  "date_fraction v =
     (case v of
        c # d # s \<Rightarrow>
          if c \<in> {CHR ''.'', CHR '',''} \<and> is_digit d then
            let ds = takeWhile is_digit (d # s); used = take 9 ds
            in (date_int used * 10 ^ (9 - length used), dropWhile is_digit (d # s))
          else (0, v)
      | _ \<Rightarrow> (0, v))"

abbreviation bind_date :: "'a option \<Rightarrow> ('a \<Rightarrow> 'b option) \<Rightarrow> 'b option" where
  "bind_date \<equiv> Option.bind"

text \<open>\<open>time.Parse\<close> with the layout \<open>Mon, 02 Jan 2006 15:04:05 GMT\<close>.\<close>

definition parse_http_layout :: "bytes \<Rightarrow> go_time option" where
  "parse_http_layout v0 =
     bind_date (date_lookup day_names 0 v0) (\<lambda>(_, v1).
     bind_date (date_skip v1 '', '') (\<lambda>v2.
     bind_date (date_getnum True v2) (\<lambda>(d, v3).
     bind_date (date_skip v3 '' '') (\<lambda>v4.
     bind_date (date_lookup month_names 0 v4) (\<lambda>(m, v5).
     bind_date (date_skip v5 '' '') (\<lambda>v6.
     bind_date (date_year v6) (\<lambda>(y, v7).
     bind_date (date_skip v7 '' '') (\<lambda>v8.
     bind_date (date_getnum False v8) (\<lambda>(hh, v9).
     bind_date (date_skip v9 '':'') (\<lambda>v10.
     bind_date (date_getnum True v10) (\<lambda>(mm, v11).
     bind_date (date_skip v11 '':'') (\<lambda>v12.
     bind_date (date_getnum True v12) (\<lambda>(ss, v13).
     case date_fraction v13 of (ns, v14) \<Rightarrow>
     bind_date (date_skip v14 '' GMT'') (\<lambda>v15.
       if v15 \<noteq> [] \<or> 24 \<le> hh \<or> 60 \<le> mm \<or> 60 \<le> ss \<or> d < 1 \<or> month_lengths y ! m < d then None
       else Some \<lparr>t_sec = day_number y m d * 86400 + hh * 3600 + mm * 60 + ss, t_nsec = ns\<rparr>))))))))))))))"

definition http_parse_time :: "(bytes \<Rightarrow> go_time option) \<Rightarrow> bytes \<Rightarrow> go_time option" where
  "http_parse_time legacy v = (case parse_http_layout v of Some t \<Rightarrow> Some t | None \<Rightarrow> legacy v)"

lemma bind_date_cong: "x = y \<Longrightarrow> bind_date x f = bind_date y f"
  by simp

text \<open>It reads sloppy forms of the date, and refuses days that the month does not have.\<close>

lemma parse_http_layout_examples:
  "parse_http_layout ''sun,  06  NOV 1994 8:49:37.5 GMT'' = Some \<lparr>t_sec = 62919708577, t_nsec = 500000000\<rparr>"
  "parse_http_layout ''Wed, 29 Feb 2023 00:00:00 GMT'' = None"
  "parse_http_layout ''Sunday, 06-Nov-94 08:49:37 GMT'' = None"
  by (simp_all add: parse_http_layout_def date_skip.simps day_names_def month_names_def to_lower_def ascii_lower_def
      date_year_def date_int_def date_fraction_def digit_val_def is_digit_def day_number_def days_before_year_def
      month_lengths_def leap_year_def char_of_def bit_0 Let_def
      cong: bind_date_cong)

section \<open>Round trip\<close>

lemma digit_not_space [simp]: "d < 10 \<Longrightarrow> dec_digit d \<noteq> sp"
  using is_digit_dec_digit[of d] by (auto simp: is_digit_def)

lemma dec_digit_0: "dec_digit 0 = CHR ''0''"
  by code_simp

lemma pad_two:
  assumes "0 \<le> i" "i < 100"
  shows "pad_int 2 i = [dec_digit (nat i div 10), dec_digit (nat i mod 10)]"
proof -
  have "nat i < 100" using assms by (simp add: nat_less_iff)
  then have "nat i div 10 < 10" by (simp add: less_mult_imp_div_less)
  then have "nat_dec (nat i) = (if nat i < 10 then [dec_digit (nat i)] else [dec_digit (nat i div 10), dec_digit (nat i mod 10)])"
    by (simp add: nat_dec.simps[of "nat i"] nat_dec.simps[of "nat i div 10"])
  then show ?thesis using assms by (simp add: pad_int_def Let_def dec_digit_0 numeral_2_eq_2)
qed

lemma pad_two_start: "0 \<le> i \<Longrightarrow> i < 100 \<Longrightarrow> pad_int 2 i \<noteq> [] \<and> hd (pad_int 2 i) \<noteq> sp"
  by (simp add: pad_two nat_less_iff less_mult_imp_div_less)

lemma getnum_pad_two:
  assumes "0 \<le> i" "i < 100"
  shows "date_getnum fixed (pad_int 2 i @ s) = Some (i, s)"
proof -
  have "nat i < 100" using assms by (simp add: nat_less_iff)
  then have "nat i div 10 < 10" by (simp add: less_mult_imp_div_less)
  moreover have "int (nat i div 10) * 10 + int (nat i mod 10) = i" using assms(1)
    by (simp add: zdiv_int zmod_int div_mult_mod_eq)
  ultimately show ?thesis using assms by (simp add: pad_two)
qed

lemma date_int_dec_val: "date_int ds = int (dec_val ds)"
  by (induction ds rule: rev_induct) (simp_all add: date_int_def dec_val_def)

lemma year_pad_four:
  assumes "0 \<le> y" "y \<le> 9999"
  shows "date_year (pad_int 4 y @ s) = Some (y, s)"
proof -
  from assms have "length (pad_int 4 y) = 4" "list_all is_digit (pad_int 4 y)" "dec_val (pad_int 4 y) = nat y"
    using pad_int_digits[of y 4] by simp_all
  then show ?thesis using assms by (simp add: date_year_def date_int_dec_val)
qed

lemma lookup_name:
  assumes "i < length ns" "\<forall>n\<in>set ns. length n = 3" "distinct (map to_lower ns)"
  shows "date_lookup ns k (ns ! i @ s) = Some (k + i, s)"
  using assms
proof (induction ns arbitrary: i k)
  case (Cons n ns)
  show ?case
  proof (cases i)
    case (Suc j)
    with Cons.prems have "to_lower (ns ! j) \<noteq> to_lower n" "length (ns ! j) = 3" "length n = 3"
      by (auto simp: image_iff) (metis length_map nth_mem)+
    with Suc Cons show ?thesis by simp
  qed simp
qed simp

lemma names_facts: "\<forall>n\<in>set day_names. length n = 3" "distinct (map to_lower day_names)" "length day_names = 7"
  "\<forall>n\<in>set month_names. length n = 3" "distinct (map to_lower month_names)" "length month_names = 12"
  by code_simp+

lemma skip_space: "v \<noteq> [] \<Longrightarrow> hd v \<noteq> sp \<Longrightarrow> date_skip (sp # v) [sp] = Some v"
  by (cases v) (auto simp: date_skip.simps)

lemma skip_comma: "v \<noteq> [] \<Longrightarrow> hd v \<noteq> sp \<Longrightarrow> date_skip (CHR '','' # sp # v) '', '' = Some v"
  by (cases v) (auto simp: date_skip.simps)

lemma skip_colon: "date_skip (CHR '':'' # v) '':'' = Some v"
  by (simp add: date_skip.simps)

lemma end_of_date: "date_fraction '' GMT'' = (0, '' GMT'')" "date_skip '' GMT'' '' GMT'' = Some []"
  by code_simp+

lemma pad_four_start: "0 \<le> y \<Longrightarrow> pad_int 4 y \<noteq> [] \<and> hd (pad_int 4 y) \<noteq> sp"
  using nat_dec_set[of "hd (nat_dec (nat y))" "nat y"]
  by (auto simp: pad_int_def Let_def hd_append is_digit_def)

lemma month_name_start: "m < 12 \<Longrightarrow> month_names ! m \<noteq> [] \<and> hd (month_names ! m) \<noteq> sp"
  using month_name_in[of m] by (auto simp: month_names_def)

lemma clock_parts:
  fixes s :: int
  assumes "0 \<le> s" "s < 86400"
  shows "0 \<le> s div 3600" "s div 3600 < 24" "0 \<le> s mod 3600 div 60" "s mod 3600 div 60 < 60" "0 \<le> s mod 60" "s mod 60 < 60"
    "s div 3600 * 3600 + s mod 3600 div 60 * 60 + s mod 60 = s"
proof -
  have r: "0 \<le> s mod 3600" "s mod 3600 \<le> 3599" by simp_all
  show "0 \<le> s div 3600" "0 \<le> s mod 3600 div 60" "0 \<le> s mod 60" "s mod 60 < 60"
    using assms(1) r(1) by (simp_all add: pos_imp_zdiv_nonneg_iff)
  show "s div 3600 < 24" using zdiv_mono1[of s 86399 3600] assms(2) by simp
  show "s mod 3600 div 60 < 60" using zdiv_mono1[OF r(2), of 60] by simp
  have "s mod 3600 mod 60 = s mod 60" by (simp add: mod_mod_cancel)
  then have "s mod 3600 div 60 * 60 + s mod 60 = s mod 3600" using div_mult_mod_eq[of "s mod 3600" 60] by (simp only:)
  then show "s div 3600 * 3600 + s mod 3600 div 60 * 60 + s mod 60 = s"
    using div_mult_mod_eq[of s 3600] by (simp only: add.assoc)
qed

text \<open>What the server writes is read as the instant it was, in whole seconds.\<close>

theorem parse_http_time_format:
  assumes "civil_date (t_sec t div 86400) = (y, m, d)" "0 \<le> y" "y \<le> 9999"
  shows "http_parse_time legacy (http_time_format t) = Some (truncate_second t)"
proof -
  define days where "days = t_sec t div 86400"
  define s where "s = t_sec t mod 86400"
  have civ: "civil_date days = (y, m, d)" using assms(1) by (simp add: days_def)
  note cal = civil_date_correct[OF civ]
  have s: "0 \<le> s" "s < 86400" by (simp_all add: s_def)
  have "month_lengths y ! m \<in> set (month_lengths y)" using cal(2) month_lengths_facts(1)[of y] by (intro nth_mem) simp
  then have d: "1 \<le> d" "d < 100" using cal(3, 4) month_lengths_facts(3)[of y] by force+
  define hh where "hh = s div 3600"
  define mm where "mm = s mod 3600 div 60"
  define ss where "ss = s mod 60"
  note h = clock_parts[OF s, folded hh_def mm_def ss_def]
  have wd: "nat ((days + 1) mod 7) < 7" by (simp add: nat_less_iff)
  define r7 where "r7 = pad_int 2 ss @ '' GMT''"
  define r6 where "r6 = pad_int 2 (mm) @ CHR '':'' # r7"
  define r5 where "r5 = pad_int 2 (hh) @ CHR '':'' # r6"
  define r4 where "r4 = pad_int 4 y @ sp # r5"
  define r3 where "r3 = month_names ! m @ sp # r4"
  define r2 where "r2 = pad_int 2 d @ sp # r3"
  have starts: "r2 \<noteq> [] \<and> hd r2 \<noteq> sp" "r3 \<noteq> [] \<and> hd r3 \<noteq> sp" "r4 \<noteq> [] \<and> hd r4 \<noteq> sp" "r5 \<noteq> [] \<and> hd r5 \<noteq> sp"
    using pad_two_start[of d] pad_two_start[of "hh"] pad_four_start[OF assms(2)] month_name_start[OF cal(2)] d h
    by (simp_all add: r2_def r3_def r4_def r5_def)
  have written: "http_time_format t = day_names ! nat ((days + 1) mod 7) @ CHR '','' # sp # r2"
    using civ by (simp add: http_time_format_def Let_def days_def s_def hh_def mm_def ss_def r2_def r3_def r4_def r5_def r6_def r7_def)
  have names: "date_lookup day_names 0 (day_names ! nat ((days + 1) mod 7) @ v) = Some (nat ((days + 1) mod 7), v)"
    "date_lookup month_names 0 r3 = Some (m, sp # r4)" for v
    using lookup_name[OF _ names_facts(1, 2), of "nat ((days + 1) mod 7)" 0 v]
      lookup_name[OF _ names_facts(4, 5), of m 0 "sp # r4"] wd cal(2) by (simp_all add: names_facts r3_def)
  have nums: "date_getnum True r2 = Some (d, sp # r3)" "date_getnum False r5 = Some (hh, CHR '':'' # r6)"
    "date_getnum True r6 = Some (mm, CHR '':'' # r7)" "date_getnum True r7 = Some (ss, '' GMT'')"
    "date_year r4 = Some (y, sp # r5)"
    unfolding r2_def r4_def r5_def r6_def r7_def using d h year_pad_four[OF assms(2, 3)] by (simp_all add: getnum_pad_two)
  have skips: "date_skip (CHR '','' # sp # r2) '', '' = Some r2" "date_skip (sp # r3) '' '' = Some r3"
    "date_skip (sp # r4) '' '' = Some r4" "date_skip (sp # r5) '' '' = Some r5"
    using starts by (simp_all add: skip_comma skip_space)
  have "days * 86400 + s = t_sec t" by (simp add: days_def s_def)
  then have "day_number y m d * 86400 + hh * 3600 + mm * 60 + ss = t_sec t"
    using cal(1) h(7) by linarith
  moreover have "\<not> 24 \<le> hh" "\<not> 60 \<le> mm" "\<not> 60 \<le> ss" "\<not> d < 1" "\<not> month_lengths y ! m < d"
    using h d cal(4) by linarith+
  ultimately have "parse_http_layout (http_time_format t) = Some \<lparr>t_sec = t_sec t, t_nsec = 0\<rparr>"
    by (simp only: parse_http_layout_def written names nums skips skip_colon end_of_date Option.bind.bind_lunit prod.case
        simp_thms if_False)
  then show ?thesis by (simp add: http_parse_time_def truncate_second_def)
qed

end
