(* ===== verification/Cache.thy ===== *)
theory Cache
  imports App_Types Http_Date
begin

text \<open>
  Cache validators (httpserver/cache.go and the \<open>NotModified\<close> family of app.go): entity tags,
  If-None-Match and If-Modified-Since. The date parser of net/http is the parameter
  \<open>parse_time\<close>; theory \<open>Http_Date\<close> models the layout that it tries first.
\<close>

section \<open>The code\<close>

definition response_etag_value :: "bytes \<Rightarrow> app_err + bytes" where
  "response_etag_value etag0 =
     (let etag = trim etag0 [sp, tab] in
      if etag = [] \<or> etag = ''*'' \<or> contains_any etag [cr, lf] then Inl ErrInvalidCacheHeader
      else if has_prefix etag (''W/'' @ [dquote]) \<and> has_suffix etag [dquote] then Inr etag
      else if has_prefix etag [dquote] \<and> has_suffix etag [dquote] then Inr etag
      else if contains_any etag [dquote] then Inl ErrInvalidCacheHeader
      else Inr ([dquote] @ etag @ [dquote]))"

definition weak_etag_value :: "bytes \<Rightarrow> bytes" where
  "weak_etag_value etag = (if has_prefix etag ''W/'' then trim_prefix etag ''W/'' else etag)"

definition etag_candidate_matches :: "bytes \<Rightarrow> bytes \<Rightarrow> bool" where
  "etag_candidate_matches expected part =
     (let candidate = trim part [sp, tab]
      in candidate = ''*'' \<or> weak_etag_value candidate = weak_etag_value expected)"

fun etag_headers_match :: "header_field list \<Rightarrow> bytes \<Rightarrow> bool" where
  "etag_headers_match [] expected = False"
| "etag_headers_match (h # hs) expected =
     (if \<not> equal_fold (hname h) ''If-None-Match'' then etag_headers_match hs expected
      else if list_ex (etag_candidate_matches expected) (split_on CHR '','' (hvalue h)) then True
      else etag_headers_match hs expected)"

definition request_etag_matches :: "header_field list \<Rightarrow> bytes \<Rightarrow> bool" where
  "request_etag_matches hs etag =
     (case response_etag_value etag of Inl e \<Rightarrow> False | Inr expected \<Rightarrow> etag_headers_match hs expected)"

fun modified_since_loop :: "(bytes \<Rightarrow> go_time option) \<Rightarrow> header_field list \<Rightarrow> go_time \<Rightarrow> bool" where
  "modified_since_loop parse_time [] lastModified = False"
| "modified_since_loop parse_time (h # hs) lastModified =
     (if \<not> equal_fold (hname h) ''If-Modified-Since'' then modified_since_loop parse_time hs lastModified
      else (case parse_time (hvalue h) of
              None \<Rightarrow> False
            | Some since \<Rightarrow> \<not> time_after (truncate_second lastModified) since))"

definition request_not_modified_since :: "(bytes \<Rightarrow> go_time option) \<Rightarrow> header_field list \<Rightarrow> go_time \<Rightarrow> bool" where
  "request_not_modified_since parse_time hs lastModified =
     (if time_is_zero lastModified then False else modified_since_loop parse_time hs lastModified)"

text \<open>\<open>Request.NotModified\<close>: If-None-Match takes priority over If-Modified-Since.\<close>

definition if_none_match :: "request \<Rightarrow> bytes \<Rightarrow> bool" where
  "if_none_match r etag = request_etag_matches (http_headers r) etag"

definition if_modified_since :: "(bytes \<Rightarrow> go_time option) \<Rightarrow> request \<Rightarrow> go_time \<Rightarrow> bool" where
  "if_modified_since parse_time r lastModified =
     request_not_modified_since parse_time (http_headers r) lastModified"

definition not_modified :: "(bytes \<Rightarrow> go_time option) \<Rightarrow> request \<Rightarrow> bytes \<Rightarrow> go_time \<Rightarrow> bool" where
  "not_modified parse_time r etag lastModified =
     (if has_header (http_headers r) ''If-None-Match'' then if_none_match r etag
      else if_modified_since parse_time r lastModified)"

lemmas revalidation_defs = not_modified_def if_none_match_def if_modified_since_def

definition http_time :: "go_time \<Rightarrow> bytes" where
  "http_time t = http_time_format t"

definition invalid_cache_header_value :: "bytes \<Rightarrow> bool" where
  "invalid_cache_header_value v \<longleftrightarrow> v = [] \<or> contains_any v [cr, lf]"

section \<open>Lemmas\<close>

lemma response_etag_valueD:
  assumes "response_etag_value etag = Inr E"
  shows "cr \<notin> set E" "lf \<notin> set E" "E \<noteq> ''*''" "has_suffix E [dquote]"
    "has_prefix E [dquote] \<or> has_prefix E (''W/'' @ [dquote])" "trim E [sp, tab] = E"
proof -
  let ?t = "trim etag [sp, tab]"
  from assms have no: "\<not> contains_any ?t [cr, lf]" and
    cases: "E = ?t \<and> ?t \<noteq> ''*'' \<and> has_suffix ?t [dquote] \<and> (has_prefix ?t [dquote] \<or> has_prefix ?t (''W/'' @ [dquote])) \<or>
      E = [dquote] @ ?t @ [dquote]"
    by (auto simp: response_etag_value_def Let_def split: if_splits)
  then show "cr \<notin> set E" "lf \<notin> set E" by (auto simp: contains_any_set)
  from cases show "E \<noteq> ''*''" "has_suffix E [dquote]" "has_prefix E [dquote] \<or> has_prefix E (''W/'' @ [dquote])"
    by (auto simp: has_suffix_def has_prefix_def suffix_def)
  from cases show "trim E [sp, tab] = E"
  proof
    assume "E = [dquote] @ ?t @ [dquote]"
    then show ?thesis by (intro trim_id) auto
  qed (metis trim_idem)
qed

lemma etag_headers_match_values:
  "etag_headers_match hs e \<longleftrightarrow>
     (\<exists>v\<in>set (field_values hs ''If-None-Match''). \<exists>p\<in>set (split_on CHR '','' v). etag_candidate_matches e p)"
  by (induction hs e rule: etag_headers_match.induct) (auto simp: list_ex_iff)

lemma modified_since_values:
  "modified_since_loop pt hs lm =
     (case field_values hs ''If-Modified-Since'' of [] \<Rightarrow> False
      | v # _ \<Rightarrow> (case pt v of None \<Rightarrow> False | Some since \<Rightarrow> \<not> time_after (truncate_second lm) since))"
  by (induction pt hs lm rule: modified_since_loop.induct) auto

lemma split_tag_list:
  "es \<noteq> [] \<Longrightarrow> \<forall>e\<in>set es. CHR '','' \<notin> set e \<and> trim e [sp, tab] = e \<Longrightarrow>
     map (\<lambda>p. trim p [sp, tab]) (split_on CHR '','' (join '', '' es)) = es"
proof (induction es rule: induct_list012)
  case (3 e f es)
  have "split_on CHR '','' (CHR '' '' # s) = (case split_on CHR '','' s of y # ys \<Rightarrow> (CHR '' '' # y) # ys)" for s
    by (cases "split_on CHR '','' s") auto
  moreover have "trim (sp # s) [sp, tab] = trim s [sp, tab]" for s
    by (simp add: trim_def trim_left_def)
  ultimately show ?case
    using 3 by (cases "split_on CHR '','' (join '', '' (f # es))") auto
qed auto

section \<open>Properties\<close>


definition if_none_match_request :: "bytes \<Rightarrow> request" where
  "if_none_match_request v = \<lparr>req_context = None, req_http = \<lparr>request_line = \<lparr>rl_method = ''GET'',
     rl_target = ''/'', rl_version = ''HTTP/1.1''\<rparr>, req_headers = [HeaderField ''If-None-Match'' v],
     req_body = []\<rparr>, req_params = None\<rparr>"


text \<open>
  An entity tag that contains a comma is accepted, but a client that sends it back is never
  told "not modified": If-None-Match is split at every comma, also inside the quotes.
\<close>

theorem comma_etag_never_matches:
  assumes "response_etag_value etag = Inr E" "CHR '','' \<in> set E"
    and "field_values (http_headers r) ''If-None-Match'' = [E]"
    and "\<forall>p\<in>set (split_on CHR '','' E). trim p [sp, tab] \<noteq> ''*''"
  shows "\<not> not_modified parse_time r etag lastModified"
proof -
  have "CHR '','' \<in> set (weak_etag_value E)"
    using assms(2) by (auto simp: weak_etag_value_def trim_prefix_def has_prefix_def prefix_def)
  moreover have nc: "CHR '','' \<notin> set (weak_etag_value (trim p [sp, tab]))" if "p \<in> set (split_on CHR '','' E)" for p
    using split_on_pieces[OF that] set_trim[of p "[sp, tab]"]
    by (auto simp: weak_etag_value_def trim_prefix_def dest: in_set_dropD)
  ultimately have "weak_etag_value (trim p [sp, tab]) \<noteq> weak_etag_value E"
    if "p \<in> set (split_on CHR '','' E)" for p
    using that by metis
  then have "\<not> etag_candidate_matches E p" if "p \<in> set (split_on CHR '','' E)" for p
    using that assms(4) by (simp add: etag_candidate_matches_def Let_def)
  then have "\<not> request_etag_matches (http_headers r) etag"
    using assms by (simp add: request_etag_matches_def etag_headers_match_values)
  then show ?thesis
    using assms(3) by (simp add: revalidation_defs has_header_field_values)
qed

theorem comma_etag_never_matches_witness:
  "\<not> not_modified (\<lambda>_. None) (if_none_match_request ([dquote] @ ''a,b'' @ [dquote])) ''a,b'' zero_time"
proof -
  let ?E = "[dquote] @ ''a,b'' @ [dquote]"
  have E: "response_etag_value ''a,b'' = Inr ?E" by code_simp
  have c: "CHR '','' \<in> set ?E" by simp
  have f: "field_values (http_headers (if_none_match_request ?E)) ''If-None-Match'' = [?E]" by code_simp
  have p: "\<forall>p\<in>set (split_on CHR '','' ?E). trim p [sp, tab] \<noteq> ''*''" by code_simp
  show ?thesis by (rule comma_etag_never_matches[OF E c f p])
qed

text \<open>
  C38. Revalidation by date, without If-None-Match: when the first If-Modified-Since is a date that
  the server has formatted (as it does for Last-Modified), in any year that fits the format, the
  answer is "not modified" exactly when the representation is not newer in whole seconds. A
  representation with no modification time is always sent.
\<close>

theorem last_modified_revalidates:
  assumes "\<not> has_header (http_headers r) ''If-None-Match''"
    and "field_values (http_headers r) ''If-Modified-Since'' = http_time since # vs"
    and "fst (civil_date (t_sec since div 86400)) \<in> {0..9999}"
  shows "not_modified (http_parse_time legacy) r etag lastModified \<longleftrightarrow>
    lastModified \<noteq> zero_time \<and> t_sec lastModified \<le> t_sec since"
proof -
  obtain y m d where "civil_date (t_sec since div 86400) = (y, m, d)" by (metis prod_cases3)
  then have "http_parse_time legacy (http_time since) = Some (truncate_second since)"
    using assms(3) unfolding http_time_def by (auto intro: parse_http_time_format)
  with assms(1, 2) show ?thesis
    by (auto simp: revalidation_defs request_not_modified_since_def modified_since_values time_is_zero_def
        time_after_def truncate_second_def)
qed

theorem last_modified_revalidates_witness:
  "not_modified (http_parse_time (\<lambda>_. None))
     \<lparr>req_context = None, req_http = \<lparr>request_line = \<lparr>rl_method = ''GET'', rl_target = ''/'', rl_version = ''HTTP/1.1''\<rparr>,
       req_headers = [HeaderField ''If-Modified-Since'' ''Sun, 06 Nov 1994 08:49:37 GMT''], req_body = []\<rparr>,
       req_params = None\<rparr> [] \<lparr>t_sec = 62919708577, t_nsec = 500\<rparr>"
proof -
  let ?d = "''Sun, 06 Nov 1994 08:49:37 GMT''"
  let ?t = "\<lparr>t_sec = 62919708577, t_nsec = 500\<rparr> :: go_time"
  let ?r = "\<lparr>req_context = None, req_http = \<lparr>request_line = \<lparr>rl_method = ''GET'', rl_target = ''/'',
      rl_version = ''HTTP/1.1''\<rparr>, req_headers = [HeaderField ''If-Modified-Since'' ?d], req_body = []\<rparr>,
      req_params = None\<rparr>"
  have d: "http_time ?t = ?d" by code_simp
  have h: "\<not> has_header (http_headers ?r) ''If-None-Match''" by code_simp
  have v: "field_values (http_headers ?r) ''If-Modified-Since'' = [http_time ?t]" unfolding d by code_simp
  have "civil_date (t_sec ?t div 86400) = (1994, 10, 6)" by code_simp
  then have y: "fst (civil_date (t_sec ?t div 86400)) \<in> {0..9999}" by simp
  have z: "?t \<noteq> zero_time" by code_simp
  show ?thesis
    by (rule last_modified_revalidates[THEN iffD2, OF h v y conjI[OF z order.refl]])
qed

end
