(* ===== verification/Byte_Range.thy ===== *)
theory Byte_Range
  imports App_Types
begin

text \<open>
  Byte ranges (httpserver/range.go): the Range header of a request resolved against the size
  of a representation. The three results of the code, no range, an error with the range
  present, and a range, are \<open>Inr None\<close>, \<open>Inl\<close> and \<open>Inr (Some r)\<close>.
\<close>

section \<open>The code\<close>

record byte_range =
  br_start :: int
  br_end :: int
  br_length :: int

definition new_byte_range :: "int \<Rightarrow> int \<Rightarrow> byte_range" where
  "new_byte_range st en = \<lparr>br_start = st, br_end = en, br_length = en - st + 1\<rparr>"

definition parse_range_number :: "bytes \<Rightarrow> app_err + int" where
  "parse_range_number v =
     (if v = [] \<or> contains_any v [sp, tab, CHR ''+''] \<or> has_prefix v ''-'' then Inl ErrInvalidRange
      else (case parse_int64 v of
              None \<Rightarrow> Inl ErrInvalidRange
            | Some n \<Rightarrow> if n < 0 then Inl ErrInvalidRange else Inr n))"

definition closed_byte_range :: "bytes \<Rightarrow> bytes \<Rightarrow> int \<Rightarrow> app_err + byte_range option" where
  "closed_byte_range startText endText size' =
     (case parse_range_number startText of
        Inl e \<Rightarrow> Inl e
      | Inr st \<Rightarrow>
     (case parse_range_number endText of
        Inl e \<Rightarrow> Inl e
      | Inr en \<Rightarrow>
          if en < st \<or> size' \<le> st then Inl ErrInvalidRange
          else Inr (Some (new_byte_range st (if size' \<le> en then size' - 1 else en)))))"

definition open_ended_byte_range :: "bytes \<Rightarrow> int \<Rightarrow> app_err + byte_range option" where
  "open_ended_byte_range startText size' =
     (case parse_range_number startText of
        Inl e \<Rightarrow> Inl e
      | Inr st \<Rightarrow> if size' \<le> st then Inl ErrInvalidRange else Inr (Some (new_byte_range st (size' - 1))))"

definition suffix_byte_range :: "bytes \<Rightarrow> int \<Rightarrow> app_err + byte_range option" where
  "suffix_byte_range lengthText size' =
     (case parse_range_number lengthText of
        Inl e \<Rightarrow> Inl e
      | Inr len \<Rightarrow>
          if len = 0 then Inl ErrInvalidRange
          else (let l = (if size' < len then size' else len)
                in Inr (Some (new_byte_range (size' - l) (size' - 1)))))"

definition request_byte_range :: "header_field list \<Rightarrow> int \<Rightarrow> app_err + byte_range option" where
  "request_byte_range hs size' =
     (let val = header_value_fold hs ''Range'' in
      if val = [] then Inr None
      else if size' < 0 then Inl ErrInvalidRange
      else if \<not> has_prefix (trim val [sp, tab]) ''bytes='' then Inl ErrInvalidRange
      else (let spec = trim_prefix (trim val [sp, tab]) ''bytes='' in
        if CHR '','' \<in> set spec then Inl ErrInvalidRange
        else (case cut (trim spec [sp, tab]) CHR ''-'' of (startText, endText, ok) \<Rightarrow>
          if \<not> ok then Inl ErrInvalidRange
          else if startText = [] then suffix_byte_range endText size'
          else if endText = [] then open_ended_byte_range startText size'
          else closed_byte_range startText endText size')))"

text \<open>\<open>Request.ByteRange\<close>.\<close>

definition request_range :: "request \<Rightarrow> int \<Rightarrow> app_err + byte_range option" where
  "request_range r size' = request_byte_range (http_headers r) size'"

definition content_range :: "byte_range \<Rightarrow> int \<Rightarrow> bytes" where
  "content_range r size' =
     ''bytes '' @ format_int (br_start r) @ ''-'' @ format_int (br_end r) @ ''/'' @ format_int size'"

section \<open>Lemmas\<close>

lemma parse_range_number_range: "parse_range_number v = Inr n \<Longrightarrow> 0 \<le> n \<and> n \<le> max_int64"
  by (auto simp: parse_range_number_def split: if_splits option.splits dest: parse_int64_range)

lemma format_int_digits: "0 \<le> i \<Longrightarrow> c \<in> set (format_int i) \<Longrightarrow> is_digit c"
  by (auto simp: format_int_def dest: nat_dec_set)

lemma format_int_ne [simp]: "format_int i \<noteq> []"
  by (simp add: format_int_def)

lemma is_digit_chars:
  "is_digit c \<Longrightarrow> c \<noteq> CHR ''-'' \<and> c \<noteq> CHR ''+'' \<and> c \<noteq> CHR '','' \<and> c \<noteq> sp \<and> c \<noteq> tab"
  by (auto simp: is_digit_def)

lemma format_int_plain:
  assumes "0 \<le> i"
  shows "CHR ''-'' \<notin> set (format_int i)" "CHR '','' \<notin> set (format_int i)"
    "sp \<notin> set (format_int i)" "tab \<notin> set (format_int i)" "CHR ''+'' \<notin> set (format_int i)"
  using format_int_digits[OF assms] is_digit_chars by blast+

lemma parse_range_number_format:
  "0 \<le> i \<Longrightarrow> i \<le> max_int64 \<Longrightarrow> parse_range_number (format_int i) = Inr i"
proof -
  assume i: "0 \<le> i" "i \<le> max_int64"
  have "\<not> contains_any (format_int i) [sp, tab, CHR ''+'']"
    using format_int_plain[OF i(1)] by (simp add: contains_any_set)
  moreover have "\<not> has_prefix (format_int i) ''-''"
    using format_int_plain(1)[OF i(1)] by (cases "format_int i") (auto simp: has_prefix_def)
  ultimately show ?thesis using i parse_format_int[of i] by (simp add: parse_range_number_def)
qed

text \<open>A Range value \<open>bytes=\<close> followed by a specification without blanks or commas reaches the three forms directly.\<close>

lemma request_byte_range_spec:
  assumes "header_value_fold hs ''Range'' = ''bytes='' @ a @ ''-'' @ b"
    and "CHR ''-'' \<notin> set a" "\<not> contains_any (a @ b) [sp, tab, CHR '','']" "0 \<le> size'"
  shows "request_byte_range hs size' =
    (if a = [] then suffix_byte_range b size'
     else if b = [] then open_ended_byte_range a size' else closed_byte_range a b size')"
proof -
  let ?v = "''bytes='' @ a @ ''-'' @ b"
  have nb: "x \<notin> {sp, tab}" if "x \<in> set (a @ ''-'' @ b)" for x
    using assms(3) that by (auto simp: contains_any_set)
  have t1: "trim ?v [sp, tab] = ?v"
  proof (rule trim_id)
    have "last ?v \<in> set (a @ ''-'' @ b)" by (cases b rule: rev_cases) auto
    then show "?v = [] \<or> hd ?v \<notin> set [sp, tab] \<and> last ?v \<notin> set [sp, tab]"
      using nb by auto
  qed
  have t2: "trim (a @ ''-'' @ b) [sp, tab] = a @ ''-'' @ b"
    by (rule trim_disjoint) (use nb in auto)
  have p: "has_prefix ?v ''bytes=''" "trim_prefix ?v ''bytes='' = a @ ''-'' @ b"
    by (simp_all add: has_prefix_def trim_prefix_def)
  have c: "CHR '','' \<notin> set (a @ ''-'' @ b)" using assms(3) by (auto simp: contains_any_set)
  have cut: "cut (a @ ''-'' @ b) CHR ''-'' = (a, b, True)" using assms(2) by simp
  show ?thesis
    unfolding request_byte_range_def assms(1) Let_def t1 p(2)
    using p(1) c assms(4) by (simp only: t2 cut) simp
qed

section \<open>Properties\<close>



lemma request_byte_range_sound:
  assumes "request_byte_range hs size' = Inr (Some r)"
  shows "0 \<le> size' \<and> 0 \<le> br_start r \<and> br_end r < size' \<and> br_length r = br_end r - br_start r + 1 \<and>
    0 \<le> br_length r \<and> br_length r \<le> size' \<and> (0 < size' \<longrightarrow> br_start r \<le> br_end r)"
proof -
  from assms have sz: "0 \<le> size'"
    by (auto simp: request_byte_range_def Let_def split: if_splits)
  from assms obtain a b where "suffix_byte_range b size' = Inr (Some r) \<or>
      open_ended_byte_range a size' = Inr (Some r) \<or> closed_byte_range a b size' = Inr (Some r)"
    by (auto simp: request_byte_range_def Let_def split: if_splits prod.splits)
  with sz show ?thesis
    by (auto simp: suffix_byte_range_def open_ended_byte_range_def closed_byte_range_def new_byte_range_def
        Let_def split: sum.splits if_splits dest!: parse_range_number_range)
qed

text \<open>
  A resolved range lies inside the representation: its bounds and its length are consistent,
  nothing overflows, and it is not empty unless the representation is.
\<close>

theorem request_byte_range_inside:
  assumes "request_byte_range hs size' = Inr (Some r)" "size' \<le> max_int64"
  shows "0 \<le> br_start r \<and> br_end r < size' \<and> br_length r = br_end r - br_start r + 1 \<and>
    0 \<le> br_length r \<and> br_length r \<le> max_int64 \<and> (0 < size' \<longrightarrow> br_start r \<le> br_end r)"
  using request_byte_range_sound[OF assms(1)] assms(2) by auto

theorem request_byte_range_inside_witness:
  "br_end (new_byte_range 7 9) < 10 \<and> br_length (new_byte_range 7 9) \<le> max_int64"
proof -
  have r: "request_byte_range [HeaderField ''Range'' ''bytes=-3''] 10 = Inr (Some (new_byte_range 7 9))"
    by code_simp
  show ?thesis using request_byte_range_inside[OF r] by simp
qed

text \<open>
  On an empty representation a suffix range is reported as satisfiable, with an end before
  its start, although no byte can be selected: the range that is returned is one that
  \<open>StreamRange\<close> refuses.
\<close>

theorem suffix_range_of_empty:
  assumes "1 \<le> b" "b \<le> max_int64" "header_value_fold hs ''Range'' = ''bytes=-'' @ format_int b"
  shows "request_byte_range hs 0 = Inr (Some \<lparr>br_start = 0, br_end = -1, br_length = 0\<rparr>)"
proof -
  have "request_byte_range hs 0 =
      (if b = 0 then Inl ErrInvalidRange else Inr (Some (new_byte_range (0 - min b 0) (0 - 1))))"
    using request_byte_range_spec[of hs "[]" "format_int b" 0] assms format_int_plain[of b]
    by (simp add: contains_any_set suffix_byte_range_def parse_range_number_format min_def Let_def)
  with assms(1) show ?thesis by (simp add: new_byte_range_def)
qed

theorem suffix_range_of_empty_witness:
  "request_byte_range [HeaderField ''range'' ''bytes=-5''] 0 =
     Inr (Some \<lparr>br_start = 0, br_end = -1, br_length = 0\<rparr>)"
proof -
  have "header_value_fold [HeaderField ''range'' ''bytes=-5''] ''Range'' = ''bytes=-'' @ format_int 5"
    by code_simp
  then show ?thesis using suffix_range_of_empty[of 5] by simp
qed

end
