(* ===== verification/Cookie.thy ===== *)
theory Cookie
  imports App_Types Go_Time
begin

text \<open>
  Cookies (httpserver/cookie.go): the Cookie header of a request and the Set-Cookie value of a
  response, and, as the specification, how a user agent takes a Set-Cookie value apart.
\<close>

section \<open>The code\<close>

record cookie =
  ck_name :: bytes
  ck_value :: bytes
  ck_path :: bytes
  ck_domain :: bytes
  ck_expires :: go_time
  ck_max_age :: int
  ck_secure :: bool
  ck_http_only :: bool
  ck_same_site :: bytes

text \<open>The composite literal that sets only the name and the value.\<close>

definition plain_cookie :: "bytes \<Rightarrow> bytes \<Rightarrow> cookie" where
  "plain_cookie n v = \<lparr>ck_name = n, ck_value = v, ck_path = [], ck_domain = [], ck_expires = zero_time,
     ck_max_age = 0, ck_secure = False, ck_http_only = False, ck_same_site = []\<rparr>"

definition invalid_cookie_name :: "bytes \<Rightarrow> bool" where
  "invalid_cookie_name name \<longleftrightarrow> name = [] \<or> contains_any name [sp, tab, cr, lf, CHR ''='', CHR '';'']"

definition invalid_request_cookie_value :: "bytes \<Rightarrow> bool" where
  "invalid_request_cookie_value v = contains_any v [cr, lf, CHR '';'']"

definition invalid_set_cookie_value :: "bytes \<Rightarrow> bool" where
  "invalid_set_cookie_value v = contains_any v [cr, lf, CHR '';'']"

definition invalid_cookie_attribute_value :: "bytes \<Rightarrow> bool" where
  "invalid_cookie_attribute_value v = contains_any v [cr, lf, CHR '';'']"

text \<open>The body of the inner loop: the cookie of one part of a Cookie header, if it has one.\<close>

definition cookie_part :: "bytes \<Rightarrow> cookie list" where
  "cookie_part part =
     (case cut (trim part [sp, tab]) CHR ''='' of (name, v, ok) \<Rightarrow>
        if \<not> ok \<or> invalid_cookie_name name \<or> invalid_request_cookie_value v then []
        else [plain_cookie name v])"

fun request_cookies :: "header_field list \<Rightarrow> cookie list" where
  "request_cookies [] = []"
| "request_cookies (h # hs) =
     (if \<not> equal_fold (hname h) ''Cookie'' then request_cookies hs
      else concat (map cookie_part (split_on CHR '';'' (hvalue h))) @ request_cookies hs)"

text \<open>\<open>Request.Cookies\<close>, and \<open>Request.Cookie\<close>: the first cookie with a name.\<close>

definition cookies :: "request \<Rightarrow> cookie list" where
  "cookies r = request_cookies (http_headers r)"

definition request_cookie :: "request \<Rightarrow> bytes \<Rightarrow> cookie option" where
  "request_cookie r name = List.find (\<lambda>c. ck_name c = name) (cookies r)"

definition set_cookie_value :: "cookie \<Rightarrow> app_err + bytes" where
  "set_cookie_value c =
     (if invalid_cookie_name (ck_name c) then Inl ErrInvalidCookie
      else if invalid_set_cookie_value (ck_value c) then Inl ErrInvalidCookie
      else if ck_path c \<noteq> [] \<and> invalid_cookie_attribute_value (ck_path c) then Inl ErrInvalidCookie
      else if ck_domain c \<noteq> [] \<and> invalid_cookie_attribute_value (ck_domain c) then Inl ErrInvalidCookie
      else if ck_same_site c \<noteq> [] \<and> invalid_cookie_attribute_value (ck_same_site c) then Inl ErrInvalidCookie
      else Inr (ck_name c @ ''='' @ ck_value c @
        (if ck_path c \<noteq> [] then ''; Path='' @ ck_path c else []) @
        (if ck_domain c \<noteq> [] then ''; Domain='' @ ck_domain c else []) @
        (if \<not> time_is_zero (ck_expires c) then ''; Expires='' @ http_time_format (ck_expires c) else []) @
        (if 0 < ck_max_age c then ''; Max-Age='' @ format_int (ck_max_age c)
         else if ck_max_age c < 0 then ''; Max-Age=0'' else []) @
        (if ck_secure c then ''; Secure'' else []) @
        (if ck_http_only c then ''; HttpOnly'' else []) @
        (if ck_same_site c \<noteq> [] then ''; SameSite='' @ ck_same_site c else [])))"

section \<open>How a user agent reads a Set-Cookie value\<close>

text \<open>
  RFC 6265, section 5.2: the first part up to a semicolon is the pair of the cookie, every other
  part is an attribute, both with surrounding blanks removed from name and value. The result
  keeps the attributes in the order they appear.
\<close>

definition name_value :: "bytes \<Rightarrow> bytes \<times> bytes" where
  "name_value part =
     (case cut part CHR ''='' of (name, v, ok) \<Rightarrow> (trim name [sp, tab], trim v [sp, tab]))"

definition read_set_cookie :: "bytes \<Rightarrow> (bytes \<times> bytes) \<times> (bytes \<times> bytes) list" where
  "read_set_cookie s =
     (case map name_value (split_on CHR '';'' s) of [] \<Rightarrow> (([], []), []) | p # ps \<Rightarrow> (p, ps))"

text \<open>The attributes a cookie asks for.\<close>

definition cookie_attributes :: "cookie \<Rightarrow> (bytes \<times> bytes) list" where
  "cookie_attributes c =
     (if ck_path c \<noteq> [] then [(''Path'', trim (ck_path c) [sp, tab])] else []) @
     (if ck_domain c \<noteq> [] then [(''Domain'', trim (ck_domain c) [sp, tab])] else []) @
     (if \<not> time_is_zero (ck_expires c) then [(''Expires'', trim (http_time_format (ck_expires c)) [sp, tab])] else []) @
     (if ck_max_age c = 0 then [] else [(''Max-Age'', format_int (max 0 (ck_max_age c)))]) @
     (if ck_secure c then [(''Secure'', [])] else []) @
     (if ck_http_only c then [(''HttpOnly'', [])] else []) @
     (if ck_same_site c \<noteq> [] then [(''SameSite'', trim (ck_same_site c) [sp, tab])] else [])"

section \<open>Lemmas\<close>

lemma invalid_cookie_name_iff:
  "\<not> invalid_cookie_name n \<longleftrightarrow> n \<noteq> [] \<and> sp \<notin> set n \<and> tab \<notin> set n \<and> cr \<notin> set n \<and> lf \<notin> set n \<and>
     CHR ''='' \<notin> set n \<and> CHR '';'' \<notin> set n"
  by (auto simp: invalid_cookie_name_def contains_any_set)

lemma trim_cookie_name: "\<not> invalid_cookie_name n \<Longrightarrow> trim n [sp, tab] = n"
  by (rule trim_disjoint) (auto simp: invalid_cookie_name_iff)

text \<open>The written attributes as parts: splitting the value at semicolons gives them back.\<close>

definition attribute_parts :: "cookie \<Rightarrow> bytes list" where
  "attribute_parts c =
     (if ck_path c \<noteq> [] then ['' Path='' @ ck_path c] else []) @
     (if ck_domain c \<noteq> [] then ['' Domain='' @ ck_domain c] else []) @
     (if \<not> time_is_zero (ck_expires c) then ['' Expires='' @ http_time_format (ck_expires c)] else []) @
     (if 0 < ck_max_age c then ['' Max-Age='' @ format_int (ck_max_age c)]
      else if ck_max_age c < 0 then ['' Max-Age=0''] else []) @
     (if ck_secure c then ['' Secure''] else []) @
     (if ck_http_only c then ['' HttpOnly''] else []) @
     (if ck_same_site c \<noteq> [] then ['' SameSite='' @ ck_same_site c] else [])"

lemma split_parts:
  "CHR '';'' \<notin> set p \<Longrightarrow> \<forall>q\<in>set ps. CHR '';'' \<notin> set q \<Longrightarrow>
     split_on CHR '';'' (p @ concat (map (\<lambda>q. '';'' @ q) ps)) = p # ps"
  by (induction ps arbitrary: p) auto

lemma format_int_semicolon: "0 < i \<Longrightarrow> CHR '';'' \<notin> set (format_int i)"
  by (auto simp: format_int_def dest!: nat_dec_set simp: is_digit_def)

lemma concat_map_if: "concat (map f (if b then xs else ys)) = (if b then concat (map f xs) else concat (map f ys))"
  by simp

lemma attribute_parts_ok:
  assumes "set_cookie_value c = Inr s"
  shows "s = (ck_name c @ ''='' @ ck_value c) @ concat (map (\<lambda>q. '';'' @ q) (attribute_parts c)) \<and>
    (\<forall>q\<in>set (attribute_parts c). CHR '';'' \<notin> set q) \<and>
    \<not> invalid_cookie_name (ck_name c) \<and> \<not> invalid_set_cookie_value (ck_value c)"
proof -
  have guards: "invalid_cookie_name (ck_name c) = False" "invalid_set_cookie_value (ck_value c) = False"
      "(ck_path c \<noteq> [] \<and> invalid_cookie_attribute_value (ck_path c)) = False"
      "(ck_domain c \<noteq> [] \<and> invalid_cookie_attribute_value (ck_domain c)) = False"
      "(ck_same_site c \<noteq> [] \<and> invalid_cookie_attribute_value (ck_same_site c)) = False"
    using assms unfolding set_cookie_value_def by (metis Inl_Inr_False)+
  then have ok: "\<not> invalid_cookie_name (ck_name c)" "\<not> invalid_set_cookie_value (ck_value c)"
      "CHR '';'' \<notin> set (ck_path c)" "CHR '';'' \<notin> set (ck_domain c)" "CHR '';'' \<notin> set (ck_same_site c)"
    by (auto simp: invalid_cookie_attribute_value_def contains_any_set)
  have "CHR '';'' \<notin> set (http_time_format t)" for t
    using http_time_format_plain by blast
  then have "\<forall>q\<in>set (attribute_parts c). CHR '';'' \<notin> set q"
    using ok format_int_semicolon by (auto simp: attribute_parts_def)
  moreover have "s = (ck_name c @ ''='' @ ck_value c) @ concat (map (\<lambda>q. '';'' @ q) (attribute_parts c))"
  proof -
    have "set_cookie_value c =
        Inr ((ck_name c @ ''='' @ ck_value c) @ concat (map (\<lambda>q. '';'' @ q) (attribute_parts c)))"
      using guards unfolding set_cookie_value_def attribute_parts_def map_append concat_append concat_map_if
      by (simp only: if_False) simp
    with assms show ?thesis by simp
  qed
  ultimately show ?thesis using ok by blast
qed

lemma trim_leading: "trim (sp # s) [sp, tab] = trim s [sp, tab]"
  by (simp add: trim_def trim_left_def)

lemma name_value_pair:
  "CHR ''='' \<notin> set n \<Longrightarrow> name_value (n @ CHR ''='' # v) = (trim n [sp, tab], trim v [sp, tab])"
  by (simp add: name_value_def)

lemma format_int_trim: "0 \<le> i \<Longrightarrow> trim (format_int i) [sp, tab] = format_int i"
  by (rule trim_disjoint) (auto simp: format_int_def dest!: nat_dec_set simp: is_digit_def)

lemma name_value_parts: "map name_value (attribute_parts c) = cookie_attributes c"
proof -
  have eq: "name_value ('' Path='' @ v) = (''Path'', trim v [sp, tab])"
    "name_value ('' Domain='' @ v) = (''Domain'', trim v [sp, tab])"
    "name_value ('' Expires='' @ v) = (''Expires'', trim v [sp, tab])"
    "name_value ('' Max-Age='' @ v) = (''Max-Age'', trim v [sp, tab])"
    "name_value ('' SameSite='' @ v) = (''SameSite'', trim v [sp, tab])" for v
    using name_value_pair[of "'' Path''" v] name_value_pair[of "'' Domain''" v]
      name_value_pair[of "'' Expires''" v] name_value_pair[of "'' Max-Age''" v]
      name_value_pair[of "'' SameSite''" v]
    by (simp_all add: trim_def trim_left_def trim_right_def)
  have flag: "name_value '' Secure'' = (''Secure'', [])" "name_value '' HttpOnly'' = (''HttpOnly'', [])"
    "name_value '' Max-Age=0'' = (''Max-Age'', ''0'')"
    by code_simp+
  have zero: "format_int 0 = ''0''" by code_simp
  show ?thesis
    unfolding attribute_parts_def cookie_attributes_def map_append if_distrib[of "map name_value"]
      list.map eq flag
    using format_int_trim[of "ck_max_age c"] zero by (auto simp: max_def)
qed

lemma cookie_attributes_no_ctl:
  assumes "set_cookie_value c = Inr s"
  shows "cr \<notin> set s \<and> lf \<notin> set s"
proof -
  have ok: "\<not> invalid_cookie_name (ck_name c)" "\<not> invalid_set_cookie_value (ck_value c)"
      "ck_path c = [] \<or> \<not> invalid_cookie_attribute_value (ck_path c)"
      "ck_domain c = [] \<or> \<not> invalid_cookie_attribute_value (ck_domain c)"
      "ck_same_site c = [] \<or> \<not> invalid_cookie_attribute_value (ck_same_site c)"
    using assms unfolding set_cookie_value_def by (metis Inl_Inr_False)+
  have "\<not> contains_any (format_int i) [cr, lf]" for i by (rule format_int_no_ctl) simp
  moreover have "cr \<notin> set (http_time_format t) \<and> lf \<notin> set (http_time_format t)" for t
    using http_time_format_plain by blast
  ultimately have "cr \<notin> set q \<and> lf \<notin> set q" if "q \<in> set (attribute_parts c)" for q
    using that ok(3-5) unfolding attribute_parts_def
    by (auto simp: invalid_cookie_attribute_value_def contains_any_set split: if_splits)
  then show ?thesis
    using attribute_parts_ok[OF assms] ok(1,2)
    by (auto simp: invalid_cookie_name_iff invalid_set_cookie_value_def contains_any_set)
qed

text \<open>One part of a Cookie header as a client writes it.\<close>

definition sendable_cookie :: "bytes \<Rightarrow> bytes \<Rightarrow> bool" where
  "sendable_cookie n v \<longleftrightarrow> \<not> invalid_cookie_name n \<and> \<not> invalid_request_cookie_value v \<and>
     (v = [] \<or> last v \<notin> {sp, tab})"

lemma cookie_part_sendable:
  assumes "sendable_cookie n v"
  shows "cookie_part (n @ ''='' @ v) = [plain_cookie n v]" "cookie_part (sp # n @ ''='' @ v) = [plain_cookie n v]"
proof -
  have n: "n \<noteq> []" "CHR ''='' \<notin> set n" "sp \<notin> set n" "tab \<notin> set n"
    and v: "\<not> invalid_request_cookie_value v" "\<not> invalid_cookie_name n" "v = [] \<or> last v \<notin> {sp, tab}"
    using assms by (auto simp: sendable_cookie_def invalid_cookie_name_iff)
  from n have "hd n \<notin> set [sp, tab]" by (cases n) auto
  then have t: "trim (n @ CHR ''='' # v) [sp, tab] = n @ CHR ''='' # v"
    by (intro trim_id) (use n v(3) in auto)
  show "cookie_part (n @ ''='' @ v) = [plain_cookie n v]" "cookie_part (sp # n @ ''='' @ v) = [plain_cookie n v]"
    using n v by (simp_all add: cookie_part_def t trim_leading)
qed

lemma sendable_cookie_part: "sendable_cookie n v \<Longrightarrow> CHR '';'' \<notin> set (n @ ''='' @ v)"
  by (auto simp: sendable_cookie_def invalid_cookie_name_iff invalid_request_cookie_value_def contains_any_set)

lemma split_cookie_header:
  "ps \<noteq> [] \<Longrightarrow> \<forall>(n, v)\<in>set ps. sendable_cookie n v \<Longrightarrow>
     concat (map cookie_part (split_on CHR '';'' (join ''; '' (map (\<lambda>(n, v). n @ ''='' @ v) ps)))) =
     map (\<lambda>(n, v). plain_cookie n v) ps"
proof -
  assume ne: "ps \<noteq> []" and ok: "\<forall>(n, v)\<in>set ps. sendable_cookie n v"
  let ?w = "\<lambda>(n, v). n @ CHR ''='' # v"
  have rest: "concat (map (cookie_part \<circ> (#) sp \<circ> ?w) qs) = map (\<lambda>(n, v). plain_cookie n v) qs"
    if "\<forall>(n, v)\<in>set qs. sendable_cookie n v" for qs
    using that by (induction qs) (auto simp: cookie_part_sendable(2)[simplified])
  have jn: "join ''; '' (map ?w (q # qs)) = ?w q @ concat (map (\<lambda>x. '';'' @ x) (map ((#) sp \<circ> ?w) qs))" for q qs
    by (induction qs arbitrary: q) (auto simp: join_Cons)
  obtain n v qs where ps: "ps = (n, v) # qs" using ne by (cases ps) auto
  have "CHR '';'' \<notin> set (?w q)" if "q \<in> set ps" for q
    using that ok sendable_cookie_part[of "fst q" "snd q"] by (cases q) auto
  then have "split_on CHR '';'' (join ''; '' (map ?w ps)) = ?w (n, v) # map ((#) sp \<circ> ?w) qs"
    unfolding ps jn by (intro split_parts) (auto simp: ps)
  then show ?thesis
    using ok rest[of qs] cookie_part_sendable(1)[of n v] by (simp add: ps comp_assoc)
qed

section \<open>Properties\<close>

text \<open>
  C35. Set-Cookie integrity: when the value is accepted, a user agent that reads it gets the
  cookie's name and value and exactly the attributes that were set, none of them injected by
  another field, and no byte ends the header line.
\<close>

theorem set_cookie_reads_back:
  assumes "set_cookie_value c = Inr s"
  shows "read_set_cookie s = ((ck_name c, trim (ck_value c) [sp, tab]), cookie_attributes c) \<and>
    cr \<notin> set s \<and> lf \<notin> set s"
proof -
  note p = attribute_parts_ok[OF assms]
  have "CHR '';'' \<notin> set (ck_name c @ ''='' @ ck_value c)"
    using p by (auto simp: invalid_cookie_name_iff invalid_set_cookie_value_def contains_any_set)
  then have "split_on CHR '';'' s = (ck_name c @ ''='' @ ck_value c) # attribute_parts c"
    using p split_parts by blast
  moreover have "name_value (ck_name c @ ''='' @ ck_value c) = (ck_name c, trim (ck_value c) [sp, tab])"
    using p name_value_pair[of "ck_name c" "ck_value c"] trim_cookie_name[of "ck_name c"]
    by (simp add: invalid_cookie_name_iff)
  ultimately show ?thesis
    using cookie_attributes_no_ctl[OF assms] by (simp add: read_set_cookie_def name_value_parts)
qed

theorem set_cookie_reads_back_witness:
  "read_set_cookie ''a=b; Path=/; Max-Age=0; Secure; SameSite=Lax'' =
     ((''a'', ''b''), [(''Path'', ''/''), (''Max-Age'', ''0''), (''Secure'', []), (''SameSite'', ''Lax'')])"
proof -
  let ?c = "(plain_cookie ''a'' ''b'')\<lparr>ck_path := ''/'', ck_max_age := -1, ck_secure := True, ck_same_site := ''Lax''\<rparr>"
  have s: "set_cookie_value ?c = Inr ''a=b; Path=/; Max-Age=0; Secure; SameSite=Lax''"
    "cookie_attributes ?c = [(''Path'', ''/''), (''Max-Age'', ''0''), (''Secure'', []), (''SameSite'', ''Lax'')]"
    "trim (ck_value ?c) [sp, tab] = ''b''" "ck_name ?c = ''a''"
    by code_simp+
  show ?thesis using set_cookie_reads_back[OF s(1)] unfolding s by blast
qed

text \<open>
  Cookies sent by a client in one Cookie header, as name=value pairs joined with a semicolon
  and a blank, are read back in order, with their values unchanged; a cookie is looked up by
  the first pair of its name.
\<close>

theorem request_cookies_roundtrip:
  assumes "ps \<noteq> []" "\<forall>(n, v)\<in>set ps. sendable_cookie n v" "equal_fold name ''Cookie''"
    and "http_headers r = [HeaderField name (join ''; '' (map (\<lambda>(n, v). n @ ''='' @ v) ps))]"
  shows "request_cookies (http_headers r) = map (\<lambda>(n, v). plain_cookie n v) ps \<and>
    map_option ck_value (request_cookie r n) = map_of ps n"
proof -
  have cs: "request_cookies (http_headers r) = map (\<lambda>(n, v). plain_cookie n v) ps"
    using assms split_cookie_header[of ps] by simp
  have "map_option ck_value (List.find (\<lambda>c. ck_name c = n) (map (\<lambda>(n, v). plain_cookie n v) qs)) = map_of qs n" for qs
    by (induction qs) (auto simp: plain_cookie_def)
  with cs show ?thesis by (simp add: request_cookie_def cookies_def)
qed

theorem request_cookies_roundtrip_witness:
  "request_cookies [HeaderField ''cookie'' ''a=1; b=x=y''] = [plain_cookie ''a'' ''1'', plain_cookie ''b'' ''x=y'']"
proof -
  let ?r = "\<lparr>req_context = None, req_http = \<lparr>request_line = \<lparr>rl_method = ''GET'', rl_target = ''/'',
      rl_version = ''HTTP/1.1''\<rparr>, req_headers = [HeaderField ''cookie'' ''a=1; b=x=y''], req_body = []\<rparr>,
      req_params = None\<rparr>"
  have "\<forall>(n, v)\<in>set [(''a'', ''1''), (''b'', ''x=y'')]. sendable_cookie n v" by code_simp
  moreover have "equal_fold ''cookie'' ''Cookie''" by code_simp
  ultimately show ?thesis
    using request_cookies_roundtrip[of "[(''a'', ''1''), (''b'', ''x=y'')]" "''cookie''" ?r "''a''"] by simp
qed

end
