(* ===== verification/Rate_Limit.thy ===== *)
theory Rate_Limit
  imports Go_Time "HOL-Library.Signed_Division"
begin

text \<open>
  The fixed-window rate limiter (httpserver/rate_limit.go). \<open>allow\<close> runs under the limiter's
  mutex, so that concurrent requests are a sequence of calls; the clock is the argument
  \<open>current\<close>, read inside the lock.
\<close>

section \<open>The code\<close>

record fixed_window_limiter =
  lim_limit :: int
  lim_window :: int
  lim_start :: go_time
  lim_count :: int

definition new_limiter :: "int \<Rightarrow> int \<Rightarrow> fixed_window_limiter" where
  "new_limiter limit window = \<lparr>lim_limit = limit, lim_window = window, lim_start = zero_time, lim_count = 0\<rparr>"

definition retry_after_seconds :: "int \<Rightarrow> int" where
  "retry_after_seconds duration =
     (if duration \<le> 0 then 0 else wrap_int64 (duration + 1000000000 - 1) sdiv 1000000000)"

definition allow :: "fixed_window_limiter \<Rightarrow> go_time \<Rightarrow> (bool \<times> int) \<times> fixed_window_limiter" where
  "allow l current =
     (let l1 = (if time_is_zero (lim_start l) \<or> \<not> time_before current (time_add (lim_start l) (lim_window l))
                then l\<lparr>lim_start := current, lim_count := 0\<rparr> else l)
      in if lim_count l1 < lim_limit l1 then ((True, 0), l1\<lparr>lim_count := lim_count l1 + 1\<rparr>)
         else ((False, retry_after_seconds (time_sub (time_add (lim_start l1) (lim_window l1)) current)), l1))"

section \<open>Runs of the limiter\<close>

text \<open>The instants of the admitted calls of a sequence of calls.\<close>

fun admitted :: "fixed_window_limiter \<Rightarrow> go_time list \<Rightarrow> go_time list" where
  "admitted l [] = []"
| "admitted l (t # ts) =
     (case allow l t of ((ok, _), l') \<Rightarrow> if ok then t # admitted l' ts else admitted l' ts)"

definition within :: "int \<Rightarrow> int \<Rightarrow> go_time \<Rightarrow> bool" where
  "within a b t \<longleftrightarrow> a \<le> time_ns t \<and> time_ns t < b"

text \<open>A limiter in use: its window is open and its count is within the limit.\<close>

definition limiter_inv :: "fixed_window_limiter \<Rightarrow> bool" where
  "limiter_inv l \<longleftrightarrow> 0 < lim_limit l \<and> 0 < lim_window l \<and> valid_time (lim_start l) \<and>
     0 \<le> lim_count l \<and> lim_count l \<le> lim_limit l"

definition clock_readings :: "go_time list \<Rightarrow> bool" where
  "clock_readings ts \<longleftrightarrow> sorted (map time_ns ts) \<and> (\<forall>t\<in>set ts. valid_time t \<and> 0 < time_ns t)"

lemma clock_readings_Cons [simp]:
  "clock_readings (t # ts) \<longleftrightarrow> valid_time t \<and> 0 < time_ns t \<and> (\<forall>u\<in>set ts. time_ns t \<le> time_ns u) \<and> clock_readings ts"
  by (auto simp: clock_readings_def)

lemma allow_inv: "limiter_inv l \<Longrightarrow> valid_time t \<Longrightarrow> allow l t = (r, l') \<Longrightarrow>
    limiter_inv l' \<and> lim_limit l' = lim_limit l \<and> lim_window l' = lim_window l"
  by (auto simp: allow_def limiter_inv_def Let_def split: if_splits)

text \<open>What a call does, in terms of the window it falls in.\<close>

lemma allow_cases:
  assumes "limiter_inv l" "valid_time t" "0 < time_ns t" "allow l t = ((ok, ra), l')"
  obtains (fresh) "time_ns (lim_start l) = 0 \<or> time_ns (lim_start l) + lim_window l \<le> time_ns t"
      "ok" "lim_start l' = t" "lim_count l' = 1"
  | (inside) "time_ns (lim_start l) \<noteq> 0" "time_ns t < time_ns (lim_start l) + lim_window l"
      "ok \<longleftrightarrow> lim_count l < lim_limit l" "lim_start l' = lim_start l"
      "lim_count l' = lim_count l + (if ok then 1 else 0)"
proof (cases "time_ns (lim_start l) = 0 \<or> time_ns (lim_start l) + lim_window l \<le> time_ns t")
  case True
  then have "time_is_zero (lim_start l) \<or> \<not> time_before t (time_add (lim_start l) (lim_window l))"
    using assms(1,2) by (auto simp: time_is_zero_def zero_time_ns time_before_ns limiter_inv_def)
  with True assms show ?thesis by (intro fresh) (auto simp: allow_def limiter_inv_def)
next
  case False
  then have "\<not> (time_is_zero (lim_start l) \<or> \<not> time_before t (time_add (lim_start l) (lim_window l)))"
    using assms(1,2) by (simp add: time_is_zero_def zero_time_ns time_before_ns limiter_inv_def)
  with False assms show ?thesis by (intro inside) (auto simp: allow_def Let_def split: if_splits)
qed

lemma admitted_subset: "set (admitted l ts) \<subseteq> set ts"
proof (induction ts arbitrary: l)
  case (Cons t ts)
  obtain ok ra l' where "allow l t = ((ok, ra), l')" by (metis surj_pair)
  with Cons[of l'] show ?case by auto
qed simp

text \<open>A window that has started at or after \<open>a\<close> admits only what is left of its limit before \<open>a + window\<close>.\<close>

lemma admitted_open:
  assumes "limiter_inv l" "clock_readings ts" "time_ns (lim_start l) \<noteq> 0" "a \<le> time_ns (lim_start l)"
  shows "int (length (filter (within a (a + lim_window l)) (admitted l ts))) \<le> lim_limit l - lim_count l"
  using assms
proof (induction ts arbitrary: l)
  case (Cons t ts)
  obtain ok ra l' where al: "allow l t = ((ok, ra), l')" by (metis surj_pair)
  have inv: "limiter_inv l'" "lim_limit l' = lim_limit l" "lim_window l' = lim_window l"
    using allow_inv[OF Cons.prems(1) _ al] Cons.prems(2) by auto
  have t: "valid_time t" "0 < time_ns t" "clock_readings ts" using Cons.prems(2) by auto
  from Cons.prems(1) t(1,2) al show ?case
  proof (cases rule: allow_cases)
    case fresh
    have late: "a + lim_window l \<le> time_ns t" using fresh(1) Cons.prems(3,4) by auto
    then have "\<forall>u\<in>set (t # ts). \<not> within a (a + lim_window l) u"
      using Cons.prems(2) by (auto simp: within_def)
    moreover have "set (admitted l (t # ts)) \<subseteq> set (t # ts)" by (rule admitted_subset)
    ultimately have "filter (within a (a + lim_window l)) (admitted l (t # ts)) = []"
      unfolding filter_empty_conv by blast
    then show ?thesis using Cons.prems(1) by (simp add: limiter_inv_def)
  next
    case inside
    have "int (length (filter (within a (a + lim_window l)) (admitted l' ts))) \<le> lim_limit l - lim_count l'"
      using Cons.IH[of l'] inv t(3) inside(4) Cons.prems(3,4) by simp
    with inside(3,5) al show ?thesis by auto
  qed
qed (simp add: limiter_inv_def)

text \<open>From \<open>a\<close> on, the open window can be followed by one more before \<open>a + window\<close>.\<close>

lemma admitted_straddling:
  assumes "limiter_inv l" "clock_readings ts" "time_ns (lim_start l) \<noteq> 0" "\<forall>t\<in>set ts. a \<le> time_ns t"
  shows "int (length (filter (within a (a + lim_window l)) (admitted l ts))) \<le> 2 * lim_limit l - lim_count l"
  using assms
proof (induction ts arbitrary: l)
  case (Cons t ts)
  let ?W = "within a (a + lim_window l)"
  obtain ok ra l' where al: "allow l t = ((ok, ra), l')" by (metis surj_pair)
  have inv: "limiter_inv l'" "lim_limit l' = lim_limit l" "lim_window l' = lim_window l"
    using allow_inv[OF Cons.prems(1) _ al] Cons.prems(2) by auto
  have t: "valid_time t" "0 < time_ns t" "clock_readings ts" using Cons.prems(2) by auto
  from Cons.prems(1) t(1,2) al show ?case
  proof (cases rule: allow_cases)
    case fresh
    have c: "lim_count l \<le> lim_limit l" "0 < lim_limit l" using Cons.prems(1) by (auto simp: limiter_inv_def)
    have "int (length (filter ?W (admitted l' ts))) \<le> lim_limit l - 1"
      using admitted_open[OF inv(1) t(3), of a] fresh inv t Cons.prems(4) by simp
    with al fresh(2) c show ?thesis by auto
  next
    case inside
    have "int (length (filter ?W (admitted l' ts))) \<le> 2 * lim_limit l - lim_count l'"
      using Cons.IH[OF inv(1) t(3)] inv inside(4) Cons.prems(3,4) by simp
    with inside(3,5) al show ?thesis by auto
  qed
qed (simp add: limiter_inv_def)

lemma admitted_window:
  assumes "limiter_inv l" "clock_readings ts"
  shows "int (length (filter (within a (a + lim_window l)) (admitted l ts))) \<le> 2 * lim_limit l"
  using assms
proof (induction ts arbitrary: l)
  case (Cons t ts)
  let ?W = "within a (a + lim_window l)"
  obtain ok ra l' where al: "allow l t = ((ok, ra), l')" by (metis surj_pair)
  have inv: "limiter_inv l'" "lim_limit l' = lim_limit l" "lim_window l' = lim_window l" "0 < lim_limit l"
    using allow_inv[OF Cons.prems(1) _ al] Cons.prems by (auto simp: limiter_inv_def)
  have t: "valid_time t" "0 < time_ns t" "clock_readings ts" using Cons.prems(2) by auto
  have IH: "int (length (filter ?W (admitted l' ts))) \<le> 2 * lim_limit l"
    using Cons.IH[OF inv(1) t(3)] inv by simp
  show ?case
  proof (cases "ok \<and> a \<le> time_ns t")
    case True
    from Cons.prems(1) t(1,2) al show ?thesis
    proof (cases rule: allow_cases)
      case fresh
      then have "int (length (filter ?W (admitted l' ts))) \<le> lim_limit l - 1"
        using admitted_open[OF inv(1) t(3), of a] inv t True by simp
      with al inv(4) show ?thesis by auto
    next
      case inside
      show ?thesis
      proof (cases "a \<le> time_ns (lim_start l)")
        case True
        then have "int (length (filter ?W (admitted l (t # ts)))) \<le> lim_limit l - lim_count l"
          using admitted_open[OF Cons.prems, of a] inside by simp
        with Cons.prems(1) show ?thesis by (simp add: limiter_inv_def)
      next
        case False
        have "int (length (filter ?W (admitted l (t # ts)))) \<le> 2 * lim_limit l - lim_count l"
          using admitted_straddling[OF Cons.prems, of a] inside \<open>ok \<and> a \<le> time_ns t\<close> Cons.prems(2) by force
        with Cons.prems(1) show ?thesis by (simp add: limiter_inv_def)
      qed
    qed
  next
    case False
    then have "\<not> ok \<or> \<not> ?W t" by (auto simp: within_def)
    with al IH show ?thesis by auto
  qed
qed (simp add: limiter_inv_def)

lemma limiter_inv_new: "0 < limit \<Longrightarrow> 0 < window \<Longrightarrow> limiter_inv (new_limiter limit window)"
  by (simp add: limiter_inv_def new_limiter_def zero_time_def valid_time_def)

lemma retry_after_seconds_covers:
  assumes "0 < d" "d \<le> max_int64 - 999999999"
  shows "1 \<le> retry_after_seconds d" "d \<le> retry_after_seconds d * 1000000000"
proof -
  have "wrap_int64 (999999999 + d) = 999999999 + d"
    using assms wrap_int64_id[of "999999999 + d"] by simp
  moreover have "d + 1000000000 - 1 = 999999999 + d" by simp
  ultimately have r: "retry_after_seconds d = (d + 999999999) div 1000000000"
    using assms(1) by (simp add: retry_after_seconds_def signed_divide_int_def add.commute)
  then show "1 \<le> retry_after_seconds d"
    using assms(1) zdiv_mono1[of 1000000000 "d + 999999999" 1000000000] by simp
  have "(d + 999999999) mod 1000000000 \<le> 999999999" by simp
  then show "d \<le> retry_after_seconds d * 1000000000"
    unfolding r using div_mult_mod_eq[of "d + 999999999" 1000000000] by linarith
qed

section \<open>Properties\<close>





text \<open>
  Near the largest duration the rounding wraps around, and a refused caller is told to retry
  after a negative number of seconds.
\<close>

theorem rate_limit_retry_overflow:
  assumes "max_int64 - 999999999 < window" "window \<le> max_int64" "valid_time t" "0 < time_ns t"
    and "allow (new_limiter 1 window) t = (r, l1)" "allow l1 t = ((ok, ra), l2)"
  shows "\<not> ok \<and> ra < 0"
proof -
  have l1: "l1 = \<lparr>lim_limit = 1, lim_window = window, lim_start = t, lim_count = 1\<rparr>"
    using assms(5) by (auto simp: allow_def new_limiter_def time_is_zero_def)
  have sub: "time_sub (time_add t window) t = window" using assms(1,2) by (simp add: time_sub_def)
  have "\<not> (time_is_zero t \<or> \<not> time_before t (time_add t window))"
    using assms(1,3,4) by (simp add: time_is_zero_def zero_time_ns time_before_ns)
  then have r: "\<not> ok" "ra = retry_after_seconds window"
    using assms(6) l1 sub by (auto simp: allow_def Let_def)
  have w: "wrap_int64 (999999999 + window) = window + 999999999 - 18446744073709551616"
  proof -
    have "(window + 999999999 - min_int64) mod 18446744073709551616 = window + 999999999 - min_int64 - 18446744073709551616"
      using assms(1,2) by (intro int_mod_pos_eq[of _ _ 1]) auto
    then show ?thesis by (simp add: wrap_int64_def algebra_simps)
  qed
  have "retry_after_seconds window < 0"
  proof -
    have "wrap_int64 (999999999 + window) < 0" "1000000000 \<le> \<bar>wrap_int64 (999999999 + window)\<bar>"
      unfolding w using assms(1,2) by auto
    then have "0 < \<bar>wrap_int64 (999999999 + window)\<bar> div 1000000000" "sgn (wrap_int64 (999999999 + window)) = -1"
      by (auto simp: pos_imp_zdiv_pos_iff)
    then show ?thesis
      using assms(1) by (simp add: retry_after_seconds_def signed_divide_int_def add.commute)
  qed
  with r show ?thesis by simp
qed

theorem rate_limit_retry_overflow_witness:
  "fst (fst (allow (snd (allow (new_limiter 1 max_int64) (time_of_ns 1))) (time_of_ns 1))) = False"
proof -
  let ?a = "allow (new_limiter 1 max_int64) (time_of_ns 1)"
  let ?b = "allow (snd ?a) (time_of_ns 1)"
  show ?thesis
    using rate_limit_retry_overflow[of max_int64 "time_of_ns 1" "fst ?a" "snd ?a" "fst (fst ?b)" "snd (fst ?b)" "snd ?b"]
    by simp
qed

end
