(* ===== verification/World.thy ===== *)
theory World
  imports Byte_Range Cookie Cache Sse Rate_Limit "HOL-Library.Word"
begin

text \<open>
  What the application layer touches outside the response: the file system, the clock, the
  loggers, the request-ID counter and the rate limiters that middlewares allocate. Each is a
  component of one record that operations return updated.
\<close>

text \<open>A file as \<open>Stat\<close> and \<open>Read\<close> show it; \<open>Stat\<close> can fail after a successful \<open>Open\<close>.\<close>

record file_entry =
  file_stat_fails :: bool
  file_is_dir :: bool
  file_modified :: go_time
  file_data :: bytes

text \<open>
  The lines of the loggers, with the values they print: the access log, recovered panics, and
  what the connection handler reports.
\<close>

datatype log_line =
    AccessLine bytes bytes int int int
  | PanicLine bytes bytes bytes
  | WaitingLine | HandledLine | ParseErrorLine http_err | ReadDeadlineLine | WriteDeadlineLine
  | WriteErrorLine http_err

text \<open>
  \<open>files\<close> and \<open>mime_types\<close> are the operating system's; \<open>open_files\<close> are the handles not yet
  closed and \<open>next_file\<close> the next handle. \<open>clock\<close> gives the result of the n-th reading.
\<close>

record world =
  files :: "bytes \<Rightarrow> file_entry option"
  mime_types :: "bytes \<Rightarrow> bytes"
  open_files :: "nat set"
  next_file :: nat
  clock :: "nat \<Rightarrow> go_time"
  clock_reads :: nat
  request_id_counter :: "64 word"
  app_log :: "log_line list"
  limiters :: "fixed_window_limiter list"

definition time_now :: "world \<Rightarrow> go_time \<times> world" where
  "time_now s = (clock s (clock_reads s), s\<lparr>clock_reads := Suc (clock_reads s)\<rparr>)"

definition log_printf :: "log_line \<Rightarrow> world \<Rightarrow> world" where
  "log_printf l s = s\<lparr>app_log := app_log s @ [l]\<rparr>"

text \<open>\<open>os.Open\<close>: the entry and a fresh handle, or an error that leaves no handle.\<close>

definition os_open :: "bytes \<Rightarrow> world \<Rightarrow> (app_err + file_entry \<times> nat) \<times> world" where
  "os_open path s =
     (case files s path of
        None \<Rightarrow> (Inl ErrFile, s)
      | Some f \<Rightarrow> (Inr (f, next_file s),
          s\<lparr>open_files := insert (next_file s) (open_files s), next_file := Suc (next_file s)\<rparr>))"

definition close_file :: "nat \<Rightarrow> world \<Rightarrow> world" where
  "close_file h s = s\<lparr>open_files := open_files s - {h}\<rparr>"

text \<open>Every handle given out is below the next one.\<close>

definition handles_fresh :: "world \<Rightarrow> bool" where
  "handles_fresh s \<longleftrightarrow> (\<forall>h\<in>open_files s. h < next_file s)"

lemma close_file_open:
  "handles_fresh s \<Longrightarrow> os_open path s = (Inr (f, h), s') \<Longrightarrow>
     open_files (close_file h s') = open_files s \<and> handles_fresh (close_file h s') \<and> handles_fresh s'"
  by (auto simp: os_open_def close_file_def handles_fresh_def less_Suc_eq split: option.splits)

end
