(* ===== verification/Writer.thy ===== *)
theory Writer
  imports World
begin

text \<open>
  Response writers (httpserver/response_writer.go, and the writer methods of range.go, sse.go,
  cache.go and logging.go): the buffered writer that collects a response, the recorder that
  the logging middleware wraps around another writer, and the \<open>ResponseWriter\<close> interface as the
  dispatch over the two.
\<close>

section \<open>The buffered writer\<close>

record buffered_writer =
  bw_status :: int
  bw_headers :: "header_field list"
  bw_body :: bytes
  bw_reader :: "body_stream option"
  bw_closer :: "nat option"
  bw_length :: int
  bw_chunked :: bool

definition new_buffered_writer :: buffered_writer where
  "new_buffered_writer = \<lparr>bw_status = 0, bw_headers = [], bw_body = [], bw_reader = None,
     bw_closer = None, bw_length = 0, bw_chunked = False\<rparr>"

definition buffered_add_header :: "bytes \<Rightarrow> bytes \<Rightarrow> buffered_writer \<Rightarrow> buffered_writer" where
  "buffered_add_header name v w = w\<lparr>bw_headers := bw_headers w @ [HeaderField name v]\<rparr>"

text \<open>The loop of \<open>SetHeader\<close>: the first field of the name gets the value, if there is one.\<close>

fun set_first_header :: "header_field list \<Rightarrow> bytes \<Rightarrow> bytes \<Rightarrow> header_field list option" where
  "set_first_header [] name v = None"
| "set_first_header (h # hs) name v =
     (if equal_fold (hname h) name then Some (h\<lparr>hvalue := v\<rparr> # hs)
      else map_option ((#) h) (set_first_header hs name v))"

definition buffered_set_header :: "bytes \<Rightarrow> bytes \<Rightarrow> buffered_writer \<Rightarrow> buffered_writer" where
  "buffered_set_header name v w =
     (case set_first_header (bw_headers w) name v of
        Some hs \<Rightarrow> w\<lparr>bw_headers := hs\<rparr>
      | None \<Rightarrow> buffered_add_header name v w)"

definition buffered_set_cache_control :: "bytes \<Rightarrow> buffered_writer \<Rightarrow> buffered_writer \<times> app_err option" where
  "buffered_set_cache_control v w =
     (if invalid_cache_header_value v then (w, Some ErrInvalidCacheHeader)
      else (buffered_set_header ''Cache-Control'' v w, None))"

definition buffered_set_cookie :: "cookie \<Rightarrow> buffered_writer \<Rightarrow> buffered_writer \<times> app_err option" where
  "buffered_set_cookie c w =
     (case set_cookie_value c of
        Inl e \<Rightarrow> (w, Some e)
      | Inr v \<Rightarrow> (buffered_add_header ''Set-Cookie'' v w, None))"

definition buffered_set_etag :: "bytes \<Rightarrow> buffered_writer \<Rightarrow> buffered_writer \<times> app_err option" where
  "buffered_set_etag etag w =
     (case response_etag_value etag of
        Inl e \<Rightarrow> (w, Some e)
      | Inr v \<Rightarrow> (buffered_set_header ''ETag'' v w, None))"

definition buffered_set_last_modified :: "go_time \<Rightarrow> buffered_writer \<Rightarrow> buffered_writer" where
  "buffered_set_last_modified t w =
     (if time_is_zero t then w else buffered_set_header ''Last-Modified'' (http_time t) w)"

definition buffered_stream_body :: "body_stream \<Rightarrow> int \<Rightarrow> buffered_writer \<Rightarrow> buffered_writer" where
  "buffered_stream_body rd contentLength w =
     w\<lparr>bw_status := (if bw_status w = 0 then 200 else bw_status w), bw_body := [],
       bw_reader := Some rd, bw_closer := stream_closer rd, bw_length := contentLength\<rparr>"

definition buffered_use_chunked :: "buffered_writer \<Rightarrow> buffered_writer" where
  "buffered_use_chunked w = w\<lparr>bw_chunked := True\<rparr>"

definition buffered_write_header :: "int \<Rightarrow> buffered_writer \<Rightarrow> buffered_writer" where
  "buffered_write_header code w = (if bw_status w \<noteq> 0 then w else w\<lparr>bw_status := code\<rparr>)"

definition buffered_write :: "bytes \<Rightarrow> buffered_writer \<Rightarrow> buffered_writer \<times> int" where
  "buffered_write p w =
     (w\<lparr>bw_status := (if bw_status w = 0 then 200 else bw_status w), bw_reader := None,
        bw_closer := None, bw_length := 0, bw_body := bw_body w @ p\<rparr>, int (length p))"

text \<open>
  \<open>io.NewSectionReader(reader, off, n)\<close> on an \<open>io.ReaderAt\<close> is given by what it delivers for
  each section; it has no \<open>Close\<close> method.
\<close>

type_synonym reader_at = "int \<Rightarrow> int \<Rightarrow> byte_source"

definition buffered_stream_range :: "reader_at \<Rightarrow> int \<Rightarrow> byte_range \<Rightarrow> buffered_writer \<Rightarrow> buffered_writer \<times> app_err option" where
  "buffered_stream_range rd size' r w =
     (if br_start r < 0 \<or> br_end r < br_start r \<or> size' \<le> br_end r then (w, Some ErrInvalidRange)
      else (let w1 = buffered_set_header ''Accept-Ranges'' ''bytes'' w;
                w2 = buffered_set_header ''Content-Range'' (content_range r size') w1;
                w3 = buffered_write_header 206 w2
            in (buffered_stream_body \<lparr>stream_src = rd (br_start r) (br_length r), stream_closer = None\<rparr> (br_length r) w3,
                None)))"

definition buffered_range_not_satisfiable :: "int \<Rightarrow> buffered_writer \<Rightarrow> buffered_writer" where
  "buffered_range_not_satisfiable size' w =
     buffered_write_header 416
       (buffered_set_header ''Content-Range'' (''bytes */'' @ format_int size')
         (buffered_set_header ''Accept-Ranges'' ''bytes'' w))"

definition buffered_write_event :: "server_sent_event \<Rightarrow> buffered_writer \<Rightarrow> buffered_writer \<times> app_err option" where
  "buffered_write_event ev w =
     (case encode_server_sent_event ev of
        Inl e \<Rightarrow> (w, Some e)
      | Inr encoded \<Rightarrow>
          let w1 = buffered_set_header ''Content-Type'' ''text/event-stream'' w;
              w2 = fst (buffered_set_cache_control ''no-cache'' w1);
              w3 = buffered_use_chunked w2
          in (fst (buffered_write encoded w3), None))"

definition buffered_write_not_modified :: "bytes \<Rightarrow> go_time \<Rightarrow> buffered_writer \<Rightarrow> buffered_writer \<times> app_err option" where
  "buffered_write_not_modified etag t w =
     (case (if etag \<noteq> [] then buffered_set_etag etag w else (w, None)) of
        (w1, Some e) \<Rightarrow> (w1, Some e)
      | (w1, None) \<Rightarrow> (buffered_write_header 304 (buffered_set_last_modified t w1), None))"

text \<open>\<open>filepath.Ext\<close> is \<open>file_ext\<close>; an open file is a stream that can be closed.\<close>

definition buffered_send_file :: "bytes \<Rightarrow> buffered_writer \<Rightarrow> world \<Rightarrow> buffered_writer \<times> app_err option \<times> world" where
  "buffered_send_file path w s =
     (case os_open path s of
        (Inl e, s1) \<Rightarrow> (w, Some e, s1)
      | (Inr (f, h), s1) \<Rightarrow>
          if file_stat_fails f then (w, Some ErrFile, close_file h s1)
          else if file_is_dir f then (w, Some ErrOsInvalid, close_file h s1)
          else
            let contentType = mime_types s1 (file_ext path);
                w1 = (if contentType \<noteq> [] then buffered_set_header ''Content-Type'' contentType w else w);
                w2 = buffered_set_header ''Accept-Ranges'' ''bytes'' w1;
                w3 = buffered_set_last_modified (file_modified f) w2
            in (buffered_stream_body
                  \<lparr>stream_src = \<lparr>segs = [file_data f], src_err = IoEOF, src_eager = False\<rparr>, stream_closer = Some h\<rparr>
                  (int (length (file_data f))) w3, None, s1))"

definition buffered_response :: "buffered_writer \<Rightarrow> response" where
  "buffered_response w =
     zero_response\<lparr>resp_status := (if bw_status w = 0 then 200 else bw_status w),
       resp_headers := bw_headers w, resp_body := bw_body w, resp_reader := bw_reader w,
       resp_closer := bw_closer w, resp_length := bw_length w, resp_chunked := bw_chunked w\<rparr>"

definition buffered_reset :: "buffered_writer \<Rightarrow> buffered_writer" where
  "buffered_reset w = w\<lparr>bw_status := 0, bw_headers := [], bw_body := [], bw_reader := None,
     bw_closer := None, bw_length := 0, bw_chunked := False\<rparr>"

section \<open>The interface\<close>

text \<open>
  The dynamic type of a \<open>ResponseWriter\<close> is the buffered writer or the logging recorder, which
  embeds another writer, and has its own status and byte count. The methods the recorder does
  not redefine are promoted from the writer it embeds.
\<close>

datatype resp_writer = Buffered buffered_writer | Logging resp_writer int int

fun promoted :: "(buffered_writer \<Rightarrow> buffered_writer \<times> 'a) \<Rightarrow> resp_writer \<Rightarrow> resp_writer \<times> 'a" where
  "promoted f (Buffered b) = (case f b of (b', x) \<Rightarrow> (Buffered b', x))"
| "promoted f (Logging w st n) = (case promoted f w of (w', x) \<Rightarrow> (Logging w' st n, x))"

definition promoted_proc :: "(buffered_writer \<Rightarrow> buffered_writer) \<Rightarrow> resp_writer \<Rightarrow> resp_writer" where
  "promoted_proc f w = fst (promoted (\<lambda>b. (f b, ())) w)"

definition add_header :: "bytes \<Rightarrow> bytes \<Rightarrow> resp_writer \<Rightarrow> resp_writer" where
  "add_header name v = promoted_proc (buffered_add_header name v)"

definition set_header :: "bytes \<Rightarrow> bytes \<Rightarrow> resp_writer \<Rightarrow> resp_writer" where
  "set_header name v = promoted_proc (buffered_set_header name v)"

definition use_chunked :: "resp_writer \<Rightarrow> resp_writer" where
  "use_chunked = promoted_proc buffered_use_chunked"

definition stream_body :: "body_stream \<Rightarrow> int \<Rightarrow> resp_writer \<Rightarrow> resp_writer" where
  "stream_body rd n = promoted_proc (buffered_stream_body rd n)"

fun write_header :: "int \<Rightarrow> resp_writer \<Rightarrow> resp_writer" where
  "write_header code (Buffered b) = Buffered (buffered_write_header code b)"
| "write_header code (Logging w st n) = Logging (write_header code w) (if st = 0 then code else st) n"

fun write_body :: "bytes \<Rightarrow> resp_writer \<Rightarrow> resp_writer \<times> int" where
  "write_body p (Buffered b) = (case buffered_write p b of (b', k) \<Rightarrow> (Buffered b', k))"
| "write_body p (Logging w st n) =
     (case write_body p w of (w', k) \<Rightarrow> (Logging w' (if st = 0 then 200 else st) (n + k), k))"

fun reset_writer :: "resp_writer \<Rightarrow> resp_writer" where
  "reset_writer (Buffered b) = Buffered (buffered_reset b)"
| "reset_writer (Logging w st n) = Logging (reset_writer w) 0 0"

fun send_file :: "bytes \<Rightarrow> resp_writer \<Rightarrow> world \<Rightarrow> resp_writer \<times> app_err option \<times> world" where
  "send_file path (Buffered b) s = (case buffered_send_file path b s of (b', e, s') \<Rightarrow> (Buffered b', e, s'))"
| "send_file path (Logging w st n) s = (case send_file path w s of (w', e, s') \<Rightarrow> (Logging w' st n, e, s'))"

text \<open>\<open>StatusCode\<close> of a recorder with status \<open>st\<close>.\<close>

definition recorded_status :: "int \<Rightarrow> int" where
  "recorded_status st = (if st = 0 then 200 else st)"

definition recorded_bytes :: "int \<Rightarrow> int" where
  "recorded_bytes n = n"

declare recorded_bytes_def [simp]

text \<open>
  The buffered writer under all recorders, and what a recorder holds. No operation changes
  the shape of a writer, so that the second equation of \<open>recorder_parts\<close> is not reached from a recorder.
\<close>

fun buffer_of :: "resp_writer \<Rightarrow> buffered_writer" where
  "buffer_of (Buffered b) = b"
| "buffer_of (Logging w st n) = buffer_of w"

fun recorder_parts :: "resp_writer \<Rightarrow> resp_writer \<times> int \<times> int" where
  "recorder_parts (Logging w st n) = (w, st, n)"
| "recorder_parts (Buffered b) = (Buffered b, 0, 0)"

section \<open>The contract of the interface\<close>

text \<open>
  What a client of \<open>ResponseWriter\<close> may rely on: seen through \<open>buf\<close>, every method does to the
  response what the buffered writer does, whatever is wrapped around it.
\<close>

locale response_writer =
  fixes add_h :: "bytes \<Rightarrow> bytes \<Rightarrow> 'w \<Rightarrow> 'w"
    and set_h :: "bytes \<Rightarrow> bytes \<Rightarrow> 'w \<Rightarrow> 'w"
    and chunk :: "'w \<Rightarrow> 'w"
    and stream :: "body_stream \<Rightarrow> int \<Rightarrow> 'w \<Rightarrow> 'w"
    and status :: "int \<Rightarrow> 'w \<Rightarrow> 'w"
    and body :: "bytes \<Rightarrow> 'w \<Rightarrow> 'w \<times> int"
    and clear :: "'w \<Rightarrow> 'w"
    and bufd :: "'w \<Rightarrow> buffered_writer"
  assumes add_law: "bufd (add_h n v w) = buffered_add_header n v (bufd w)"
    and set_law: "bufd (set_h n v w) = buffered_set_header n v (bufd w)"
    and chunk_law: "bufd (chunk w) = buffered_use_chunked (bufd w)"
    and stream_law: "bufd (stream rd k w) = buffered_stream_body rd k (bufd w)"
    and status_law: "bufd (status c w) = buffered_write_header c (bufd w)"
    and body_law: "bufd (fst (body p w)) = fst (buffered_write p (bufd w)) \<and> snd (body p w) = int (length p)"
    and clear_law: "bufd (clear w) = buffered_reset (bufd w)"
begin

lemma laws: "bufd (add_h n v w) = buffered_add_header n v (bufd w)"
  "bufd (set_h n v w) = buffered_set_header n v (bufd w)"
  "bufd (chunk w) = buffered_use_chunked (bufd w)"
  "bufd (stream rd k w) = buffered_stream_body rd k (bufd w)"
  "bufd (status c w) = buffered_write_header c (bufd w)"
  "bufd (fst (body p w)) = fst (buffered_write p (bufd w))"
  "bufd (clear w) = buffered_reset (bufd w)"
  by (simp_all add: add_law set_law chunk_law stream_law status_law body_law clear_law)

lemma add_all:
  "bufd (fold (\<lambda>h w. add_h (hname h) (hvalue h) w) hs w) = (bufd w)\<lparr>bw_headers := bw_headers (bufd w) @ hs\<rparr>"
  by (induction hs arbitrary: w) (simp_all add: add_law buffered_add_header_def)

text \<open>A reply of the server's own: after a reset it is exactly this response.\<close>

lemma plain_reply:
  "buffered_response (bufd (fst (body p (status c (set_h n v (clear w)))))) =
     zero_response\<lparr>resp_status := (if c = 0 then 200 else c), resp_headers := [HeaderField n v], resp_body := p\<rparr>"
  by (simp add: laws buffered_write_def buffered_write_header_def buffered_set_header_def
      buffered_add_header_def buffered_reset_def buffered_response_def zero_response_def)

lemma status_kept: "bw_status (bufd w) \<noteq> 0 \<Longrightarrow>
    bw_status (bufd (fst (body p w))) = bw_status (bufd w) \<and> bw_status (bufd (status c w)) = bw_status (bufd w) \<and>
    bw_status (bufd (stream rd k w)) = bw_status (bufd w)"
  by (simp add: laws buffered_write_def buffered_write_header_def buffered_stream_body_def)

end

interpretation direct: response_writer buffered_add_header buffered_set_header buffered_use_chunked
    buffered_stream_body buffered_write_header buffered_write buffered_reset "\<lambda>b. b"
  by unfold_locales (simp_all add: buffered_write_def)

lemma buffer_of_promoted: "buffer_of (fst (promoted f w)) = fst (f (buffer_of w))"
  by (induction w) (auto split: prod.splits)

lemma promoted_result: "snd (promoted f w) = snd (f (buffer_of w))"
  by (induction w) (auto split: prod.splits)

lemma buffer_of_proc: "buffer_of (promoted_proc f w) = f (buffer_of w)"
  by (simp add: promoted_proc_def buffer_of_promoted)

lemma buffer_of_write_header: "buffer_of (write_header c w) = buffered_write_header c (buffer_of w)"
  by (induction w) auto

lemma buffer_of_write_body:
  "buffer_of (fst (write_body p w)) = fst (buffered_write p (buffer_of w)) \<and> snd (write_body p w) = int (length p)"
  by (induction w) (auto simp: buffered_write_def split: prod.splits)

lemma buffer_of_reset: "buffer_of (reset_writer w) = buffered_reset (buffer_of w)"
  by (induction w) auto

interpretation layered: response_writer add_header set_header use_chunked stream_body write_header write_body
    reset_writer buffer_of
  by unfold_locales
    (simp_all add: add_header_def set_header_def use_chunked_def stream_body_def buffer_of_proc
      buffer_of_write_header buffer_of_write_body buffer_of_reset)

lemma buffer_of_send_file:
  "send_file path w s = (w', e, s') \<Longrightarrow> buffered_send_file path (buffer_of w) s = (buffer_of w', e, s')"
  by (induction w arbitrary: w') (auto split: prod.splits)

lemmas buffered_defs = buffered_add_header_def buffered_stream_body_def
  buffered_use_chunked_def buffered_write_header_def buffered_write_def buffered_reset_def

section \<open>What handlers can do to a writer\<close>

datatype writer_call =
    CallAddHeader bytes bytes | CallSetHeader bytes bytes | CallSetCacheControl bytes
  | CallSetCookie cookie | CallSetETag bytes | CallSetLastModified go_time
  | CallStreamBody body_stream int | CallStreamRange reader_at int byte_range | CallSendFile bytes
  | CallUseChunkedEncoding | CallWriteEvent server_sent_event | CallWriteRangeNotSatisfiable int
  | CallWriteNotModified bytes go_time | CallWriteHeader int | CallWrite bytes

text \<open>One method call, its result discarded.\<close>

fun apply_call :: "writer_call \<Rightarrow> resp_writer \<times> world \<Rightarrow> resp_writer \<times> world" where
  "apply_call (CallAddHeader n v) (w, s) = (add_header n v w, s)"
| "apply_call (CallSetHeader n v) (w, s) = (set_header n v w, s)"
| "apply_call (CallSetCacheControl v) (w, s) = (fst (promoted (buffered_set_cache_control v) w), s)"
| "apply_call (CallSetCookie c) (w, s) = (fst (promoted (buffered_set_cookie c) w), s)"
| "apply_call (CallSetETag e) (w, s) = (fst (promoted (buffered_set_etag e) w), s)"
| "apply_call (CallSetLastModified t) (w, s) = (promoted_proc (buffered_set_last_modified t) w, s)"
| "apply_call (CallStreamBody rd n) (w, s) = (stream_body rd n w, s)"
| "apply_call (CallStreamRange rd n r) (w, s) = (fst (promoted (buffered_stream_range rd n r) w), s)"
| "apply_call (CallSendFile path) (w, s) = (case send_file path w s of (w', e, s') \<Rightarrow> (w', s'))"
| "apply_call CallUseChunkedEncoding (w, s) = (use_chunked w, s)"
| "apply_call (CallWriteEvent ev) (w, s) = (fst (promoted (buffered_write_event ev) w), s)"
| "apply_call (CallWriteRangeNotSatisfiable n) (w, s) = (promoted_proc (buffered_range_not_satisfiable n) w, s)"
| "apply_call (CallWriteNotModified e t) (w, s) = (fst (promoted (buffered_write_not_modified e t) w), s)"
| "apply_call (CallWriteHeader c) (w, s) = (write_header c w, s)"
| "apply_call (CallWrite p) (w, s) = (fst (write_body p w), s)"

text \<open>
  A handler reaches a writer by method calls, between which the world may change, and by the
  reset of the recovery middleware.
\<close>

inductive writer_steps :: "resp_writer \<Rightarrow> resp_writer \<Rightarrow> bool" where
  steps_refl: "writer_steps w w"
| steps_call: "writer_steps w w1 \<Longrightarrow> writer_steps w (fst (apply_call c (w1, s)))"
| steps_reset: "writer_steps w w1 \<Longrightarrow> writer_steps w (reset_writer w1)"

lemma writer_steps_trans: "writer_steps w1 w2 \<Longrightarrow> writer_steps w w1 \<Longrightarrow> writer_steps w w2"
  by (induction rule: writer_steps.induct) (auto intro: writer_steps.intros)

text \<open>Every call acts on the buffer through one operation of the buffered writer.\<close>

fun buffered_call :: "writer_call \<Rightarrow> buffered_writer \<times> world \<Rightarrow> buffered_writer" where
  "buffered_call (CallAddHeader n v) (b, s) = buffered_add_header n v b"
| "buffered_call (CallSetHeader n v) (b, s) = buffered_set_header n v b"
| "buffered_call (CallSetCacheControl v) (b, s) = fst (buffered_set_cache_control v b)"
| "buffered_call (CallSetCookie c) (b, s) = fst (buffered_set_cookie c b)"
| "buffered_call (CallSetETag e) (b, s) = fst (buffered_set_etag e b)"
| "buffered_call (CallSetLastModified t) (b, s) = buffered_set_last_modified t b"
| "buffered_call (CallStreamBody rd n) (b, s) = buffered_stream_body rd n b"
| "buffered_call (CallStreamRange rd n r) (b, s) = fst (buffered_stream_range rd n r b)"
| "buffered_call (CallSendFile path) (b, s) = fst (buffered_send_file path b s)"
| "buffered_call CallUseChunkedEncoding (b, s) = buffered_use_chunked b"
| "buffered_call (CallWriteEvent ev) (b, s) = fst (buffered_write_event ev b)"
| "buffered_call (CallWriteRangeNotSatisfiable n) (b, s) = buffered_range_not_satisfiable n b"
| "buffered_call (CallWriteNotModified e t) (b, s) = fst (buffered_write_not_modified e t b)"
| "buffered_call (CallWriteHeader c) (b, s) = buffered_write_header c b"
| "buffered_call (CallWrite p) (b, s) = fst (buffered_write p b)"

lemma buffer_of_apply_call: "buffer_of (fst (apply_call c (w, s))) = buffered_call c (buffer_of w, s)"
  by (cases c) (auto simp: layered.laws buffer_of_promoted buffer_of_proc dest: buffer_of_send_file split: prod.splits)

end
