(* ===== verification/Writer_Facts.thy ===== *)
theory Writer_Facts
  imports Writer
begin

text \<open>
  The properties of response writers: headers that are set can be read, the status that is set
  first stays, the recorder and the buffer agree, streams and files are accounted for.
\<close>

section \<open>Frames\<close>

lemma set_header_frame: "\<exists>hs. buffered_set_header n v b = b\<lparr>bw_headers := hs\<rparr>"
  by (auto simp: buffered_set_header_def buffered_add_header_def split: option.splits)

lemma set_header_fields [frame_simps]:
  "bw_status (buffered_set_header n v b) = bw_status b"
  "bw_body (buffered_set_header n v b) = bw_body b"
  "bw_reader (buffered_set_header n v b) = bw_reader b"
  "bw_closer (buffered_set_header n v b) = bw_closer b"
  "bw_length (buffered_set_header n v b) = bw_length b"
  "bw_chunked (buffered_set_header n v b) = bw_chunked b"
  using set_header_frame[of n v b] by auto

text \<open>The header methods change nothing but headers.\<close>

definition headers_only :: "buffered_writer \<Rightarrow> buffered_writer \<Rightarrow> bool" where
  "headers_only b b' \<longleftrightarrow> (\<exists>hs. b' = b\<lparr>bw_headers := hs\<rparr>)"

lemma headers_only_refl: "headers_only b b"
  unfolding headers_only_def by (rule exI[of _ "bw_headers b"]) simp

lemma headers_only_set: "headers_only b (buffered_set_header n v b)"
  using set_header_frame by (simp add: headers_only_def)

lemma headers_only_add: "headers_only b (buffered_add_header n v b)"
  by (auto simp: headers_only_def buffered_add_header_def)

lemma headers_only_calls:
  "headers_only b (fst (buffered_set_cache_control v b))"
  "headers_only b (fst (buffered_set_cookie c b))"
  "headers_only b (fst (buffered_set_etag e b))"
  "headers_only b (buffered_set_last_modified t b)"
  by (simp_all add: buffered_set_cache_control_def buffered_set_cookie_def buffered_set_etag_def
      buffered_set_last_modified_def headers_only_refl headers_only_set headers_only_add split: sum.splits)

lemma headers_only_fields:
  "headers_only b b' \<Longrightarrow> bw_status b' = bw_status b \<and> bw_body b' = bw_body b \<and> bw_reader b' = bw_reader b \<and>
     bw_closer b' = bw_closer b \<and> bw_length b' = bw_length b \<and> bw_chunked b' = bw_chunked b"
  by (auto simp: headers_only_def)

lemmas header_calls_fields [frame_simps] = headers_only_calls[THEN headers_only_fields, simplified]
  headers_only_add[THEN headers_only_fields, simplified]

text \<open>
  A stream and a buffered body exclude each other, and the closer and the length are the
  stream's: the invariant of the buffer, kept by every call.
\<close>

definition buffer_inv :: "buffered_writer \<Rightarrow> bool" where
  "buffer_inv b \<longleftrightarrow> (case bw_reader b of None \<Rightarrow> bw_closer b = None \<and> bw_length b = 0
     | Some rd \<Rightarrow> bw_closer b = stream_closer rd \<and> bw_body b = [] \<and> bw_status b \<noteq> 0)"

lemma buffer_inv_headers: "headers_only b b' \<Longrightarrow> buffer_inv b' = buffer_inv b"
  using headers_only_fields[of b b'] by (simp add: buffer_inv_def split: option.split)

lemma buffer_inv_ops [simp]:
  "buffer_inv (buffered_set_header n v b) = buffer_inv b"
  "buffer_inv (buffered_add_header n v b) = buffer_inv b"
  "buffer_inv (fst (buffered_set_cache_control v b)) = buffer_inv b"
  "buffer_inv (fst (buffered_set_cookie c b)) = buffer_inv b"
  "buffer_inv (fst (buffered_set_etag e b)) = buffer_inv b"
  "buffer_inv (buffered_set_last_modified t b) = buffer_inv b"
  "buffer_inv (fst (buffered_write p b))"
  "buffer_inv (buffered_stream_body rd k b)"
  "buffer_inv (buffered_reset b)"
  by (simp_all add: buffer_inv_headers[OF headers_only_set] buffer_inv_headers[OF headers_only_add]
      headers_only_calls[THEN buffer_inv_headers])
    (simp_all add: buffer_inv_def buffered_defs)

lemma buffer_inv_write_header [simp]: "buffer_inv b \<Longrightarrow> buffer_inv (buffered_write_header c b)"
  by (simp add: buffer_inv_def buffered_write_header_def split: option.splits)

lemma buffer_inv_chunked [simp]: "buffer_inv (buffered_use_chunked b) = buffer_inv b"
  by (simp add: buffer_inv_def buffered_use_chunked_def split: option.split)

lemma buffer_inv_stream_range: "buffer_inv b \<Longrightarrow> buffer_inv (fst (buffered_stream_range rd k r b))"
  by (simp add: buffered_stream_range_def Let_def)

lemma buffer_inv_write_event: "buffer_inv b \<Longrightarrow> buffer_inv (fst (buffered_write_event ev b))"
  by (simp add: buffered_write_event_def Let_def split: sum.split)

lemma buffer_inv_not_modified: "buffer_inv b \<Longrightarrow> buffer_inv (fst (buffered_write_not_modified e t b))"
proof -
  assume b: "buffer_inv b"
  obtain w1 err where r: "(if e \<noteq> [] then buffered_set_etag e b else (b, None)) = (w1, err)" by fastforce
  then have "buffer_inv w1" using b buffer_inv_ops(5)[of e b] by (cases "e = []") simp_all
  then show ?thesis by (simp add: buffered_write_not_modified_def r split: option.split)
qed

lemma buffer_inv_send_file: "buffer_inv b \<Longrightarrow> buffer_inv (fst (buffered_send_file path b s))"
  by (simp add: buffered_send_file_def Let_def split: sum.split prod.split)

lemma buffer_inv_call: "buffer_inv b \<Longrightarrow> buffer_inv (buffered_call c (b, s))"
  by (cases c) (simp_all add: buffer_inv_stream_range buffer_inv_write_event buffer_inv_not_modified
      buffer_inv_send_file buffered_range_not_satisfiable_def)

lemma writer_steps_inv: "writer_steps w w' \<Longrightarrow> buffer_inv (buffer_of w) \<Longrightarrow> buffer_inv (buffer_of w')"
  by (induction rule: writer_steps.induct)
    (auto simp: buffer_of_apply_call buffer_inv_call layered.clear_law)

text \<open>A recorder stays a recorder, and the writer it embeds sees method calls only.\<close>

lemma apply_call_recorder:
  "\<exists>st' n'. fst (apply_call c (Logging w st n, s)) = Logging (fst (apply_call c (w, s))) st' n'"
  by (cases c) (auto simp: add_header_def set_header_def use_chunked_def stream_body_def promoted_proc_def
      split: prod.splits)

lemma writer_steps_recorder:
  "writer_steps w0 w' \<Longrightarrow> w0 = Logging w st n \<Longrightarrow> \<exists>w1 st' n'. w' = Logging w1 st' n' \<and> writer_steps w w1"
proof (induction rule: writer_steps.induct)
  case (steps_call w0 w1 c s)
  then obtain w2 st' n' where "w1 = Logging w2 st' n'" "writer_steps w w2" by auto
  then show ?case using apply_call_recorder[of c w2 st' n' s] writer_steps.steps_call[of w w2 c s] by auto
qed (auto intro: writer_steps.intros)

lemma writer_steps_ops:
  "writer_steps w (add_header n v w)" "writer_steps w (set_header n v w)" "writer_steps w (use_chunked w)"
  "writer_steps w (stream_body rd k w)" "writer_steps w (write_header c w)" "writer_steps w (fst (write_body p w))"
  using writer_steps.steps_call[OF writer_steps.steps_refl, of w "CallAddHeader n v" undefined]
    writer_steps.steps_call[OF writer_steps.steps_refl, of w "CallSetHeader n v" undefined]
    writer_steps.steps_call[OF writer_steps.steps_refl, of w "CallUseChunkedEncoding" undefined]
    writer_steps.steps_call[OF writer_steps.steps_refl, of w "CallStreamBody rd k" undefined]
    writer_steps.steps_call[OF writer_steps.steps_refl, of w "CallWriteHeader c" undefined]
    writer_steps.steps_call[OF writer_steps.steps_refl, of w "CallWrite p" undefined]
  by simp_all

text \<open>The status of the buffer after a call, once it is set.\<close>

lemma status_ops [frame_simps]:
  "bw_status (buffered_write_header c b) = (if bw_status b = 0 then c else bw_status b)"
  "bw_status (fst (buffered_write p b)) = (if bw_status b = 0 then 200 else bw_status b)"
  "bw_status (buffered_stream_body rd k b) = (if bw_status b = 0 then 200 else bw_status b)"
  "bw_status (buffered_use_chunked b) = bw_status b"
  by (simp_all add: buffered_defs)

lemma not_modified_status:
  "bw_status b \<noteq> 0 \<Longrightarrow> bw_status (fst (buffered_write_not_modified e t b)) = bw_status b"
proof -
  assume b: "bw_status b \<noteq> 0"
  obtain w1 err where r: "(if e \<noteq> [] then buffered_set_etag e b else (b, None)) = (w1, err)" by fastforce
  then have "bw_status w1 = bw_status b"
    using headers_only_fields[OF headers_only_calls(3)[of b e]] by (cases "e = []") simp_all
  then show ?thesis using b by (simp add: buffered_write_not_modified_def r frame_simps split: option.split)
qed

lemma send_file_status: "bw_status b \<noteq> 0 \<Longrightarrow> bw_status (fst (buffered_send_file path b s)) = bw_status b"
  by (simp add: buffered_send_file_def Let_def frame_simps split: sum.split prod.split)

lemma call_status: "bw_status b \<noteq> 0 \<Longrightarrow> bw_status (buffered_call c (b, s)) = bw_status b"
  by (cases c) (simp_all add: frame_simps not_modified_status send_file_status buffered_stream_range_def
      buffered_write_event_def buffered_range_not_satisfiable_def Let_def split: sum.split)

section \<open>Header lookups\<close>

lemma set_first_header_values:
  "set_first_header hs n v = (if has_header hs n then
     Some (takeWhile (\<lambda>h. \<not> equal_fold (hname h) n) hs @
       (hd (dropWhile (\<lambda>h. \<not> equal_fold (hname h) n) hs))\<lparr>hvalue := v\<rparr> #
       tl (dropWhile (\<lambda>h. \<not> equal_fold (hname h) n) hs)) else None)"
  by (induction hs) (auto simp: has_header_def)

lemma set_first_header_field_values:
  "set_first_header hs n v = Some hs' \<Longrightarrow>
     field_values hs' m = (if equal_fold n m then v # tl (field_values hs m) else field_values hs m) \<and>
     map hname hs' = map hname hs"
proof (induction hs arbitrary: hs')
  case (Cons h hs)
  show ?case
  proof (cases "equal_fold (hname h) n")
    case True
    then have "equal_fold (hname h) m \<longleftrightarrow> equal_fold n m"
      using equal_fold_sym equal_fold_trans by blast
    with True Cons.prems show ?thesis by auto
  next
    case False
    then obtain hs2 where hs2: "set_first_header hs n v = Some hs2" "hs' = h # hs2"
      using Cons.prems by auto
    have "\<not> (equal_fold (hname h) m \<and> equal_fold n m)"
      using False equal_fold_sym equal_fold_trans by blast
    with Cons.IH[OF hs2(1)] hs2(2) show ?thesis by auto
  qed
qed simp

lemma set_first_header_None: "set_first_header hs n v = None \<longleftrightarrow> field_values hs n = []"
  by (induction hs) auto

lemma field_values_fold: "equal_fold n m \<Longrightarrow> field_values hs n = field_values hs m"
  by (simp add: field_values_def equal_fold_def)

lemma field_values_append: "field_values (hs @ gs) n = field_values hs n @ field_values gs n"
  by (simp add: field_values_def)

lemma set_header_values:
  "field_values (bw_headers (buffered_set_header n v b)) m =
     (if equal_fold n m then v # tl (field_values (bw_headers b) m) else field_values (bw_headers b) m)"
proof (cases "set_first_header (bw_headers b) n v")
  case None
  then have "field_values (bw_headers b) n = []" by (simp add: set_first_header_None)
  then have "field_values (bw_headers b) m = []" if "equal_fold n m"
    using field_values_fold[OF that] by simp
  with None show ?thesis
    by (simp add: buffered_set_header_def buffered_add_header_def field_values_append)
next
  case (Some hs)
  then show ?thesis
    using set_first_header_field_values[OF Some, of m] by (simp add: buffered_set_header_def)
qed

section \<open>The recorder\<close>

text \<open>The calls that the recorder sees, or that leave status and body alone.\<close>

fun recorded_call :: "writer_call \<Rightarrow> bool" where
  "recorded_call (CallStreamBody rd n) = False"
| "recorded_call (CallStreamRange rd n r) = False"
| "recorded_call (CallSendFile path) = False"
| "recorded_call (CallWriteEvent ev) = False"
| "recorded_call (CallWriteRangeNotSatisfiable n) = False"
| "recorded_call (CallWriteNotModified e t) = False"
| "recorded_call c = True"

text \<open>A recorder and the buffer it wraps agree on the status and on the number of body bytes.\<close>

definition in_step :: "resp_writer \<Rightarrow> bool" where
  "in_step w \<longleftrightarrow> (\<exists>b. w = Logging (Buffered b) (bw_status b) (int (length (bw_body b))))"

lemma in_step_call: "in_step w \<Longrightarrow> recorded_call c \<Longrightarrow> in_step (fst (apply_call c (w, s)))"
proof -
  assume "in_step w" and c: "recorded_call c"
  then obtain b where w: "w = Logging (Buffered b) (bw_status b) (int (length (bw_body b)))"
    by (auto simp: in_step_def)
  from c show ?thesis
    by (cases c) (auto simp: w in_step_def add_header_def set_header_def use_chunked_def promoted_proc_def
        frame_simps buffered_write_header_def buffered_write_def buffered_use_chunked_def case_prod_beta)
qed

lemma in_step_calls:
  "in_step w \<Longrightarrow> list_all recorded_call cs \<Longrightarrow> in_step (fst (fold apply_call cs (w, s)))"
proof (induction cs arbitrary: w s)
  case (Cons c cs)
  obtain w1 s1 where w1: "apply_call c (w, s) = (w1, s1)" by (cases "apply_call c (w, s)")
  then have "in_step w1" using in_step_call[of w c s] Cons.prems by simp
  with Cons.IH[of w1 s1] Cons.prems w1 show ?case by simp
qed simp

lemma calls_status:
  "bw_status (buffer_of w) \<noteq> 0 \<Longrightarrow>
     bw_status (buffer_of (fst (fold apply_call cs (w, s)))) = bw_status (buffer_of w)"
proof (induction cs arbitrary: w s)
  case (Cons c cs)
  obtain w1 s1 where w1: "apply_call c (w, s) = (w1, s1)" by (cases "apply_call c (w, s)")
  then have "bw_status (buffer_of w1) = bw_status (buffer_of w)"
    using buffer_of_apply_call[of c w s] call_status[OF Cons.prems] by simp
  with Cons.IH[of w1 s1] Cons.prems w1 show ?case by simp
qed simp

section \<open>Files\<close>

lemma buffered_send_file_failed:
  assumes "files s path = None \<or> (\<exists>f. files s path = Some f \<and> (file_stat_fails f \<or> file_is_dir f))" "handles_fresh s"
  shows "\<exists>er s'. buffered_send_file path b s = (b, Some er, s') \<and> open_files s' = open_files s"
proof (cases "files s path")
  case None
  then show ?thesis by (simp add: buffered_send_file_def os_open_def)
next
  case (Some f)
  then have "os_open path s = (Inr (f, next_file s),
      s\<lparr>open_files := insert (next_file s) (open_files s), next_file := Suc (next_file s)\<rparr>)" (is "_ = (_, ?s)")
    by (simp add: os_open_def)
  moreover from this assms(2) have "open_files (close_file (next_file s) ?s) = open_files s"
    using close_file_open by blast
  ultimately show ?thesis
    using assms(1) Some by (cases "file_stat_fails f") (simp_all add: buffered_send_file_def)
qed

lemma buffered_send_file_sent:
  assumes "files s path = Some f" "\<not> file_stat_fails f" "\<not> file_is_dir f"
  shows "\<exists>b1. buffered_send_file path b s =
    (buffered_stream_body \<lparr>stream_src = \<lparr>segs = [file_data f], src_err = IoEOF, src_eager = False\<rparr>,
        stream_closer = Some (next_file s)\<rparr> (int (length (file_data f))) b1, None,
     s\<lparr>open_files := insert (next_file s) (open_files s), next_file := Suc (next_file s)\<rparr>) \<and>
    bw_status b1 = bw_status b"
  by (rule exI[of _ "buffered_set_last_modified (file_modified f) (buffered_set_header ''Accept-Ranges'' ''bytes''
        (if mime_types s (file_ext path) \<noteq> [] then buffered_set_header ''Content-Type'' (mime_types s (file_ext path)) b
         else b))"])
    (use assms in \<open>simp add: buffered_send_file_def os_open_def Let_def frame_simps\<close>)

section \<open>Properties\<close>

text \<open>
  \<open>SetHeader\<close> and the lookup: the first field of the name, in any spelling, gets the value, a
  field is added when there is none, and the values of every other name are unchanged. This
  holds through any number of recorders.
\<close>

theorem set_header_get:
  "field_values (bw_headers (buffer_of (set_header n v w))) m =
     (if equal_fold n m then v # tl (field_values (bw_headers (buffer_of w)) m)
      else field_values (bw_headers (buffer_of w)) m)"
  by (simp only: layered.laws set_header_values)

text \<open>
  The first status wins: once a status is set, by \<open>WriteHeader\<close> or implicitly, no sequence of
  method calls of any kind changes the status of the response.
\<close>

theorem response_status_final:
  assumes "bw_status (buffer_of w) \<noteq> 0"
  shows "resp_status (buffered_response (buffer_of (fst (fold apply_call cs (w, s))))) = bw_status (buffer_of w)"
  using calls_status[OF assms] assms by (simp add: buffered_response_def)

definition quiet_world :: world where
  "quiet_world = \<lparr>files = (\<lambda>_. None), mime_types = (\<lambda>_. []), open_files = {}, next_file = 0,
     clock = (\<lambda>n. time_of_ns (int n + 1)), clock_reads = 0, request_id_counter = 0, app_log = [], limiters = []\<rparr>"

theorem response_status_final_witness:
  "resp_status (buffered_response (buffer_of (fst (fold apply_call
     [CallWriteHeader 500, CallWrite ''x'', CallWriteNotModified [] zero_time]
     (Logging (Buffered (new_buffered_writer\<lparr>bw_status := 204\<rparr>)) 0 0, quiet_world))))) = 204"
proof -
  let ?w = "Logging (Buffered (new_buffered_writer\<lparr>bw_status := 204\<rparr>)) 0 0"
  have st: "bw_status (buffer_of ?w) = 204" by (simp add: new_buffered_writer_def)
  then have nz: "bw_status (buffer_of ?w) \<noteq> 0" by simp
  show ?thesis by (rule trans[OF response_status_final[OF nz] st])
qed

text \<open>
  C33. The access log is right for plain responses: when a handler uses only header methods,
  \<open>WriteHeader\<close> and \<open>Write\<close>, in any order, the recorder ends with the status and the number of
  body bytes of the response.
\<close>

theorem recorder_agrees:
  assumes "list_all recorded_call cs"
    and "fst (fold apply_call cs (Logging (Buffered new_buffered_writer) 0 0, s)) = Logging w st n"
  shows "recorded_status st = resp_status (buffered_response (buffer_of w)) \<and>
    n = int (length (resp_body (buffered_response (buffer_of w))))"
proof -
  have "in_step (Logging (Buffered new_buffered_writer) 0 0)"
    unfolding in_step_def by (rule exI[of _ new_buffered_writer]) (simp add: new_buffered_writer_def)
  from in_step_calls[OF this assms(1), of s] assms(2) have "in_step (Logging w st n)" by simp
  then show ?thesis by (auto simp: in_step_def recorded_status_def buffered_response_def)
qed

theorem recorder_agrees_witness:
  "\<exists>w st n. fst (fold apply_call [CallSetHeader ''A'' ''b'', CallWrite ''xyz'', CallWriteHeader 404]
     (Logging (Buffered new_buffered_writer) 0 0, quiet_world)) = Logging w st n \<and>
     recorded_status st = resp_status (buffered_response (buffer_of w)) \<and> n = 3"
proof -
  let ?cs = "[CallSetHeader ''A'' ''b'', CallWrite ''xyz'', CallWriteHeader 404]"
  let ?w = "Logging (Buffered new_buffered_writer) 0 0"
  have cs: "list_all recorded_call ?cs" by simp
  obtain w st n where r: "fst (fold apply_call ?cs (?w, quiet_world)) = Logging w st n"
    by (simp add: set_header_def promoted_proc_def buffered_write_def case_prod_beta)
  then have "n = 3"
    by (simp add: set_header_def promoted_proc_def buffered_write_def case_prod_beta)
  with r recorder_agrees[OF cs r] show ?thesis by blast
qed

text \<open>
  The access log is wrong for the other responses: a range that \<open>StreamRange\<close> accepts is
  answered with 206, a range that cannot be satisfied with 416, and a revalidation with 304,
  but the recorder has seen none of it and logs 200.
\<close>

theorem recorder_misses_status:
  assumes "0 \<le> br_start r" "br_start r \<le> br_end r" "br_end r < size'"
    and "w0 = Logging (Buffered new_buffered_writer) 0 0"
  shows "(fst (promoted (buffered_stream_range rd size' r) w0) = Logging w1 st1 n1 \<longrightarrow>
      recorded_status st1 = 200 \<and> resp_status (buffered_response (buffer_of w1)) = 206) \<and>
    (promoted_proc (buffered_range_not_satisfiable size') w0 = Logging w2 st2 n2 \<longrightarrow>
      recorded_status st2 = 200 \<and> resp_status (buffered_response (buffer_of w2)) = 416) \<and>
    (fst (promoted (buffered_write_not_modified [] t) w0) = Logging w3 st3 n3 \<longrightarrow>
      recorded_status st3 = 200 \<and> resp_status (buffered_response (buffer_of w3)) = 304)"
  using assms
  by (auto simp: buffered_stream_range_def buffered_range_not_satisfiable_def buffered_write_not_modified_def
      buffered_response_def frame_simps recorded_status_def new_buffered_writer_def promoted_proc_def Let_def
      case_prod_beta)

theorem recorder_misses_status_witness:
  "\<exists>w st n. fst (promoted (buffered_stream_range (\<lambda>off k. \<lparr>segs = [''abc''], src_err = IoEOF, src_eager = False\<rparr>) 9
      (new_byte_range 3 5)) (Logging (Buffered new_buffered_writer) 0 0)) = Logging w st n \<and>
     recorded_status st = 200 \<and> resp_status (buffered_response (buffer_of w)) = 206"
proof -
  let ?rd = "\<lambda>off k. \<lparr>segs = [''abc''], src_err = IoEOF, src_eager = False\<rparr>"
  let ?w = "Logging (Buffered new_buffered_writer) 0 0"
  obtain w st n where r: "fst (promoted (buffered_stream_range ?rd 9 (new_byte_range 3 5)) ?w) = Logging w st n"
    by (simp add: case_prod_beta)
  then show ?thesis
    using recorder_misses_status[of "new_byte_range 3 5" 9 ?w ?rd w st n] by (auto simp: new_byte_range_def)
qed

text \<open>
  C34. Files: \<open>SendFile\<close> either fails, leaves the response as it was and no file open, or the
  response owns the one new handle, is as long as the file, and \<open>WriteResponse\<close> closes it.
\<close>

theorem send_file_owns_handle:
  assumes "send_file path w s = (w', e, s')" "handles_fresh s"
  shows "if e = None then
      open_files s' = insert (next_file s) (open_files s) \<and> next_file s \<notin> open_files s \<and>
      resp_closer (buffered_response (buffer_of w')) = Some (next_file s) \<and>
      (\<exists>f. files s path = Some f \<and> response_body_length (buffered_response (buffer_of w')) = int (length (file_data f)) \<and>
        (100 \<le> resp_status (buffered_response (buffer_of w')) \<and> resp_status (buffered_response (buffer_of w')) \<le> 999 \<longrightarrow>
          snd (snd (write_response wr (buffered_response (buffer_of w')) c)) = [next_file s]))
    else buffer_of w' = buffer_of w \<and> open_files s' = open_files s"
proof -
  note b = buffer_of_send_file[OF assms(1)]
  have fresh: "next_file s \<notin> open_files s" using assms(2) by (auto simp: handles_fresh_def)
  show ?thesis
  proof (cases "\<exists>f. files s path = Some f \<and> \<not> file_stat_fails f \<and> \<not> file_is_dir f")
    case True
    then obtain f where f: "files s path = Some f" "\<not> file_stat_fails f" "\<not> file_is_dir f" by blast
    from buffered_send_file_sent[OF this, of "buffer_of w"] b f(1) fresh show ?thesis
      by (auto simp: buffered_response_def buffered_stream_body_def response_body_length_def zero_response_def
          write_response_def Let_def effective_version_def split: prod.split)
  next
    case False
    then have "files s path = None \<or> (\<exists>f. files s path = Some f \<and> (file_stat_fails f \<or> file_is_dir f))"
      by (cases "files s path") auto
    from buffered_send_file_failed[OF this assms(2), of "buffer_of w"] b show ?thesis by auto
  qed
qed

definition one_file_world :: world where
  "one_file_world = quiet_world\<lparr>files := [''/a.txt'' \<mapsto> \<lparr>file_stat_fails = False, file_is_dir = False,
     file_modified = zero_time, file_data = ''hello''\<rparr>]\<rparr>"

theorem send_file_owns_handle_witness:
  "\<exists>w' s'. send_file ''/a.txt'' (Buffered new_buffered_writer) one_file_world = (w', None, s') \<and>
     open_files s' = {0} \<and> resp_closer (buffered_response (buffer_of w')) = Some 0"
proof -
  obtain w' e s' where r: "send_file ''/a.txt'' (Buffered new_buffered_writer) one_file_world = (w', e, s')"
    by (metis prod_cases3)
  have "e = None"
    using r by (auto simp: buffered_send_file_def os_open_def one_file_world_def Let_def split: prod.splits)
  moreover have "handles_fresh one_file_world" "next_file one_file_world = 0" "open_files one_file_world = {}"
    by (simp_all add: handles_fresh_def one_file_world_def quiet_world_def)
  ultimately show ?thesis
    using send_file_owns_handle[OF r, of sink_write "\<lparr>sink_sent = [], sink_room = None\<rparr>"] r by simp
qed

text \<open>
  A stream that is replaced is never closed: after a successful \<open>SendFile\<close>, a later \<open>Write\<close>,
  another stream that has no \<open>Close\<close>, or the reset after a panic leaves the file open, and
  \<open>WriteResponse\<close> closes nothing.
\<close>

theorem replaced_stream_leaks:
  assumes "send_file path w s = (w1, None, s1)"
    and "w2 \<in> {fst (write_body p w1), stream_body \<lparr>stream_src = src, stream_closer = None\<rparr> k w1, reset_writer w1}"
  shows "next_file s \<in> open_files s1 \<and> snd (snd (write_response wr (buffered_response (buffer_of w2)) c)) = []"
proof -
  have "next_file s \<in> open_files s1"
    using buffer_of_send_file[OF assms(1)]
    by (auto simp: buffered_send_file_def os_open_def Let_def split: prod.splits sum.splits option.splits if_splits)
  moreover have "bw_closer (buffer_of w2) = None"
    using assms(2) by (auto simp: layered.laws buffered_defs)
  then have "resp_closer (buffered_response (buffer_of w2)) = None" by (simp add: buffered_response_def)
  then have "snd (snd (write_response wr (buffered_response (buffer_of w2)) c)) = []"
    by (simp add: write_response_def Let_def split: prod.split)
  ultimately show ?thesis by blast
qed

theorem replaced_stream_leaks_witness:
  "\<exists>w1 s1. send_file ''/a.txt'' (Buffered new_buffered_writer) one_file_world = (w1, None, s1) \<and>
     0 \<in> open_files s1 \<and> snd (snd (write_response sink_write (buffered_response (buffer_of (fst (write_body ''x'' w1))))
        \<lparr>sink_sent = [], sink_room = None\<rparr>)) = []"
proof -
  obtain w1 e s1 where r: "send_file ''/a.txt'' (Buffered new_buffered_writer) one_file_world = (w1, e, s1)"
    by (metis prod_cases3)
  have "e = None"
    using r by (auto simp: buffered_send_file_def os_open_def one_file_world_def Let_def split: prod.splits)
  with r have r: "send_file ''/a.txt'' (Buffered new_buffered_writer) one_file_world = (w1, None, s1)" by simp
  have "next_file one_file_world = 0" by (simp add: one_file_world_def quiet_world_def)
  with r replaced_stream_leaks[OF r, of "fst (write_body ''x'' w1)" "''x''" undefined undefined sink_write
      "\<lparr>sink_sent = [], sink_room = None\<rparr>"] show ?thesis by auto
qed

end
