(* ===== verification/Middleware.thy ===== *)
theory Middleware
  imports Writer_Facts
begin

text \<open>
  Application handlers and the middlewares (httpserver/app.go, middleware.go, recovery.go,
  auth.go, request_id.go, logging.go, cors.go, compression.go and the middleware of
  rate_limit.go).

  A handler takes the writer, the request and the world, and returns or panics. A middleware is
  a function from handlers to handlers that may allocate when it is applied, as the rate
  limiter does, so that applying it is an operation on the world.
\<close>

section \<open>Handlers and chains\<close>

datatype outcome = Returned | Panicked bytes

type_synonym handler = "resp_writer \<Rightarrow> request \<Rightarrow> world \<Rightarrow> outcome \<times> resp_writer \<times> world"

type_synonym middleware = "handler \<Rightarrow> world \<Rightarrow> handler \<times> world"

text \<open>\<open>AppHandlerFunc\<close>: calling the handler made of a function calls the function.\<close>

definition app_handler_func :: "handler \<Rightarrow> handler" where
  "app_handler_func f w r s = f w r s"

definition default_app_handler :: handler where
  "default_app_handler = app_handler_func (\<lambda>w r s.
     let w1 = add_header ''X-WBSV-Method'' (http_method r) w;
         w2 = add_header ''X-WBSV-Target'' (http_target r) w1;
         w3 = set_header ''Content-Type'' ''text/plain; charset=utf-8'' w2
     in (Returned, fst (write_body (''hello from _wbsv'' @ [lf]) w3), s))"

lemma default_app_handler_call:
  "default_app_handler w r s =
     (let w1 = add_header ''X-WBSV-Method'' (http_method r) w;
          w2 = add_header ''X-WBSV-Target'' (http_target r) w1;
          w3 = set_header ''Content-Type'' ''text/plain; charset=utf-8'' w2
      in (Returned, fst (write_body (''hello from _wbsv'' @ [lf]) w3), s))"
  by (simp add: default_app_handler_def app_handler_func_def)

text \<open>The loop of \<open>Chain\<close>, which runs from the last middleware to the first and skips nil.\<close>

fun apply_middlewares :: "middleware option list \<Rightarrow> handler \<Rightarrow> world \<Rightarrow> handler \<times> world" where
  "apply_middlewares [] h s = (h, s)"
| "apply_middlewares (m # ms) h s =
     (case apply_middlewares ms h s of (h1, s1) \<Rightarrow>
        (case m of None \<Rightarrow> (h1, s1) | Some mw \<Rightarrow> mw h1 s1))"

definition chain :: "handler option \<Rightarrow> middleware option list \<Rightarrow> world \<Rightarrow> handler \<times> world" where
  "chain h ms s = apply_middlewares ms (case h of None \<Rightarrow> default_app_handler | Some h' \<Rightarrow> h') s"

section \<open>Recovery\<close>

text \<open>Every writer of the package has the method that \<open>resetResponse\<close> asks for.\<close>

definition reset_response :: "resp_writer \<Rightarrow> resp_writer" where
  "reset_response w = reset_writer w"

declare reset_response_def [simp]

definition recovery_middleware :: "bool \<Rightarrow> middleware" where
  "recovery_middleware logger next' s0 =
     ((\<lambda>w r s.
        case next' w r s of
          (Returned, w1, s1) \<Rightarrow> (Returned, w1, s1)
        | (Panicked v, w1, s1) \<Rightarrow>
            let s2 = (if logger then log_printf (PanicLine (http_method r) (http_target r) v) s1 else s1);
                w2 = reset_response w1;
                w3 = set_header ''Content-Type'' ''text/plain; charset=utf-8'' w2;
                w4 = write_header 500 w3
            in (Returned, fst (write_body (''internal server error'' @ [lf]) w4), s2)), s0)"

section \<open>Bearer authentication\<close>

fun bearer_token_matches :: "header_field list \<Rightarrow> bytes \<Rightarrow> bool" where
  "bearer_token_matches [] want = False"
| "bearer_token_matches (h # hs) want =
     (if \<not> equal_fold (hname h) ''Authorization'' then bearer_token_matches hs want
      else (case cut (trim_space (hvalue h)) sp of (scheme, token, ok) \<Rightarrow>
        if \<not> ok \<or> \<not> equal_fold scheme ''Bearer'' then bearer_token_matches hs want
        else if trim_space token = want then True
        else bearer_token_matches hs want))"

definition bearer_auth_middleware :: "bytes \<Rightarrow> middleware" where
  "bearer_auth_middleware token next' s0 =
     ((\<lambda>w r s.
        if token = [] \<or> bearer_token_matches (http_headers r) token then next' w r s
        else
          let w1 = set_header ''WWW-Authenticate'' (''Bearer realm='' @ [dquote] @ ''wbsv'' @ [dquote]) w;
              w2 = set_header ''Content-Type'' ''text/plain; charset=utf-8'' w1;
              w3 = write_header 401 w2
          in (Returned, fst (write_body (''unauthorized'' @ [lf]) w3), s)), s0)"

section \<open>Request IDs\<close>

definition request_id_header :: bytes where
  "request_id_header = ''X-Request-ID''"

fun request_id_from_headers :: "header_field list \<Rightarrow> bytes" where
  "request_id_from_headers [] = []"
| "request_id_from_headers (h # hs) =
     (if equal_fold (hname h) request_id_header then trim_space (hvalue h) else request_id_from_headers hs)"

text \<open>The counter is a \<open>uint64\<close> that is incremented atomically.\<close>

definition next_request_id :: "world \<Rightarrow> bytes \<times> world" where
  "next_request_id s =
     (let i = request_id_counter s + 1
      in (''wbsv-'' @ format_int (uint i), s\<lparr>request_id_counter := i\<rparr>))"

fun context_request_id :: "req_ctx \<Rightarrow> bytes option" where
  "context_request_id BackgroundCtx = None"
| "context_request_id (RequestIdCtx v c) = Some v"

definition request_id_from_context :: "req_ctx option \<Rightarrow> bytes \<times> bool" where
  "request_id_from_context ctx =
     (case ctx of None \<Rightarrow> ([], False)
      | Some c \<Rightarrow> (case context_request_id c of None \<Rightarrow> ([], False) | Some v \<Rightarrow> (v, v \<noteq> [])))"

definition request_id_middleware :: middleware where
  "request_id_middleware next' s0 =
     ((\<lambda>w r s.
        let hid = request_id_from_headers (http_headers r)
        in case (if hid = [] then next_request_id s else (hid, s)) of (requestID, s1) \<Rightarrow>
          let ctx = (case req_context r of None \<Rightarrow> BackgroundCtx | Some c \<Rightarrow> c)
          in case next' w (r\<lparr>req_context := Some (RequestIdCtx requestID ctx)\<rparr>) s1 of
               (Returned, w1, s2) \<Rightarrow> (Returned, set_header request_id_header requestID w1, s2)
             | (Panicked v, w1, s2) \<Rightarrow> (Panicked v, w1, s2)), s0)"

section \<open>Access log\<close>

definition logging_middleware :: "bool \<Rightarrow> middleware" where
  "logging_middleware logger next' s0 =
     ((\<lambda>w r s.
        case time_now s of (startedAt, s1) \<Rightarrow>
        (case next' (Logging w 0 0) r s1 of (oc, w1, s2) \<Rightarrow>
        (case recorder_parts w1 of (w2, st, n) \<Rightarrow>
          (case oc of
             Panicked v \<Rightarrow> (Panicked v, w2, s2)
           | Returned \<Rightarrow>
               if logger then
                 (case time_now s2 of (now, s3) \<Rightarrow>
                   (Returned, w2, log_printf (AccessLine (http_method r) (http_target r) (recorded_status st) (recorded_bytes n)
                      (time_sub now startedAt)) s3))
               else (Returned, w2, s2))))), s0)"

section \<open>Cross-origin requests\<close>

record cors_options =
  allow_origins :: "bytes list"
  allow_methods :: "bytes list"
  allow_headers :: "bytes list"
  expose_headers :: "bytes list"
  allow_credentials :: bool
  cors_max_age :: int

fun cors_allowed_origin :: "bytes \<Rightarrow> bytes list \<Rightarrow> bool \<Rightarrow> bytes" where
  "cors_allowed_origin origin [] allowCredentials = []"
| "cors_allowed_origin origin (c # cs) allowCredentials =
     (let candidate = trim_space c in
      if candidate = ''*'' then (if allowCredentials then origin else ''*'')
      else if equal_fold candidate origin then origin
      else cors_allowed_origin origin cs allowCredentials)"

definition is_cors_preflight :: "request \<Rightarrow> bool" where
  "is_cors_preflight r \<longleftrightarrow> equal_fold (http_method r) ''OPTIONS'' \<and>
     header_value_fold (http_headers r) ''Access-Control-Request-Method'' \<noteq> []"

definition write_cors_actual_headers :: "bytes \<Rightarrow> cors_options \<Rightarrow> resp_writer \<Rightarrow> resp_writer" where
  "write_cors_actual_headers allowedOrigin options w =
     (let w1 = set_header ''Access-Control-Allow-Origin'' allowedOrigin w;
          w2 = (if allowedOrigin \<noteq> ''*'' then add_header ''Vary'' ''Origin'' w1 else w1);
          w3 = (if allow_credentials options then set_header ''Access-Control-Allow-Credentials'' ''true'' w2 else w2)
      in if expose_headers options \<noteq> []
         then set_header ''Access-Control-Expose-Headers'' (join '', '' (expose_headers options)) w3 else w3)"

definition write_cors_preflight_headers :: "request \<Rightarrow> cors_options \<Rightarrow> resp_writer \<Rightarrow> resp_writer" where
  "write_cors_preflight_headers r options w =
     (let ms = (if allow_methods options = []
                then [header_value_fold (http_headers r) ''Access-Control-Request-Method''] else allow_methods options);
          w1 = set_header ''Access-Control-Allow-Methods'' (join '', '' ms) w;
          hs = (if allow_headers options = []
                then split_header_list (header_value_fold (http_headers r) ''Access-Control-Request-Headers'')
                else allow_headers options);
          w2 = (if hs \<noteq> [] then set_header ''Access-Control-Allow-Headers'' (join '', '' hs) w1 else w1)
      in if 0 < cors_max_age options
         then set_header ''Access-Control-Max-Age'' (format_int (cors_max_age options)) w2 else w2)"

definition cors_middleware :: "cors_options \<Rightarrow> middleware" where
  "cors_middleware options next' s0 =
     ((\<lambda>w r s.
        let origin = header_value_fold (http_headers r) ''Origin'' in
        if origin = [] then next' w r s
        else (let allowedOrigin = cors_allowed_origin origin (allow_origins options) (allow_credentials options) in
          if allowedOrigin = [] then next' w r s
          else (let w1 = write_cors_actual_headers allowedOrigin options w in
            if is_cors_preflight r then (Returned, write_header 204 (write_cors_preflight_headers r options w1), s)
            else next' w1 r s))), s0)"

section \<open>Compression\<close>

definition response_status_allows_body :: "int \<Rightarrow> bool" where
  "response_status_allows_body code =
     (if 100 \<le> code \<and> code < 200 then False else code \<noteq> 204 \<and> code \<noteq> 304)"

definition should_gzip_response :: "request \<Rightarrow> response \<Rightarrow> int \<Rightarrow> bool" where
  "should_gzip_response r resp minBodyBytes =
     (let m = (if minBodyBytes < 0 then 0 else minBodyBytes) in
      if int (length (resp_body resp)) < m then False
      else if resp_body resp = [] \<or> \<not> response_status_allows_body (resp_status resp) then False
      else if has_header (resp_headers resp) ''Content-Encoding'' then False
      else header_has_token (http_headers r) ''Accept-Encoding'' ''gzip'')"

definition write_buffered_response :: "resp_writer \<Rightarrow> response \<Rightarrow> resp_writer" where
  "write_buffered_response w resp =
     (let w1 = fold (\<lambda>h w. if equal_fold (hname h) ''Content-Length'' then w else add_header (hname h) (hvalue h) w)
                 (resp_headers resp) w;
          w2 = (if resp_chunked resp then use_chunked w1 else w1)
      in case resp_reader resp of
           Some rd \<Rightarrow> stream_body rd (resp_length resp) (write_header (resp_status resp) w2)
         | None \<Rightarrow> fst (write_body (resp_body resp) (write_header (resp_status resp) w2)))"

text \<open>
  The compressor of the standard library behind \<open>gzipBytes\<close> is the parameter \<open>gz\<close>, which gives
  no result when it fails.
\<close>

text \<open>
  What a \<open>gzip.Writer\<close> on a buffer makes of one \<open>Write\<close> and a \<open>Close\<close>: whether the \<open>Write\<close> succeeded,
  and what the buffer holds after a \<open>Close\<close> that succeeded.
\<close>

type_synonym gzip_writer = "bytes \<Rightarrow> bool \<times> bytes option"

definition gzip_bytes :: "gzip_writer \<Rightarrow> bytes \<Rightarrow> bytes option" where
  "gzip_bytes gz body = (case gz body of (written, closed) \<Rightarrow> if \<not> written then None else closed)"

text \<open>A compressor that only stores, for examples.\<close>

definition store_only :: gzip_writer where
  "store_only body = (True, Some body)"

definition gzip_compression_middleware :: "gzip_writer \<Rightarrow> int \<Rightarrow> middleware" where
  "gzip_compression_middleware gz minBodyBytes next' s0 =
     ((\<lambda>w r s.
        case next' (Buffered new_buffered_writer) r s of
          (Panicked v, b, s1) \<Rightarrow> (Panicked v, w, s1)
        | (Returned, b, s1) \<Rightarrow>
            let resp = buffered_response (buffer_of b);
                resp1 = (if should_gzip_response r resp minBodyBytes then
                  (case gzip_bytes gz (resp_body resp) of
                     None \<Rightarrow> resp
                   | Some compressed \<Rightarrow>
                       resp\<lparr>resp_body := compressed,
                            resp_headers := without_header (resp_headers resp) ''Content-Length'' @
                              [HeaderField ''Content-Encoding'' ''gzip'', HeaderField ''Vary'' ''Accept-Encoding'']\<rparr>)
                  else resp)
            in (Returned, write_buffered_response w resp1, s1)), s0)"

section \<open>Rate limiting\<close>

text \<open>Applying the middleware allocates a limiter, unless the configuration disables it.\<close>

definition rate_limited_handler :: "nat \<Rightarrow> handler \<Rightarrow> handler" where
  "rate_limited_handler i next' w r s =
     (case time_now s of (current, s1) \<Rightarrow>
      (case allow (limiters s1 ! i) current of ((allowed, retryAfter), l) \<Rightarrow>
        let s2 = s1\<lparr>limiters := (limiters s1)[i := l]\<rparr> in
        if allowed then next' w r s2
        else
          let w1 = set_header ''Retry-After'' (format_int retryAfter) w;
              w2 = set_header ''Content-Type'' ''text/plain; charset=utf-8'' w1;
              w3 = write_header 429 w2
          in (Returned, fst (write_body (''too many requests'' @ [lf]) w3), s2)))"

definition fixed_window_rate_limit_middleware :: "int \<Rightarrow> int \<Rightarrow> middleware" where
  "fixed_window_rate_limit_middleware limit window next' s0 =
     (if limit \<le> 0 \<or> window \<le> 0 then (next', s0)
      else (rate_limited_handler (length (limiters s0)) next',
            s0\<lparr>limiters := limiters s0 @ [new_limiter limit window]\<rparr>))"

text \<open>The exported constructor: the clock is that of the world.\<close>

definition rate_limit_middleware :: "int \<Rightarrow> int \<Rightarrow> middleware" where
  "rate_limit_middleware limit window = fixed_window_rate_limit_middleware limit window"

declare rate_limit_middleware_def [simp]

end
