(* ===== verification/Middleware_Facts.thy ===== *)
theory Middleware_Facts
  imports Middleware
begin

text \<open>
  The properties of the middlewares: they reach the writer by method calls only, recovery turns
  every panic into one response, authentication cannot be bypassed, request IDs are passed on,
  cross-origin headers go to configured origins only, and compression changes the encoding of
  a response and nothing else.
\<close>

section \<open>Well-behaved handlers\<close>

text \<open>A handler reaches the writer only through its methods, and keeps it the same writer.\<close>

definition well_behaved :: "handler \<Rightarrow> bool" where
  "well_behaved h \<longleftrightarrow> (\<forall>w r s oc w' s'. h w r s = (oc, w', s') \<longrightarrow> writer_steps w w')"

definition preserving :: "middleware \<Rightarrow> bool" where
  "preserving m \<longleftrightarrow> (\<forall>h s. well_behaved h \<longrightarrow> well_behaved (fst (m h s)))"

lemma well_behavedD: "well_behaved h \<Longrightarrow> h w r s = (oc, w', s') \<Longrightarrow> writer_steps w w'"
  unfolding well_behaved_def by blast

lemmas steps_after = writer_steps_trans[OF writer_steps_ops(1)] writer_steps_trans[OF writer_steps_ops(2)]
  writer_steps_trans[OF writer_steps_ops(3)] writer_steps_trans[OF writer_steps_ops(4)]
  writer_steps_trans[OF writer_steps_ops(5)] writer_steps_trans[OF writer_steps_ops(6)]

lemma default_well_behaved: "well_behaved default_app_handler"
  by (auto simp: well_behaved_def default_app_handler_call Let_def intro!: steps_after writer_steps.steps_refl)

lemma recovery_preserving: "preserving (recovery_middleware logger)"
  unfolding preserving_def
proof (intro allI impI)
  fix h s0 assume h: "well_behaved h"
  show "well_behaved (fst (recovery_middleware logger h s0))"
    unfolding well_behaved_def
  proof (intro allI impI)
    fix w r s oc w' s'
    assume run: "fst (recovery_middleware logger h s0) w r s = (oc, w', s')"
    obtain oc1 w1 s1 where h1: "h w r s = (oc1, w1, s1)" by (metis prod_cases3)
    have st: "writer_steps w w1" using well_behavedD[OF h h1] .
    from run h1 st show "writer_steps w w'"
      by (cases oc1) (auto simp: recovery_middleware_def Let_def
          intro!: steps_after writer_steps.steps_reset)
  qed
qed

lemma bearer_preserving: "preserving (bearer_auth_middleware token)"
  by (auto simp: preserving_def well_behaved_def bearer_auth_middleware_def Let_def
      intro!: steps_after writer_steps.steps_refl split: if_splits)

lemma request_id_preserving: "preserving request_id_middleware"
  unfolding preserving_def
proof (intro allI impI)
  fix h s0 assume h: "well_behaved h"
  show "well_behaved (fst (request_id_middleware h s0))"
    unfolding well_behaved_def
    by (auto simp: request_id_middleware_def Let_def intro!: steps_after dest: well_behavedD[OF h]
        split: prod.splits outcome.splits)
qed

lemma logging_preserving: "preserving (logging_middleware logger)"
  unfolding preserving_def
proof (intro allI impI)
  fix h s0 assume h: "well_behaved h"
  show "well_behaved (fst (logging_middleware logger h s0))"
    unfolding well_behaved_def
  proof (intro allI impI)
    fix w r s oc w' s'
    assume run: "fst (logging_middleware logger h s0) w r s = (oc, w', s')"
    obtain oc1 w1 s1 where h1: "h (Logging w 0 0) r (snd (time_now s)) = (oc1, w1, s1)" by (metis prod_cases3)
    obtain w2 st n where w1: "w1 = Logging w2 st n" "writer_steps w w2"
      using writer_steps_recorder[OF well_behavedD[OF h h1] refl] by blast
    from run h1 w1 show "writer_steps w w'"
      by (auto simp: logging_middleware_def time_now_def split: outcome.splits if_splits)
  qed
qed

lemma cors_preserving: "preserving (cors_middleware options)"
  unfolding preserving_def
proof (intro allI impI)
  fix h s0 assume h: "well_behaved h"
  have act: "writer_steps w (write_cors_actual_headers a options w)" for a w
    by (auto simp: write_cors_actual_headers_def Let_def intro!: steps_after writer_steps.steps_refl)
  have pre: "writer_steps w0 w \<Longrightarrow> writer_steps w0 (write_cors_preflight_headers r options w)" for r w w0
    by (auto simp: write_cors_preflight_headers_def Let_def intro!: steps_after)
  show "well_behaved (fst (cors_middleware options h s0))"
    unfolding well_behaved_def
    by (auto simp: cors_middleware_def Let_def intro!: steps_after(5) pre act dest: well_behavedD[OF h]
        writer_steps_trans[OF well_behavedD[OF h] act] split: if_splits)
qed

lemma write_buffered_steps: "writer_steps w (write_buffered_response w resp)"
proof -
  have "writer_steps w0 w1 \<Longrightarrow> writer_steps w0 (fold (\<lambda>h w. if equal_fold (hname h) ''Content-Length'' then w
      else add_header (hname h) (hvalue h) w) hs w1)" for w0 w1 hs
    by (induction hs arbitrary: w1) (auto intro: steps_after)
  then show ?thesis
    by (auto simp: write_buffered_response_def Let_def intro!: steps_after writer_steps.steps_refl
        split: option.splits)
qed

lemma gzip_preserving: "preserving (gzip_compression_middleware gz m)"
  by (auto simp: preserving_def well_behaved_def gzip_compression_middleware_def Let_def
      intro!: write_buffered_steps writer_steps.steps_refl split: prod.splits outcome.splits)

lemma rate_limit_preserving: "preserving (fixed_window_rate_limit_middleware limit window)"
  by (auto simp: preserving_def well_behaved_def fixed_window_rate_limit_middleware_def rate_limited_handler_def
      Let_def intro!: steps_after writer_steps.steps_refl split: prod.splits if_splits)

lemma apply_middlewares_preserving:
  "\<forall>mw. Some mw \<in> set ms \<longrightarrow> preserving mw \<Longrightarrow> well_behaved h \<Longrightarrow>
     well_behaved (fst (apply_middlewares ms h s))"
proof (induction ms)
  case (Cons m ms)
  obtain h1 s1 where r: "apply_middlewares ms h s = (h1, s1)" by (cases "apply_middlewares ms h s")
  with Cons have "well_behaved h1" by simp
  with Cons.prems(1) r show ?case by (cases m) (auto simp: preserving_def)
qed simp

section \<open>Lemmas for the single middlewares\<close>

text \<open>What it means for a request to present the bearer token.\<close>

definition presents_token :: "header_field list \<Rightarrow> bytes \<Rightarrow> bool" where
  "presents_token hs token \<longleftrightarrow> (\<exists>v\<in>set (field_values hs ''Authorization''). \<exists>scheme rest.
     trim_space v = scheme @ sp # rest \<and> sp \<notin> set scheme \<and> equal_fold scheme ''Bearer'' \<and> trim_space rest = token)"

lemma bearer_token_matches_iff: "bearer_token_matches hs token \<longleftrightarrow> presents_token hs token"
proof (induction hs)
  case (Cons h hs)
  have "(case cut (trim_space v) sp of (scheme, tk, ok) \<Rightarrow> ok \<and> equal_fold scheme ''Bearer'' \<and> trim_space tk = token) \<longleftrightarrow>
      (\<exists>scheme rest. trim_space v = scheme @ sp # rest \<and> sp \<notin> set scheme \<and> equal_fold scheme ''Bearer'' \<and>
        trim_space rest = token)" for v
  proof
    assume "case cut (trim_space v) sp of (scheme, tk, ok) \<Rightarrow> ok \<and> equal_fold scheme ''Bearer'' \<and> trim_space tk = token"
    then obtain scheme tk where "cut (trim_space v) sp = (scheme, tk, True)" "equal_fold scheme ''Bearer''" "trim_space tk = token"
      by (auto split: prod.splits)
    then show "\<exists>scheme rest. trim_space v = scheme @ sp # rest \<and> sp \<notin> set scheme \<and> equal_fold scheme ''Bearer'' \<and> trim_space rest = token"
      using cut_found by blast
  qed auto
  from this[of "hvalue h"] Cons show ?case
    by (auto simp: presents_token_def split: prod.splits)
qed (simp add: presents_token_def)

definition unauthorized_reply :: "resp_writer \<Rightarrow> resp_writer" where
  "unauthorized_reply w = fst (write_body (''unauthorized'' @ [lf]) (write_header 401
     (set_header ''Content-Type'' ''text/plain; charset=utf-8''
       (set_header ''WWW-Authenticate'' (''Bearer realm='' @ [dquote] @ ''wbsv'' @ [dquote]) w))))"

text \<open>The n-th generated request ID, counted from a world.\<close>

definition nth_request_id :: "world \<Rightarrow> nat \<Rightarrow> bytes" where
  "nth_request_id s n = fst (next_request_id (((snd \<circ> next_request_id) ^^ n) s))"

lemma request_id_counter_pow: "request_id_counter (((snd \<circ> next_request_id) ^^ n) s) = request_id_counter s + of_nat n"
  by (induction n) (simp_all add: next_request_id_def Let_def)

lemma format_int_inj: "0 \<le> i \<Longrightarrow> 0 \<le> j \<Longrightarrow> format_int i = format_int j \<Longrightarrow> i = j"
  using dec_val_nat_dec by (metis eq_nat_nat_iff format_int_def linorder_not_less)

text \<open>The entry of the configuration that decides about an origin, and the origin that is then allowed.\<close>

definition cors_entry :: "cors_options \<Rightarrow> bytes \<Rightarrow> bytes option" where
  "cors_entry options origin =
     List.find (\<lambda>c. trim_space c = ''*'' \<or> equal_fold (trim_space c) origin) (allow_origins options)"

definition cors_decision :: "cors_options \<Rightarrow> bytes \<Rightarrow> bytes \<Rightarrow> bytes" where
  "cors_decision options origin c = (if trim_space c = ''*'' \<and> \<not> allow_credentials options then ''*'' else origin)"

lemma cors_allowed_origin_entry:
  "cors_allowed_origin origin (allow_origins options) (allow_credentials options) =
     (case cors_entry options origin of None \<Rightarrow> [] | Some c \<Rightarrow> cors_decision options origin c)"
proof -
  have "cors_allowed_origin origin cs (allow_credentials options) =
      (case List.find (\<lambda>c. trim_space c = ''*'' \<or> equal_fold (trim_space c) origin) cs of
         None \<Rightarrow> [] | Some c \<Rightarrow> cors_decision options origin c)" for cs
    by (induction cs) (simp_all add: cors_decision_def Let_def)
  then show ?thesis by (simp add: cors_entry_def)
qed

lemma equal_fold_iff_key: "equal_fold a b \<longleftrightarrow> fold_key a = fold_key b"
  by (simp add: equal_fold_def)

text \<open>The names of the headers that the CORS middleware sets differ from each other under folding.\<close>

lemma cors_keys:
  "fold_key ''Vary'' = ''vary''"
  "fold_key ''Access-Control-Allow-Origin'' = ''access-control-allow-origin''"
  "fold_key ''Access-Control-Allow-Credentials'' = ''access-control-allow-credentials''"
  "fold_key ''Access-Control-Expose-Headers'' = ''access-control-expose-headers''"
  "fold_key ''Access-Control-Allow-Methods'' = ''access-control-allow-methods''"
  "fold_key ''Access-Control-Allow-Headers'' = ''access-control-allow-headers''"
  "fold_key ''Access-Control-Max-Age'' = ''access-control-max-age''"
  by code_simp+

lemma set_header_layered:
  "field_values (bw_headers (buffer_of (set_header n v w))) m =
     (if equal_fold n m then v # tl (field_values (bw_headers (buffer_of w)) m)
      else field_values (bw_headers (buffer_of w)) m)"
  by (simp only: layered.laws set_header_values)

lemma add_header_layered:
  "field_values (bw_headers (buffer_of (add_header n v w))) m =
     field_values (bw_headers (buffer_of w)) m @ (if equal_fold n m then [v] else [])"
  by (simp add: layered.laws buffered_add_header_def field_values_append)

lemma write_header_layered:
  "bw_headers (buffer_of (write_header c w)) = bw_headers (buffer_of w)"
  by (simp add: layered.laws buffered_write_header_def)

text \<open>The headers of an allowed cross-origin response, and those that a preflight adds to them.\<close>

definition cors_headers :: "cors_options \<Rightarrow> bytes \<Rightarrow> header_field list" where
  "cors_headers options a = HeaderField ''Access-Control-Allow-Origin'' a #
     (if a \<noteq> ''*'' then [HeaderField ''Vary'' ''Origin''] else []) @
     (if allow_credentials options then [HeaderField ''Access-Control-Allow-Credentials'' ''true''] else []) @
     (if expose_headers options \<noteq> []
      then [HeaderField ''Access-Control-Expose-Headers'' (join '', '' (expose_headers options))] else [])"

definition cors_preflight_headers :: "cors_options \<Rightarrow> request \<Rightarrow> header_field list" where
  "cors_preflight_headers options r =
     (let asked = header_value_fold (http_headers r);
          ms = (if allow_methods options = [] then [asked ''Access-Control-Request-Method''] else allow_methods options);
          hs = (if allow_headers options = [] then split_header_list (asked ''Access-Control-Request-Headers'')
                else allow_headers options)
      in HeaderField ''Access-Control-Allow-Methods'' (join '', '' ms) #
         (if hs \<noteq> [] then [HeaderField ''Access-Control-Allow-Headers'' (join '', '' hs)] else []) @
         (if 0 < cors_max_age options
          then [HeaderField ''Access-Control-Max-Age'' (format_int (cors_max_age options))] else []))"

abbreviation fresh_with :: "header_field list \<Rightarrow> resp_writer" where
  "fresh_with hs \<equiv> Buffered (new_buffered_writer\<lparr>bw_headers := hs\<rparr>)"

lemma set_header_fresh:
  "list_all (\<lambda>h. \<not> equal_fold (hname h) n) hs \<Longrightarrow> set_header n v (fresh_with hs) = fresh_with (hs @ [HeaderField n v])"
  using set_first_header_None[of hs n v]
  by (simp add: set_header_def promoted_proc_def buffered_set_header_def buffered_add_header_def field_values_def
      filter_empty_conv list_all_iff)

lemma add_header_fresh: "add_header n v (fresh_with hs) = fresh_with (hs @ [HeaderField n v])"
  by (simp add: add_header_def promoted_proc_def buffered_add_header_def)

lemma cors_actual_fresh: "write_cors_actual_headers a options (fresh_with []) = fresh_with (cors_headers options a)"
  by (simp add: write_cors_actual_headers_def cors_headers_def Let_def set_header_fresh add_header_fresh
      equal_fold_iff_key cors_keys)

lemma cors_actual_new:
  "write_cors_actual_headers a options (Buffered new_buffered_writer) = fresh_with (cors_headers options a)"
  using cors_actual_fresh by (simp add: new_buffered_writer_def)

lemma cors_preflight_fresh:
  "write_cors_preflight_headers r options (fresh_with (cors_headers options a)) =
     fresh_with (cors_headers options a @ cors_preflight_headers options r)"
proof -
  have names: "list_all (\<lambda>h. \<not> equal_fold (hname h) ''Access-Control-Allow-Methods'') (cors_headers options a)"
    "list_all (\<lambda>h. \<not> equal_fold (hname h) ''Access-Control-Allow-Headers'') (cors_headers options a)"
    "list_all (\<lambda>h. \<not> equal_fold (hname h) ''Access-Control-Max-Age'') (cors_headers options a)"
    "\<not> equal_fold ''Access-Control-Allow-Methods'' ''Access-Control-Allow-Headers''"
    "\<not> equal_fold ''Access-Control-Allow-Methods'' ''Access-Control-Max-Age''"
    "\<not> equal_fold ''Access-Control-Allow-Headers'' ''Access-Control-Max-Age''"
    by (simp_all add: cors_headers_def equal_fold_iff_key cors_keys ascii_lower_def)
  then show ?thesis
    by (simp add: write_cors_preflight_headers_def cors_preflight_headers_def Let_def set_header_fresh)
qed

text \<open>The responses that \<open>Response()\<close> builds, and copying one to a fresh writer.\<close>

definition built_response :: "response \<Rightarrow> bool" where
  "built_response resp \<longleftrightarrow> resp_version resp = [] \<and> resp_reason resp = [] \<and> resp_status resp \<noteq> 0 \<and>
     (case resp_reader resp of None \<Rightarrow> resp_closer resp = None \<and> resp_length resp = 0
      | Some rd \<Rightarrow> resp_closer resp = stream_closer rd \<and> resp_body resp = [])"

lemma built_buffered_response: "buffer_inv b \<Longrightarrow> built_response (buffered_response b)"
  by (simp add: built_response_def buffered_response_def buffer_inv_def zero_response_def split: option.splits)

lemma copied_headers:
  "buffer_of (fold (\<lambda>h w. if equal_fold (hname h) ''Content-Length'' then w else add_header (hname h) (hvalue h) w) hs w) =
     (buffer_of w)\<lparr>bw_headers := bw_headers (buffer_of w) @ without_header hs ''Content-Length''\<rparr>"
  by (induction hs arbitrary: w)
    (simp_all add: without_header_def layered.laws buffered_add_header_def)

lemma write_buffered_response_copies:
  assumes "built_response resp"
  shows "buffered_response (buffer_of (write_buffered_response (Buffered new_buffered_writer) resp)) =
    resp\<lparr>resp_headers := without_header (resp_headers resp) ''Content-Length''\<rparr>"
proof (cases "resp_reader resp")
  case None
  with assms show ?thesis
    by (intro response.equality)
      (simp_all add: write_buffered_response_def Let_def layered.laws copied_headers new_buffered_writer_def
        buffered_defs buffered_response_def zero_response_def built_response_def)
next
  case (Some rd)
  with assms show ?thesis
    by (intro response.equality)
      (simp_all add: write_buffered_response_def Let_def layered.laws copied_headers new_buffered_writer_def
        buffered_defs buffered_response_def zero_response_def built_response_def)
qed

lemma new_buffer_inv [simp]: "buffer_inv new_buffered_writer"
  by (simp add: buffer_inv_def new_buffered_writer_def)

lemma well_behaved_response:
  "well_behaved h \<Longrightarrow> h (Buffered new_buffered_writer) r s = (oc, b, s1) \<Longrightarrow>
     built_response (buffered_response (buffer_of b))"
  using well_behavedD writer_steps_inv built_buffered_response by (metis buffer_of.simps(1) new_buffer_inv)

section \<open>Properties\<close>



text \<open>
  C27. Recovery: whatever the handler does, the result is a normal return. After a panic the
  response is exactly the 500 reply, with nothing left of what had been written, and the panic
  is logged; without one nothing changes.
\<close>

theorem recovery_response:
  assumes "h w r s = (oc, w1, s1)" "fst (recovery_middleware logger h s0) w r s = (oc', w', s')"
  shows "oc' = Returned \<and>
    (case oc of
       Returned \<Rightarrow> w' = w1 \<and> s' = s1
     | Panicked v \<Rightarrow>
         buffered_response (buffer_of w') = zero_response\<lparr>resp_status := 500,
           resp_headers := [HeaderField ''Content-Type'' ''text/plain; charset=utf-8''],
           resp_body := ''internal server error'' @ [lf]\<rparr> \<and>
         s' = (if logger then log_printf (PanicLine (http_method r) (http_target r) v) s1 else s1))"
proof (cases oc)
  case Returned
  with assms show ?thesis by (auto simp: recovery_middleware_def)
next
  case (Panicked v)
  with assms have "oc' = Returned" and
    w': "w' = fst (write_body (''internal server error'' @ [lf]) (write_header 500
           (set_header ''Content-Type'' ''text/plain; charset=utf-8'' (reset_writer w1))))" and
    s': "s' = (if logger then log_printf (PanicLine (http_method r) (http_target r) v) s1 else s1)"
    by (auto simp: recovery_middleware_def Let_def)
  then show ?thesis
    unfolding w' layered.plain_reply by (simp add: Panicked)
qed

theorem recovery_response_witness:
  "\<exists>w'. fst (recovery_middleware False (\<lambda>w r s. (Panicked ''boom'', fst (write_body ''half'' w), s)) quiet_world)
      (Buffered new_buffered_writer) (if_none_match_request []) quiet_world = (Returned, w', quiet_world) \<and>
    resp_body (buffered_response (buffer_of w')) = ''internal server error'' @ [lf]"
proof -
  let ?h = "\<lambda>w r s. (Panicked ''boom'', fst (write_body ''half'' w), s) :: outcome \<times> resp_writer \<times> world"
  let ?w = "Buffered new_buffered_writer"
  have h: "?h ?w (if_none_match_request []) quiet_world = (Panicked ''boom'', fst (write_body ''half'' ?w), quiet_world)" by simp
  obtain oc' w' s' where m: "fst (recovery_middleware False ?h quiet_world) ?w (if_none_match_request []) quiet_world = (oc', w', s')"
    by (metis prod_cases3)
  moreover have "s' = quiet_world" using m by (auto simp: recovery_middleware_def Let_def)
  ultimately show ?thesis using recovery_response[OF h m] by (auto simp: zero_response_def)
qed

text \<open>
  C28. Bearer authentication: with a configured token the handler runs exactly for requests that
  present it; every other request gets the 401 reply, with the challenge, and reaches neither
  the handler nor the world.
\<close>

theorem bearer_auth_guards:
  "fst (bearer_auth_middleware token h s0) w r s =
     (if token = [] \<or> presents_token (http_headers r) token then h w r s
      else (Returned, unauthorized_reply w, s)) \<and>
   buffered_response (buffer_of (unauthorized_reply (Buffered new_buffered_writer))) =
     zero_response\<lparr>resp_status := 401,
       resp_headers := [HeaderField ''WWW-Authenticate'' (''Bearer realm='' @ [dquote] @ ''wbsv'' @ [dquote]),
         HeaderField ''Content-Type'' ''text/plain; charset=utf-8''],
       resp_body := ''unauthorized'' @ [lf]\<rparr>"
proof (rule conjI)
  show "fst (bearer_auth_middleware token h s0) w r s =
     (if token = [] \<or> presents_token (http_headers r) token then h w r s
      else (Returned, unauthorized_reply w, s))"
    by (simp add: bearer_auth_middleware_def bearer_token_matches_iff unauthorized_reply_def Let_def)
  have names: "\<not> equal_fold ''WWW-Authenticate'' ''Content-Type''" by code_simp
  show "buffered_response (buffer_of (unauthorized_reply (Buffered new_buffered_writer))) =
     zero_response\<lparr>resp_status := 401,
       resp_headers := [HeaderField ''WWW-Authenticate'' (''Bearer realm='' @ [dquote] @ ''wbsv'' @ [dquote]),
         HeaderField ''Content-Type'' ''text/plain; charset=utf-8''],
       resp_body := ''unauthorized'' @ [lf]\<rparr>"
    by (simp add: unauthorized_reply_def layered.laws buffered_set_header_def buffered_defs names
        new_buffered_writer_def buffered_response_def zero_response_def)
qed

text \<open>
  Request IDs: the handler runs with a non-empty ID in its context, the client's when it sent
  one that is not blank and the next number of the counter otherwise, and the response carries
  the same ID in its first X-Request-ID field.
\<close>

theorem request_id_propagates:
  assumes "fst (request_id_middleware h s0) w r s = (Returned, w', s')"
  shows "\<exists>i ctx s1 w1. h w (r\<lparr>req_context := Some ctx\<rparr>) s1 = (Returned, w1, s') \<and>
    request_id_from_context (Some ctx) = (i, True) \<and>
    hd (field_values (bw_headers (buffer_of w')) ''X-Request-ID'') = i \<and>
    (if request_id_from_headers (http_headers r) = [] then i = nth_request_id s 0 \<and> s1 = snd (next_request_id s)
     else i = request_id_from_headers (http_headers r) \<and> s1 = s)"
proof -
  let ?hid = "request_id_from_headers (http_headers r)"
  define i where "i = (if ?hid = [] then fst (next_request_id s) else ?hid)"
  define s1 where "s1 = (if ?hid = [] then snd (next_request_id s) else s)"
  define ctx where "ctx = RequestIdCtx i (case req_context r of None \<Rightarrow> BackgroundCtx | Some c \<Rightarrow> c)"
  have "(if ?hid = [] then next_request_id s else (?hid, s)) = (i, s1)" by (simp add: i_def s1_def)
  with assms obtain w1 where w1: "h w (r\<lparr>req_context := Some ctx\<rparr>) s1 = (Returned, w1, s')"
    "w' = set_header request_id_header i w1"
    by (auto simp: request_id_middleware_def Let_def ctx_def split: prod.splits outcome.splits)
  have "i \<noteq> []" by (simp add: i_def next_request_id_def Let_def)
  then have "request_id_from_context (Some ctx) = (i, True)" by (simp add: request_id_from_context_def ctx_def)
  moreover have "hd (field_values (bw_headers (buffer_of w')) ''X-Request-ID'') = i"
    by (simp add: w1(2) set_header_layered request_id_header_def)
  ultimately show ?thesis
    using w1(1) by (intro exI[of _ i] exI[of _ ctx] exI[of _ s1] exI[of _ w1])
      (auto simp: i_def s1_def nth_request_id_def)
qed

theorem request_id_propagates_witness:
  "\<exists>w'. fst (request_id_middleware default_app_handler quiet_world) (Buffered new_buffered_writer)
      (if_none_match_request []) quiet_world = (Returned, w', snd (next_request_id quiet_world)) \<and>
    hd (field_values (bw_headers (buffer_of w')) ''X-Request-ID'') = ''wbsv-1''"
proof -
  let ?r = "if_none_match_request []"
  obtain oc w' s' where m: "fst (request_id_middleware default_app_handler quiet_world)
      (Buffered new_buffered_writer) ?r quiet_world = (oc, w', s')" by (metis prod_cases3)
  have n: "request_id_from_headers (http_headers ?r) = []" by code_simp
  then have "oc = Returned" "s' = snd (next_request_id quiet_world)"
    using m by (auto simp: request_id_middleware_def default_app_handler_call Let_def next_request_id_def)
  with m have r: "fst (request_id_middleware default_app_handler quiet_world)
      (Buffered new_buffered_writer) ?r quiet_world = (Returned, w', s')" by simp
  have "format_int 1 = ''1''" by code_simp
  then have "nth_request_id quiet_world 0 = ''wbsv-1''"
    by (simp add: nth_request_id_def next_request_id_def quiet_world_def)
  with request_id_propagates[OF r] n r \<open>s' = _\<close> show ?thesis by auto
qed

text \<open>
  Generated request IDs do not repeat before the 64-bit counter has gone round.
\<close>

theorem request_ids_distinct:
  assumes "i < j" "j < 18446744073709551616"
  shows "nth_request_id s i \<noteq> nth_request_id s j"
proof
  assume eq: "nth_request_id s i = nth_request_id s j"
  let ?c = "request_id_counter s + 1"
  have n: "nth_request_id s k = ''wbsv-'' @ format_int (uint (?c + of_nat k))" for k
    by (simp add: nth_request_id_def next_request_id_def request_id_counter_pow Let_def add.commute add.left_commute)
  from eq have "uint (?c + of_nat i) = uint (?c + of_nat j)"
    by (intro format_int_inj) (simp_all add: n)
  then have "?c + of_nat i = ?c + of_nat j" by (simp only: word_uint_eq_iff)
  then have "(of_nat i :: 64 word) = of_nat j" by simp
  then have "i mod 2 ^ 64 = j mod 2 ^ 64" by (simp add: of_nat_eq_iff unsigned_of_nat word_of_nat_eq_iff take_bit_eq_mod)
  with assms show False by simp
qed

theorem request_ids_distinct_witness: "nth_request_id quiet_world 0 \<noteq> nth_request_id quiet_world 9"
  by (rule request_ids_distinct) simp_all


definition origin_request :: request where
  "origin_request = if_none_match_request []\<lparr>req_http := \<lparr>request_line = \<lparr>rl_method = ''GET'', rl_target = ''/'',
     rl_version = ''HTTP/1.1''\<rparr>, req_headers = [HeaderField ''origin'' ''http://a''], req_body = []\<rparr>\<rparr>"

definition open_cors :: cors_options where
  "open_cors = \<lparr>allow_origins = ['' *''], allow_methods = [], allow_headers = [], expose_headers = [],
     allow_credentials = False, cors_max_age = 0\<rparr>"


text \<open>
  C32. Compression is transparent: on a fresh writer the response that leaves the middleware is
  the handler's, without its Content-Length, and with the body compressed and labelled exactly
  when it is worth it and the client accepts gzip; a client that can decompress recovers the
  handler's body. Status, framing, stream and closer are unchanged.
\<close>

theorem gzip_transparent:
  assumes "well_behaved h" "h (Buffered new_buffered_writer) r s = (Returned, b, s1)"
    and "fst (gzip_compression_middleware gz m h s0) (Buffered new_buffered_writer) r s = (oc, w', s')"
    and "\<And>x z. gzip_bytes gz x = Some z \<Longrightarrow> gunzip z = Some x"
  shows "oc = Returned \<and> s' = s1 \<and>
    (let resp = buffered_response (buffer_of b); resp' = buffered_response (buffer_of w')
     in if should_gzip_response r resp m \<and> gzip_bytes gz (resp_body resp) \<noteq> None then
          gunzip (resp_body resp') = Some (resp_body resp) \<and>
          resp' = resp\<lparr>resp_body := resp_body resp',
            resp_headers := without_header (resp_headers resp) ''Content-Length'' @
              [HeaderField ''Content-Encoding'' ''gzip'', HeaderField ''Vary'' ''Accept-Encoding'']\<rparr>
        else resp' = resp\<lparr>resp_headers := without_header (resp_headers resp) ''Content-Length''\<rparr>)"
proof -
  let ?resp = "buffered_response (buffer_of b)"
  let ?hs = "without_header (resp_headers ?resp) ''Content-Length'' @
      [HeaderField ''Content-Encoding'' ''gzip'', HeaderField ''Vary'' ''Accept-Encoding'']"
  have built: "built_response ?resp" using well_behaved_response[OF assms(1,2)] .
  have names: "\<not> equal_fold ''Content-Encoding'' ''Content-Length''" "\<not> equal_fold ''Vary'' ''Content-Length''"
    by code_simp+
  have keep: "without_header ?hs ''Content-Length'' = ?hs"
    using names by (simp add: without_header_def)
  show ?thesis
  proof (cases "should_gzip_response r ?resp m \<and> gzip_bytes gz (resp_body ?resp) \<noteq> None")
    case True
    then obtain z where z: "gzip_bytes gz (resp_body ?resp) = Some z" by auto
    let ?resp1 = "?resp\<lparr>resp_body := z, resp_headers := ?hs\<rparr>"
    have "resp_reader ?resp = None"
      using True built by (auto simp: should_gzip_response_def built_response_def Let_def split: option.splits if_splits)
    then have "built_response ?resp1" using built by (simp add: built_response_def)
    from write_buffered_response_copies[OF this]
    have "buffered_response (buffer_of (write_buffered_response (Buffered new_buffered_writer) ?resp1)) = ?resp1"
      using keep by simp
    moreover have "oc = Returned" "s' = s1" "w' = write_buffered_response (Buffered new_buffered_writer) ?resp1"
      using assms(2,3) True z by (auto simp: gzip_compression_middleware_def Let_def)
    ultimately show ?thesis using True z assms(4)[OF z] by simp
  next
    case False
    then have "oc = Returned" "s' = s1" "w' = write_buffered_response (Buffered new_buffered_writer) ?resp"
      using assms(2,3) by (auto simp: gzip_compression_middleware_def Let_def split: option.splits)
    with write_buffered_response_copies[OF built] show ?thesis unfolding Let_def if_not_P[OF False] by simp
  qed
qed

definition gzip_request :: request where
  "gzip_request = \<lparr>req_context = None,
     req_http = \<lparr>request_line = \<lparr>rl_method = ''GET'', rl_target = ''/'', rl_version = ''HTTP/1.1''\<rparr>,
       req_headers = [HeaderField ''Accept-Encoding'' ''br, gzip''], req_body = []\<rparr>, req_params = None\<rparr>"

definition reversing :: gzip_writer where
  "reversing x = (True, Some (rev x))"

theorem gzip_transparent_witness:
  "\<exists>w'. fst (gzip_compression_middleware reversing 1 default_app_handler quiet_world)
      (Buffered new_buffered_writer) gzip_request quiet_world = (Returned, w', quiet_world) \<and>
    rev (resp_body (buffered_response (buffer_of w'))) = ''hello from _wbsv'' @ [lf] \<and>
    HeaderField ''Content-Encoding'' ''gzip'' \<in> set (resp_headers (buffered_response (buffer_of w')))"
proof -
  let ?h = "default_app_handler"
  obtain b where b: "?h (Buffered new_buffered_writer) gzip_request quiet_world = (Returned, b, quiet_world)"
    by (simp add: default_app_handler_call Let_def)
  obtain oc w' s' where m: "fst (gzip_compression_middleware reversing 1 ?h quiet_world)
      (Buffered new_buffered_writer) gzip_request quiet_world = (oc, w', s')" by (metis prod_cases3)
  have "case ?h (Buffered new_buffered_writer) gzip_request quiet_world of (oc, b, s) \<Rightarrow>
      should_gzip_response gzip_request (buffered_response (buffer_of b)) 1 \<and>
      resp_body (buffered_response (buffer_of b)) = ''hello from _wbsv'' @ [lf]" by code_simp
  then have body: "should_gzip_response gzip_request (buffered_response (buffer_of b)) 1"
      "resp_body (buffered_response (buffer_of b)) = ''hello from _wbsv'' @ [lf]" by (simp_all add: b)
  have gunzip: "gzip_bytes reversing x = Some z \<Longrightarrow> (Some \<circ> rev) z = Some x" for x z
    by (auto simp: gzip_bytes_def reversing_def)
  have "gzip_bytes reversing x \<noteq> None" for x by (simp add: gzip_bytes_def reversing_def)
  with gzip_transparent[OF default_well_behaved b m, of "Some \<circ> rev", OF gunzip] m body show ?thesis
    by (auto simp: Let_def)
qed

end
