(* ===== verification/Router.thy ===== *)
theory Router
  imports Middleware_Facts "HOL-Library.List_Lexorder" "HOL-Library.Char_ord"
begin

text \<open>
  The router (httpserver/router.go): a map of static paths and a tree of patterns with
  parameters. Go's maps that are iterated over (methods, literal children) are association
  lists with distinct keys; the code sorts what it takes from an iteration. The tree is
  polymorphic in the handler.
\<close>

section \<open>Paths and patterns\<close>

datatype route_err = ErrInvalidRoutePath | ErrInvalidRouteMethod | ErrMissingHandler

definition any_method :: bytes where
  "any_method = []"

record route_segment =
  seg_literal :: bytes
  seg_param :: bytes
  seg_wildcard :: bytes

definition split_path :: "bytes \<Rightarrow> bytes list" where
  "split_path path =
     (let trimmed = trim path [CHR ''/''] in if trimmed = [] then [] else split_on CHR ''/'' trimmed)"

definition has_path_params :: "bytes \<Rightarrow> bool" where
  "has_path_params path \<longleftrightarrow> list_ex (\<lambda>seg. has_prefix seg '':'' \<or> has_prefix seg ''*'') (split_path path)"

definition invalid_route_param_name :: "bytes \<Rightarrow> bool" where
  "invalid_route_param_name name \<longleftrightarrow> name = [] \<or> contains_any name [sp, tab, cr, lf]"

text \<open>The loop of \<open>parseRouteSegments\<close>, with the names seen so far.\<close>

fun parse_segments_loop :: "bytes list \<Rightarrow> bytes list \<Rightarrow> route_err + route_segment list" where
  "parse_segments_loop [] seen = Inr []"
| "parse_segments_loop (raw # raws) seen =
     (if has_prefix raw '':'' then
        (let name = trim_prefix raw '':'' in
         if invalid_route_param_name name then Inl ErrInvalidRoutePath
         else if name \<in> set seen then Inl ErrInvalidRoutePath
         else map_sum id ((#) \<lparr>seg_literal = [], seg_param = name, seg_wildcard = []\<rparr>)
                (parse_segments_loop raws (name # seen)))
      else if has_prefix raw ''*'' then
        (let name = trim_prefix raw ''*'' in
         if invalid_route_param_name name \<or> raws \<noteq> [] then Inl ErrInvalidRoutePath
         else if name \<in> set seen then Inl ErrInvalidRoutePath
         else map_sum id ((#) \<lparr>seg_literal = [], seg_param = [], seg_wildcard = name\<rparr>)
                (parse_segments_loop raws (name # seen)))
      else map_sum id ((#) \<lparr>seg_literal = raw, seg_param = [], seg_wildcard = []\<rparr>)
             (parse_segments_loop raws seen))"

definition parse_route_segments :: "bytes \<Rightarrow> route_err + route_segment list" where
  "parse_route_segments path = parse_segments_loop (split_path path) []"

section \<open>The tree\<close>

type_synonym 'h method_routes = "(bytes \<times> 'h) list"

record 'h param_route =
  pr_pattern :: bytes
  pr_segments :: "route_segment list"
  pr_methods :: "'h method_routes"

datatype 'h route_node = RouteNode
  (node_routes: "'h param_route list")
  (literal_children: "(bytes \<times> 'h route_node) list")
  (param_children: "(bytes \<times> 'h route_node) list")
  (wildcard_children: "(bytes \<times> 'h route_node) list")

definition empty_node :: "'h route_node" where
  "empty_node = RouteNode [] [] [] []"

text \<open>Setting a key of a map.\<close>

fun map_put :: "bytes \<Rightarrow> 'v \<Rightarrow> (bytes \<times> 'v) list \<Rightarrow> (bytes \<times> 'v) list" where
  "map_put k v [] = [(k, v)]"
| "map_put k v ((k', v') # m) = (if k' = k then (k, v) # m else (k', v') # map_put k v m)"

text \<open>
  \<open>literalChild\<close>, \<open>paramChild\<close> and \<open>wildcardChild\<close> return the child of a name, which they create at
  the end of the list when there is none; the caller then changes the tree below it, which is \<open>f\<close>.
\<close>

fun update_child :: "bytes \<Rightarrow> ('h route_node \<Rightarrow> 'h route_node) \<Rightarrow> (bytes \<times> 'h route_node) list \<Rightarrow> (bytes \<times> 'h route_node) list" where
  "update_child name f [] = [(name, f empty_node)]"
| "update_child name f ((k, c) # es) = (if k = name then (k, f c) # es else (k, c) # update_child name f es)"

text \<open>The loop at the end of \<open>insert\<close>: a route of the same pattern gets the methods, or the route is appended.\<close>

fun add_terminal :: "'h param_route \<Rightarrow> 'h param_route list \<Rightarrow> 'h param_route list" where
  "add_terminal route [] = [route]"
| "add_terminal route (q # qs) =
     (if pr_pattern q = pr_pattern route
      then q\<lparr>pr_methods := fold (\<lambda>(m, h). map_put m h) (pr_methods route) (pr_methods q)\<rparr> # qs
      else q # add_terminal route qs)"

fun insert_at :: "'h param_route \<Rightarrow> route_segment list \<Rightarrow> 'h route_node \<Rightarrow> 'h route_node" where
  "insert_at route [] (RouteNode rs ls ps ws) = RouteNode (add_terminal route rs) ls ps ws"
| "insert_at route (seg # segs') (RouteNode rs ls ps ws) =
     (if seg_literal seg \<noteq> [] then RouteNode rs (update_child (seg_literal seg) (insert_at route segs') ls) ps ws
      else if seg_param seg \<noteq> [] then RouteNode rs ls (update_child (seg_param seg) (insert_at route segs') ps) ws
      else if seg_wildcard seg \<noteq> [] then RouteNode rs ls ps (update_child (seg_wildcard seg) (insert_at route segs') ws)
      else insert_at route segs' (RouteNode rs ls ps ws))"

definition insert_route :: "'h param_route \<Rightarrow> 'h route_node \<Rightarrow> 'h route_node" where
  "insert_route route n = insert_at route (pr_segments route) n"

type_synonym route_params = "bytes \<rightharpoonup> bytes"

type_synonym 'h route_match = "'h method_routes \<times> route_params"

definition terminal_matches :: "'h route_node \<Rightarrow> route_params \<Rightarrow> 'h route_match list" where
  "terminal_matches n params = map (\<lambda>q. (pr_methods q, params)) (node_routes n)"

lemma size_child: "(k, c) \<in> set es \<Longrightarrow> size c < Suc (size_list (size_prod (\<lambda>_. 0) size) es)"
  by (induction es) auto

text \<open>A copy of the parameters with one more binding; nil and the empty map are the same here.\<close>

definition with_route_param :: "route_params \<Rightarrow> bytes \<Rightarrow> bytes \<Rightarrow> route_params" where
  "with_route_param params name v = params(name \<mapsto> v)"

declare with_route_param_def [simp]

text \<open>\<open>matchSegments\<close>: the rest of the path segments stands for the index.\<close>

function match_segments :: "'h route_node \<Rightarrow> bytes list \<Rightarrow> route_params \<Rightarrow> 'h route_match list" where
  "match_segments (RouteNode rs ls ps ws) [] params =
     terminal_matches (RouteNode rs ls ps ws) params @
     concat (map (\<lambda>(name, c). match_segments c [] (with_route_param params name [])) ws)"
| "match_segments (RouteNode rs ls ps ws) (seg # rest) params =
     (case map_of ls seg of None \<Rightarrow> [] | Some c \<Rightarrow> match_segments c rest params) @
     concat (map (\<lambda>(name, c). match_segments c rest (with_route_param params name seg)) ps) @
     concat (map (\<lambda>(name, c). match_segments c [] (with_route_param params name (join ''/'' (seg # rest)))) ws)"
  by pat_completeness auto
termination
  by (relation "measure (\<lambda>(n, _, _). size n)") (auto dest!: map_of_SomeD size_child)

definition match_path :: "'h route_node \<Rightarrow> bytes \<Rightarrow> 'h route_match list" where
  "match_path n path = match_segments n (split_path path) (\<lambda>_. None)"

section \<open>The router\<close>

record 'h router =
  static_routes :: "bytes \<rightharpoonup> 'h method_routes"
  param_root :: "'h route_node"

definition new_router :: "'h router" where
  "new_router = \<lparr>static_routes = (\<lambda>_. None), param_root = empty_node\<rparr>"

definition handle_param_route :: "bytes \<Rightarrow> bytes \<Rightarrow> 'h \<Rightarrow> 'h router \<Rightarrow> route_err option \<times> 'h router" where
  "handle_param_route meth path h rt =
     (case parse_route_segments path of
        Inl e \<Rightarrow> (Some e, rt)
      | Inr ss \<Rightarrow> (None, rt\<lparr>param_root := insert_route
          \<lparr>pr_pattern = path, pr_segments = ss, pr_methods = [(meth, h)]\<rparr> (param_root rt)\<rparr>))"

definition handle_method :: "bytes \<Rightarrow> bytes \<Rightarrow> 'h option \<Rightarrow> 'h router \<Rightarrow> route_err option \<times> 'h router" where
  "handle_method method0 path handler0 rt =
     (let meth = to_upper method0 in
      if meth \<noteq> any_method \<and> contains_any meth [sp, tab, cr, lf] then (Some ErrInvalidRouteMethod, rt)
      else if path = [] \<or> \<not> has_prefix path ''/'' then (Some ErrInvalidRoutePath, rt)
      else (case handler0 of
          None \<Rightarrow> (Some ErrMissingHandler, rt)
        | Some h \<Rightarrow>
            if has_path_params path then handle_param_route meth path h rt
            else (let mr = (case static_routes rt path of None \<Rightarrow> [] | Some mr \<Rightarrow> mr)
                  in (None, rt\<lparr>static_routes := (static_routes rt)(path \<mapsto> map_put meth h mr)\<rparr>))))"

definition handle_any :: "bytes \<Rightarrow> 'h option \<Rightarrow> 'h router \<Rightarrow> route_err option \<times> 'h router" where
  "handle_any path h rt = handle_method any_method path h rt"

text \<open>A function is a handler by \<open>AppHandlerFunc\<close>; a nil function is refused before anything else.\<close>

definition handle_func :: "bytes \<Rightarrow> 'h option \<Rightarrow> 'h router \<Rightarrow> route_err option \<times> 'h router" where
  "handle_func path f rt = (case f of None \<Rightarrow> (Some ErrMissingHandler, rt) | Some h \<Rightarrow> handle_any path (Some h) rt)"

definition handle_method_func :: "bytes \<Rightarrow> bytes \<Rightarrow> 'h option \<Rightarrow> 'h router \<Rightarrow> route_err option \<times> 'h router" where
  "handle_method_func meth path f rt =
     (case f of None \<Rightarrow> (Some ErrMissingHandler, rt) | Some h \<Rightarrow> handle_method meth path (Some h) rt)"

definition route_path :: "bytes \<Rightarrow> bytes" where
  "route_path target =
     (let path = takeWhile (\<lambda>c. c \<noteq> CHR ''?'') target in if path = [] then ''/'' else path)"

definition allowed_methods :: "'h method_routes \<Rightarrow> bytes" where
  "allowed_methods mr = join '', '' (sort (filter (\<lambda>m. m \<noteq> any_method) (map fst mr)))"

definition write_method_not_allowed :: "'h method_routes \<Rightarrow> resp_writer \<Rightarrow> resp_writer" where
  "write_method_not_allowed mr w =
     (let w1 = set_header ''Allow'' (allowed_methods mr) w;
          w2 = set_header ''Content-Type'' ''text/plain; charset=utf-8'' w1;
          w3 = write_header 405 w2
      in fst (write_body (''method not allowed'' @ [lf]) w3))"

text \<open>The handler that \<open>dispatchMethod\<close> selects: the exact method, then any method.\<close>

definition select_handler :: "request \<Rightarrow> 'h method_routes \<Rightarrow> 'h option" where
  "select_handler r mr =
     (case map_of mr (to_upper (http_method r)) of
        Some h \<Rightarrow> Some h
      | None \<Rightarrow> map_of mr any_method)"

text \<open>\<open>None\<close> is the result false of the code, when nothing has been written.\<close>

definition dispatch_method ::
  "resp_writer \<Rightarrow> request \<Rightarrow> world \<Rightarrow> handler method_routes \<Rightarrow> route_params option \<Rightarrow> bool \<Rightarrow>
     (outcome \<times> resp_writer \<times> world) option" where
  "dispatch_method w r s mr params writeFailure =
     (case select_handler r mr of
        None \<Rightarrow> if writeFailure then Some (Returned, write_method_not_allowed mr w, s) else None
      | Some h \<Rightarrow> Some (h w (case params of None \<Rightarrow> r | Some ps \<Rightarrow> r\<lparr>req_params := Some ps\<rparr>) s))"

fun serve_matches ::
  "resp_writer \<Rightarrow> request \<Rightarrow> world \<Rightarrow> handler route_match list \<Rightarrow> handler method_routes \<Rightarrow> outcome \<times> resp_writer \<times> world" where
  "serve_matches w r s [] allowed =
     (if allowed \<noteq> [] then (Returned, write_method_not_allowed allowed w, s)
      else
        let w1 = set_header ''Content-Type'' ''text/plain; charset=utf-8'' w;
            w2 = write_header 404 w1
        in (Returned, fst (write_body (''not found'' @ [lf]) w2), s))"
| "serve_matches w r s ((mr, params) # ms) allowed =
     (case dispatch_method w r s mr (Some params) False of
        Some res \<Rightarrow> res
      | None \<Rightarrow> serve_matches w r s ms (fold (\<lambda>(m, h). map_put m h) mr allowed))"

definition router_serve_http :: "handler router \<Rightarrow> handler" where
  "router_serve_http rt w r s =
     (let targetPath = route_path (http_target r) in
      case static_routes rt targetPath of
        Some mr \<Rightarrow>
          (case dispatch_method w r s mr None True of Some res \<Rightarrow> res | None \<Rightarrow> (Returned, w, s))
      | None \<Rightarrow> serve_matches w r s (match_path (param_root rt) targetPath) [])"

end
