(* ===== verification/Router_Facts.thy ===== *)
theory Router_Facts
  imports Router
begin

text \<open>
  The router against its specification: a table in which the last registration of a pattern and
  a method counts, and in which a pattern matches a path when its segments bind it. The tree
  and the static map are two implementations of one table interface.
\<close>

section \<open>The specification\<close>

text \<open>How the segments of a pattern bind the segments of a path; an empty segment binds nothing, as in the code.\<close>

fun bind_segments :: "route_segment list \<Rightarrow> bytes list \<Rightarrow> route_params \<Rightarrow> route_params option" where
  "bind_segments [] path ps = (if path = [] then Some ps else None)"
| "bind_segments (seg # ss) path ps =
     (if seg_literal seg \<noteq> [] then
        (case path of [] \<Rightarrow> None | p # rest \<Rightarrow> if p = seg_literal seg then bind_segments ss rest ps else None)
      else if seg_param seg \<noteq> [] then
        (case path of [] \<Rightarrow> None | p # rest \<Rightarrow> bind_segments ss rest (ps(seg_param seg \<mapsto> p)))
      else if seg_wildcard seg \<noteq> [] then bind_segments ss [] (ps(seg_wildcard seg \<mapsto> join ''/'' path))
      else bind_segments ss path ps)"

text \<open>
  A table of registrations: entries under keys, each with a value and the bindings it offers.
  \<open>ent t k v b\<close> says that the table offers the value with a binding under the key.
\<close>

locale route_table =
  fixes empty_t :: 't
    and ins :: "'k \<Rightarrow> 'v \<Rightarrow> 't \<Rightarrow> 't"
    and ent :: "'t \<Rightarrow> 'k \<Rightarrow> 'v \<Rightarrow> 'b \<Rightarrow> bool"
    and binds :: "'k \<Rightarrow> 'b \<Rightarrow> bool"
    and inv :: "'t \<Rightarrow> bool"
  assumes inv_empty: "inv empty_t"
    and inv_ins: "inv t \<Longrightarrow> inv (ins k v t)"
    and ent_empty: "\<not> ent empty_t k v b"
    and ent_ins: "inv t \<Longrightarrow> ent (ins k v t) k' v' b \<longleftrightarrow> (if k' = k then v' = v \<and> binds k b else ent t k' v' b)"
begin

lemma inv_fold: "inv t \<Longrightarrow> inv (fold (\<lambda>(k, v). ins k v) regs t)"
  by (induction regs arbitrary: t) (auto simp: inv_ins)

text \<open>After any registrations the last one of a key is offered, with the bindings of the key.\<close>

lemma ent_registered:
  "ent (fold (\<lambda>(k, v). ins k v) regs empty_t) k v b \<longleftrightarrow> map_of (rev regs) k = Some v \<and> binds k b"
proof (induction regs rule: rev_induct)
  case Nil
  then show ?case by (simp add: ent_empty)
next
  case (snoc kv regs)
  obtain k' v' where kv: "kv = (k', v')" by (cases kv)
  show ?case using snoc ent_ins[OF inv_fold[OF inv_empty]] by (auto simp: kv)
qed

end

section \<open>Maps\<close>

lemma map_of_map_put: "map_of (map_put k v m) = (map_of m)(k \<mapsto> v)"
  by (induction k v m rule: map_put.induct) auto

lemma map_put_ne [simp]: "map_put k v m \<noteq> []"
  by (induction k v m rule: map_put.induct) auto

lemma keys_map_put: "set (map fst (map_put k v m)) = insert k (set (map fst m))"
  by (induction k v m rule: map_put.induct) auto

lemma distinct_map_put: "distinct (map fst m) \<Longrightarrow> distinct (map fst (map_put k v m))"
proof (induction k v m rule: map_put.induct)
  case (2 k v k' v' m)
  then show ?case using keys_map_put[of k v m] by auto
qed simp

lemma fold_map_put:
  "map_of (fold (\<lambda>(m, h). map_put m h) xs acc) k =
     (case map_of (rev xs) k of Some h \<Rightarrow> Some h | None \<Rightarrow> map_of acc k)"
  by (induction xs arbitrary: acc) (auto simp: map_of_map_put map_add_def split: option.splits)

lemma keys_fold_map_put:
  "set (map fst (fold (\<lambda>(m, h). map_put m h) xs acc)) = set (map fst xs) \<union> set (map fst acc)"
proof (induction xs arbitrary: acc)
  case (Cons x xs)
  obtain m h where "x = (m, h)" by (cases x)
  with Cons[of "map_put m h acc"] keys_map_put[of m h acc] show ?case by simp
qed simp

lemma keys_update_child: "set (map fst (update_child k f es)) = insert k (set (map fst es))"
  by (induction k f es rule: update_child.induct) auto

lemma distinct_update_child: "distinct (map fst es) \<Longrightarrow> distinct (map fst (update_child k f es))"
proof (induction k f es rule: update_child.induct)
  case (2 name f k c es)
  then show ?case using keys_update_child[of name f es] by auto
qed simp

lemma map_of_update_child:
  "map_of (update_child k f es) k' =
     (if k' = k then Some (f (case map_of es k of None \<Rightarrow> empty_node | Some c \<Rightarrow> c)) else map_of es k')"
  by (induction k f es rule: update_child.induct) auto

lemma set_update_child:
  "distinct (map fst es) \<Longrightarrow> (k', c) \<in> set (update_child k f es) \<longleftrightarrow>
     (if k' = k then c = f (case map_of es k of None \<Rightarrow> empty_node | Some c \<Rightarrow> c) else (k', c) \<in> set es)"
  using distinct_update_child[of es k f] map_of_update_child[of k f es k']
  by (metis map_of_eq_Some_iff option.inject)

section \<open>The tree with trails\<close>

text \<open>\<open>matchSegments\<close> with the trail of edges to each route, to identify the route by its place.\<close>

abbreviation lit_edge :: "bytes \<Rightarrow> route_segment" where
  "lit_edge l \<equiv> \<lparr>seg_literal = l, seg_param = [], seg_wildcard = []\<rparr>"
abbreviation param_edge :: "bytes \<Rightarrow> route_segment" where
  "param_edge n \<equiv> \<lparr>seg_literal = [], seg_param = n, seg_wildcard = []\<rparr>"
abbreviation wild_edge :: "bytes \<Rightarrow> route_segment" where
  "wild_edge n \<equiv> \<lparr>seg_literal = [], seg_param = [], seg_wildcard = n\<rparr>"

type_synonym 'h trail_match = "route_segment list \<times> 'h param_route \<times> route_params"

function found :: "'h route_node \<Rightarrow> bytes list \<Rightarrow> route_params \<Rightarrow> 'h trail_match list" where
  "found (RouteNode rs ls ps ws) [] params =
     map (\<lambda>q. ([], q, params)) rs @
     concat (map (\<lambda>(name, c). map (apfst ((#) (wild_edge name))) (found c [] (params(name \<mapsto> [])))) ws)"
| "found (RouteNode rs ls ps ws) (seg # rest) params =
     (case map_of ls seg of None \<Rightarrow> [] | Some c \<Rightarrow> map (apfst ((#) (lit_edge seg))) (found c rest params)) @
     concat (map (\<lambda>(name, c). map (apfst ((#) (param_edge name))) (found c rest (params(name \<mapsto> seg)))) ps) @
     concat (map (\<lambda>(name, c). map (apfst ((#) (wild_edge name)))
       (found c [] (params(name \<mapsto> join ''/'' (seg # rest))))) ws)"
  by pat_completeness auto
termination
  by (relation "measure (\<lambda>(n, _, _). size n)") (auto dest!: map_of_SomeD size_child)

lemma concat_map_pairs:
  "(\<And>k c. (k, c) \<in> set es \<Longrightarrow> f k c = map g (f' k c)) \<Longrightarrow>
     concat (map (\<lambda>(k, c). f k c) es) = map g (concat (map (\<lambda>(k, c). f' k c) es))"
  by (induction es) auto

lemma match_segments_found:
  "match_segments n path params = map (\<lambda>(_, q, ps). (pr_methods q, ps)) (found n path params)"
proof (induction n path params rule: found.induct)
  case (1 rs ls ps ws params)
  have "concat (map (\<lambda>(name, c). match_segments c [] (params(name \<mapsto> []))) ws) =
      map (\<lambda>(_, q, ps). (pr_methods q, ps)) (concat (map (\<lambda>(name, c). map (apfst ((#) (wild_edge name)))
        (found c [] (params(name \<mapsto> [])))) ws))"
    apply (rule concat_map_pairs)
    subgoal for name c using 1(1)[of "(name, c)" name c] by (simp add: comp_def case_prod_beta fun_upd_def)
    done
  then show ?case by (simp add: terminal_matches_def)
next
  case (2 rs ls ps ws seg rest params)
  let ?g = "\<lambda>(_, q, ps). (pr_methods q, ps)"
  have "concat (map (\<lambda>(name, c). match_segments c rest (params(name \<mapsto> seg))) ps) =
      map ?g (concat (map (\<lambda>(name, c). map (apfst ((#) (param_edge name))) (found c rest (params(name \<mapsto> seg)))) ps))"
    apply (rule concat_map_pairs)
    subgoal for name c using 2(2)[of "(name, c)" name c] by (simp add: comp_def case_prod_beta fun_upd_def)
    done
  moreover have "concat (map (\<lambda>(name, c). match_segments c [] (params(name \<mapsto> join ''/'' (seg # rest)))) ws) =
      map ?g (concat (map (\<lambda>(name, c). map (apfst ((#) (wild_edge name)))
        (found c [] (params(name \<mapsto> join ''/'' (seg # rest))))) ws))"
    apply (rule concat_map_pairs)
    subgoal for name c using 2(3)[of "(name, c)" name c] by (simp add: comp_def case_prod_beta fun_upd_def)
    done
  moreover have "(case map_of ls seg of None \<Rightarrow> [] | Some c \<Rightarrow> match_segments c rest params) =
      map ?g (case map_of ls seg of None \<Rightarrow> [] | Some c \<Rightarrow> map (apfst ((#) (lit_edge seg))) (found c rest params))"
    using 2(1) by (simp add: comp_def case_prod_beta split: option.split)
  ultimately show ?case by simp
qed

section \<open>Trees that insertion builds\<close>

text \<open>Keys and patterns occur once, and no edge has an empty name.\<close>

definition edges_ok :: "(bytes \<times> 'h route_node) list \<Rightarrow> bool" where
  "edges_ok es \<longleftrightarrow> distinct (map fst es) \<and> [] \<notin> fst ` set es"

inductive tree_ok :: "'h route_node \<Rightarrow> bool" where
  tree_ok: "distinct (map pr_pattern rs) \<Longrightarrow> edges_ok ls \<Longrightarrow> edges_ok ps \<Longrightarrow> edges_ok ws \<Longrightarrow>
    \<forall>c\<in>set (map snd ls). tree_ok c \<Longrightarrow> \<forall>c\<in>set (map snd ps). tree_ok c \<Longrightarrow> \<forall>c\<in>set (map snd ws). tree_ok c \<Longrightarrow>
    tree_ok (RouteNode rs ls ps ws)"

inductive_simps tree_ok_node: "tree_ok (RouteNode rs ls ps ws)"

lemma tree_ok_empty [simp]: "tree_ok empty_node"
  by (simp add: empty_node_def tree_ok_node edges_ok_def)

definition child :: "(bytes \<times> 'h route_node) list \<Rightarrow> bytes \<Rightarrow> 'h route_node" where
  "child es k = (case map_of es k of None \<Rightarrow> empty_node | Some c \<Rightarrow> c)"

lemma child_update [simp]: "child (update_child k f es) k' = (if k' = k then f (child es k) else child es k')"
  by (simp add: child_def map_of_update_child)

lemma edges_ok_update: "edges_ok es \<Longrightarrow> k \<noteq> [] \<Longrightarrow> edges_ok (update_child k f es)"
  using distinct_update_child[of es k f] keys_update_child[of k f es] by (auto simp: edges_ok_def)

lemma tree_ok_child: "\<forall>c\<in>set (map snd es). tree_ok c \<Longrightarrow> tree_ok (child es k)"
  by (auto simp: child_def split: option.split dest!: map_of_SomeD)

lemma tree_ok_update:
  assumes "edges_ok es" "\<forall>c\<in>set (map snd es). tree_ok c" "\<And>n. tree_ok n \<Longrightarrow> tree_ok (f n)"
  shows "\<forall>c\<in>set (map snd (update_child k f es)). tree_ok c"
  using assms tree_ok_child[OF assms(2), of k]
  by (auto simp: set_update_child edges_ok_def child_def[symmetric] split: if_splits)

lemma patterns_add_terminal: "set (map pr_pattern (add_terminal route rs)) = insert (pr_pattern route) (set (map pr_pattern rs))"
  by (induction rs) auto

lemma distinct_add_terminal: "distinct (map pr_pattern rs) \<Longrightarrow> distinct (map pr_pattern (add_terminal route rs))"
proof (induction rs)
  case (Cons q rs)
  then show ?case using patterns_add_terminal[of route rs] by auto
qed simp

lemma tree_ok_insert: "tree_ok n \<Longrightarrow> tree_ok (insert_at route ss n)"
proof (induction ss arbitrary: n)
  case Nil
  then show ?case by (cases n) (simp add: tree_ok_node distinct_add_terminal)
next
  case (Cons seg ss)
  obtain rs ls ps ws where n: "n = RouteNode rs ls ps ws" by (cases n)
  have upd: "\<forall>c\<in>set (map snd (update_child k (insert_at route ss) es)). tree_ok c"
    if "edges_ok es" "\<forall>c\<in>set (map snd es). tree_ok c" for k es
    by (rule tree_ok_update[OF that]) (rule Cons.IH)
  have ok: "distinct (map pr_pattern rs)" "edges_ok ls" "edges_ok ps" "edges_ok ws"
    "\<forall>c\<in>set (map snd ls). tree_ok c" "\<forall>c\<in>set (map snd ps). tree_ok c" "\<forall>c\<in>set (map snd ws). tree_ok c"
    using Cons.prems by (simp_all add: n tree_ok_node)
  note up = upd[OF ok(2,5)] upd[OF ok(3,6)] upd[OF ok(4,7)]
  consider "seg_literal seg \<noteq> []" | "seg_literal seg = []" "seg_param seg \<noteq> []"
    | "seg_literal seg = []" "seg_param seg = []" "seg_wildcard seg \<noteq> []"
    | "seg_literal seg = []" "seg_param seg = []" "seg_wildcard seg = []" by blast
  then show ?case
  proof cases
    case 1
    with ok up(1) show ?thesis by (simp add: n tree_ok_node edges_ok_update)
  next
    case 2
    with ok up(2) show ?thesis by (simp add: n tree_ok_node edges_ok_update)
  next
    case 3
    with ok up(3) show ?thesis by (simp add: n tree_ok_node edges_ok_update)
  next
    case 4
    then show ?thesis using Cons.IH[OF Cons.prems] by (simp add: n)
  qed
qed

section \<open>What a tree offers\<close>

definition offers :: "'h route_node \<Rightarrow> bytes list \<Rightarrow> route_params \<Rightarrow> route_segment list \<Rightarrow> bytes \<Rightarrow> bytes \<Rightarrow> 'h \<Rightarrow> route_params \<Rightarrow> bool" where
  "offers n path ps tr pat m h b \<longleftrightarrow>
     (\<exists>q. (tr, q, b) \<in> set (found n path ps) \<and> pr_pattern q = pat \<and> map_of (pr_methods q) m = Some h)"

text \<open>The members of the lists of \<open>found\<close>.\<close>

lemma apfst_image_iff: "(tr, q, b) \<in> apfst f ` S \<longleftrightarrow> (\<exists>tr'. tr = f tr' \<and> (tr', q, b) \<in> S)"
  by force

lemma edge_matches:
  "(tr, q, b) \<in> set (concat (map (\<lambda>(name, c). map (apfst ((#) (e name))) (F name c)) es)) \<longleftrightarrow>
     (\<exists>name c tr'. (name, c) \<in> set es \<and> tr = e name # tr' \<and> (tr', q, b) \<in> set (F name c))"
proof (induction es)
  case (Cons x es)
  obtain name c where "x = (name, c)" by (cases x)
  with Cons show ?case by (auto simp: apfst_image_iff)
qed simp

lemma found_Nil_iff:
  "(tr, q, b) \<in> set (found (RouteNode rs ls qs ws) [] ps) \<longleftrightarrow>
     tr = [] \<and> q \<in> set rs \<and> b = ps \<or>
     (\<exists>x c tr'. (x, c) \<in> set ws \<and> tr = wild_edge x # tr' \<and> (tr', q, b) \<in> set (found c [] (ps(x \<mapsto> []))))"
  unfolding found.simps(1) set_append Un_iff edge_matches by auto

lemma found_Cons_iff:
  "(tr, q, b) \<in> set (found (RouteNode rs ls qs ws) (p # rest) ps) \<longleftrightarrow>
     (\<exists>c tr'. map_of ls p = Some c \<and> tr = lit_edge p # tr' \<and> (tr', q, b) \<in> set (found c rest ps)) \<or>
     (\<exists>x c tr'. (x, c) \<in> set qs \<and> tr = param_edge x # tr' \<and> (tr', q, b) \<in> set (found c rest (ps(x \<mapsto> p)))) \<or>
     (\<exists>x c tr'. (x, c) \<in> set ws \<and> tr = wild_edge x # tr' \<and>
        (tr', q, b) \<in> set (found c [] (ps(x \<mapsto> join ''/'' (p # rest)))))"
  unfolding found.simps(2) set_append Un_iff edge_matches
  by (auto simp: apfst_image_iff split: option.split)

lemma found_empty [simp]: "found empty_node path ps = []"
  by (cases path) (simp_all add: empty_node_def)

lemma offers_empty [simp]: "\<not> offers empty_node path ps tr pat m h b"
  by (simp add: offers_def)

lemma offers_Nil:
  "offers n path ps [] pat m h b \<longleftrightarrow> path = [] \<and> b = ps \<and>
     (\<exists>q\<in>set (node_routes n). pr_pattern q = pat \<and> map_of (pr_methods q) m = Some h)"
proof (cases n)
  case (RouteNode rs ls qs ws)
  show ?thesis
  proof (cases path)
    case Nil
    then show ?thesis unfolding RouteNode offers_def Nil found_Nil_iff by auto
  next
    case (Cons p rest)
    then show ?thesis unfolding RouteNode offers_def Cons found_Cons_iff by auto
  qed
qed

lemma child_found: "edges_ok es \<Longrightarrow> (k, c) \<in> set es \<Longrightarrow> child es k = c"
  by (simp add: child_def edges_ok_def)

lemma child_offers:
  "edges_ok es \<Longrightarrow> (\<exists>c. (x, c) \<in> set es \<and> offers c path ps tr pat m h b) \<longleftrightarrow> offers (child es x) path ps tr pat m h b"
proof -
  assume "edges_ok es"
  then have "(x, c) \<in> set es \<longleftrightarrow> map_of es x = Some c" for c
    by (simp add: edges_ok_def map_of_eq_Some_iff)
  then show ?thesis by (simp add: child_def split: option.split)
qed

lemma offers_lit:
  assumes "l \<noteq> []"
  shows "offers n path ps (lit_edge l # tr) pat m h b \<longleftrightarrow>
    (case path of [] \<Rightarrow> False | p # rest \<Rightarrow> p = l \<and> offers (child (literal_children n) l) rest ps tr pat m h b)"
proof (cases n)
  case (RouteNode rs ls qs ws)
  show ?thesis
  proof (cases path)
    case Nil
    then show ?thesis using assms unfolding RouteNode offers_def Nil found_Nil_iff by auto
  next
    case (Cons p rest)
    have "offers n path ps (lit_edge l # tr) pat m h b \<longleftrightarrow>
        p = l \<and> (\<exists>c. map_of ls l = Some c \<and> offers c rest ps tr pat m h b)"
      using assms unfolding RouteNode offers_def Cons found_Cons_iff by auto
    then show ?thesis by (auto simp: RouteNode Cons child_def split: option.split)
  qed
qed

lemma offers_param:
  assumes "tree_ok n" "x \<noteq> []"
  shows "offers n path ps (param_edge x # tr) pat m h b \<longleftrightarrow>
    (case path of [] \<Rightarrow> False | p # rest \<Rightarrow> offers (child (param_children n) x) rest (ps(x \<mapsto> p)) tr pat m h b)"
proof (cases n)
  case (RouteNode rs ls qs ws)
  then have qs: "edges_ok qs" using assms(1) by (simp add: tree_ok_node)
  show ?thesis
  proof (cases path)
    case Nil
    then show ?thesis using assms unfolding RouteNode offers_def Nil found_Nil_iff by auto
  next
    case (Cons p rest)
    have "offers n path ps (param_edge x # tr) pat m h b \<longleftrightarrow>
        (\<exists>c. (x, c) \<in> set qs \<and> offers c rest (ps(x \<mapsto> p)) tr pat m h b)"
      using assms(2) unfolding RouteNode offers_def Cons found_Cons_iff by auto
    then show ?thesis by (simp add: RouteNode Cons child_offers[OF qs])
  qed
qed

lemma offers_wild:
  assumes "tree_ok n" "x \<noteq> []"
  shows "offers n path ps (wild_edge x # tr) pat m h b \<longleftrightarrow>
    offers (child (wildcard_children n) x) [] (ps(x \<mapsto> join ''/'' path)) tr pat m h b"
proof (cases n)
  case (RouteNode rs ls qs ws)
  then have ws: "edges_ok ws" using assms(1) by (simp add: tree_ok_node)
  have "offers n path ps (wild_edge x # tr) pat m h b \<longleftrightarrow>
      (\<exists>c. (x, c) \<in> set ws \<and> offers c [] (ps(x \<mapsto> join ''/'' path)) tr pat m h b)"
  proof (cases path)
    case Nil
    then show ?thesis using assms(2) unfolding RouteNode offers_def Nil found_Nil_iff by auto
  next
    case (Cons p rest)
    then show ?thesis using assms(2) unfolding RouteNode offers_def Cons found_Cons_iff by auto
  qed
  then show ?thesis by (simp add: RouteNode child_offers[OF ws])
qed

lemma offers_other:
  assumes "tree_ok n" "\<And>x. x \<noteq> [] \<Longrightarrow> e \<noteq> lit_edge x \<and> e \<noteq> param_edge x \<and> e \<noteq> wild_edge x"
  shows "\<not> offers n path ps (e # tr) pat m h b"
proof (cases n)
  case (RouteNode rs ls qs ws)
  then have k: "[] \<notin> fst ` set ls" "[] \<notin> fst ` set qs" "[] \<notin> fst ` set ws"
    using assms(1) by (simp_all add: tree_ok_node edges_ok_def)
  have "e \<noteq> lit_edge l" if "map_of ls l = Some c" for l c
    using that k(1) assms(2)[of l] by (force dest: map_of_SomeD)
  moreover have "e \<noteq> param_edge l" if "(l, c) \<in> set qs" for l c
    using that k(2) assms(2)[of l] by force
  moreover have "e \<noteq> wild_edge l" if "(l, c) \<in> set ws" for l c
    using that k(3) assms(2)[of l] by force
  ultimately show ?thesis
    unfolding RouteNode offers_def by (cases path) (simp_all only: found_Nil_iff found_Cons_iff, blast+)
qed

text \<open>The edges that the segments of a pattern stand for.\<close>

fun trail :: "route_segment list \<Rightarrow> route_segment list" where
  "trail [] = []"
| "trail (seg # ss) =
     (if seg_literal seg \<noteq> [] then lit_edge (seg_literal seg) # trail ss
      else if seg_param seg \<noteq> [] then param_edge (seg_param seg) # trail ss
      else if seg_wildcard seg \<noteq> [] then wild_edge (seg_wildcard seg) # trail ss
      else trail ss)"

lemma terminal_offers:
  assumes "distinct (map pr_pattern rs)" "pr_methods route = [(meth, h0)]"
  shows "(\<exists>q\<in>set (add_terminal route rs). pr_pattern q = pat \<and> map_of (pr_methods q) m = Some h) \<longleftrightarrow>
    (if pat = pr_pattern route \<and> m = meth then h = h0
     else \<exists>q\<in>set rs. pr_pattern q = pat \<and> map_of (pr_methods q) m = Some h)"
  using assms
proof (induction rs)
  case Nil
  then show ?case by auto
next
  case (Cons q rs)
  show ?case
  proof (cases "pr_pattern q = pr_pattern route")
    case True
    have "\<not> (\<exists>q'\<in>set rs. pr_pattern q' = pr_pattern route)"
      using Cons.prems(1) True by (auto simp: image_iff)
    with True Cons.prems(2) show ?thesis by (auto simp: map_of_map_put)
  next
    case False
    with Cons show ?thesis by auto
  qed
qed

text \<open>The edge at the head of a trail: one of the three kinds, or none.\<close>

lemma edge_kinds:
  obtains (lit) x where "x \<noteq> []" "e = lit_edge x" | (param) x where "x \<noteq> []" "e = param_edge x"
  | (wild) x where "x \<noteq> []" "e = wild_edge x"
  | (other) "\<And>x. x \<noteq> [] \<Longrightarrow> e \<noteq> lit_edge x \<and> e \<noteq> param_edge x \<and> e \<noteq> wild_edge x"
  by metis

text \<open>Insertion changes what is offered at its own place and under its own pattern and method only.\<close>

lemma offers_insert_here:
  assumes "tree_ok n" "pr_methods route = [(meth, h0)]"
  shows "offers (insert_at route [] n) path ps tr pat m h b \<longleftrightarrow>
    (if tr = [] \<and> pat = pr_pattern route \<and> m = meth then h = h0 \<and> path = [] \<and> ps = b
     else offers n path ps tr pat m h b)"
proof -
  obtain rs ls qs ws where n: "n = RouteNode rs ls qs ws" by (cases n)
  have rs: "distinct (map pr_pattern rs)" using assms(1) by (simp add: n tree_ok_node)
  have ok: "tree_ok (insert_at route [] n)" using tree_ok_insert[OF assms(1)] .
  show ?thesis
  proof (cases tr)
    case Nil
    then show ?thesis using terminal_offers[OF rs assms(2)] by (auto simp: n offers_Nil)
  next
    case (Cons e tr')
    then show ?thesis using assms(1) ok
      by (cases rule: edge_kinds[of e]) (auto simp: n offers_lit offers_param offers_wild offers_other split: list.split)
  qed
qed

lemma offers_insert:
  assumes "tree_ok n" "pr_methods route = [(meth, h0)]"
  shows "offers (insert_at route ss n) path ps tr pat m h b \<longleftrightarrow>
    (if tr = trail ss \<and> pat = pr_pattern route \<and> m = meth then h = h0 \<and> bind_segments ss path ps = Some b
     else offers n path ps tr pat m h b)"
  using assms(1)
proof (induction ss arbitrary: n path ps tr)
  case Nil
  then show ?case using offers_insert_here[OF _ assms(2)] by auto
next
  case (Cons seg ss)
  obtain rs ls qs ws where n: "n = RouteNode rs ls qs ws" by (cases n)
  have ok: "tree_ok (insert_at route (seg # ss) n)" using tree_ok_insert[OF Cons.prems] .
  have ch: "tree_ok (child ls k)" "tree_ok (child qs k)" "tree_ok (child ws k)" for k
    using Cons.prems by (auto simp: n tree_ok_node intro!: tree_ok_child)
  show ?case
  proof (cases "seg_literal seg = [] \<and> seg_param seg = [] \<and> seg_wildcard seg = []")
    case True
    then show ?thesis using Cons.IH[OF Cons.prems] by (simp add: n)
  next
    case seg: False
    show ?thesis
    proof (cases tr)
      case Nil
      then show ?thesis using seg by (auto simp: n offers_Nil)
    next
      case tr: (Cons e tr')
      show ?thesis
      proof (cases rule: edge_kinds[of e])
        case (lit x)
        then show ?thesis
          using seg ok Cons.prems Cons.IH[OF ch(1)]
          by (auto simp: n tr offers_lit split: list.split)
      next
        case (param x)
        then show ?thesis
          using seg ok Cons.prems Cons.IH[OF ch(2)]
          by (auto simp: n tr offers_param fun_upd_def split: list.split)
      next
        case (wild x)
        then show ?thesis
          using seg ok Cons.prems Cons.IH[OF ch(3)]
          by (auto simp: n tr offers_wild fun_upd_def)
      next
        case other
        then show ?thesis
          using seg offers_other[OF ok other] offers_other[OF Cons.prems other] by (auto simp: tr)
      qed
    qed
  qed
qed

section \<open>The tree and the static map as tables\<close>

text \<open>Keys are a pattern and a method; a pattern that does not parse cannot be registered.\<close>

definition tree_ins :: "bytes \<times> bytes \<Rightarrow> 'h \<Rightarrow> 'h route_node \<Rightarrow> 'h route_node" where
  "tree_ins k h n =
     (case parse_route_segments (fst k) of
        Inl e \<Rightarrow> n
      | Inr ss \<Rightarrow> insert_route \<lparr>pr_pattern = fst k, pr_segments = ss, pr_methods = [(snd k, h)]\<rparr> n)"

definition tree_binds :: "bytes list \<Rightarrow> bytes \<times> bytes \<Rightarrow> route_params \<Rightarrow> bool" where
  "tree_binds path k b \<longleftrightarrow> (\<exists>ss. parse_route_segments (fst k) = Inr ss \<and> bind_segments ss path (\<lambda>_. None) = Some b)"

definition tree_ent :: "bytes list \<Rightarrow> 'h route_node \<Rightarrow> bytes \<times> bytes \<Rightarrow> 'h \<Rightarrow> route_params \<Rightarrow> bool" where
  "tree_ent path n k h b \<longleftrightarrow> (\<exists>tr. offers n path (\<lambda>_. None) tr (fst k) (snd k) h b)"

text \<open>The pattern of a route determines its place.\<close>

definition tree_inv :: "'h route_node \<Rightarrow> bool" where
  "tree_inv n \<longleftrightarrow> tree_ok n \<and> (\<forall>path ps tr pat m h b. offers n path ps tr pat m h b \<longrightarrow>
     (\<exists>ss. parse_route_segments pat = Inr ss \<and> tr = trail ss))"

lemma offers_tree_ins:
  assumes "tree_ok n" "parse_route_segments (fst k) = Inr ss"
  shows "offers (tree_ins k v n) path ps tr pat m h b \<longleftrightarrow>
    (if tr = trail ss \<and> pat = fst k \<and> m = snd k then h = v \<and> bind_segments ss path ps = Some b
     else offers n path ps tr pat m h b)"
  using offers_insert[OF assms(1), of "\<lparr>pr_pattern = fst k, pr_segments = ss, pr_methods = [(snd k, v)]\<rparr>" "snd k" v]
  by (simp add: tree_ins_def insert_route_def assms(2))

lemma tree_inv_ins: "tree_inv n \<Longrightarrow> tree_inv (tree_ins k v n)"
proof (cases "parse_route_segments (fst k)")
  case (Inr ss)
  assume "tree_inv n"
  moreover from this have "tree_ok (tree_ins k v n)"
    by (simp add: tree_inv_def tree_ins_def Inr insert_route_def tree_ok_insert)
  ultimately show ?thesis
    unfolding tree_inv_def using offers_tree_ins[OF _ Inr] Inr by (metis (no_types, lifting))
qed (simp add: tree_ins_def)

interpretation tree: route_table empty_node tree_ins "tree_ent path" "tree_binds path" tree_inv for path
proof unfold_locales
  show "tree_inv empty_node" by (simp add: tree_inv_def)
  show "tree_inv (tree_ins k v t)" if "tree_inv t" for t :: "'a route_node" and k v
    using that by (rule tree_inv_ins)
  show "\<not> tree_ent path empty_node k v b" for k and v :: 'a and b
    by (simp add: tree_ent_def)
  show "tree_ent path (tree_ins k v t) k' v' b = (if k' = k then v' = v \<and> tree_binds path k b else tree_ent path t k' v' b)"
    if inv: "tree_inv t" for t :: "'a route_node" and k v k' v' b
  proof (cases "parse_route_segments (fst k)")
    case (Inl e)
    have "\<not> tree_ent path t k v' b" using inv Inl unfolding tree_inv_def tree_ent_def by fastforce
    then show ?thesis by (auto simp: tree_ins_def tree_binds_def Inl)
  next
    case (Inr ss)
    have ok: "tree_ok t" using inv by (simp add: tree_inv_def)
    note law = offers_tree_ins[OF ok Inr, of v path "\<lambda>_. None"]
    show ?thesis
    proof (cases "k' = k")
      case True
      have "\<not> offers t path (\<lambda>_. None) tr (fst k) (snd k) v' b" if "tr \<noteq> trail ss" for tr
        using inv that Inr unfolding tree_inv_def by fastforce
      then show ?thesis unfolding tree_ent_def tree_binds_def True law using Inr by (auto split: if_splits)
    next
      case False
      then show ?thesis unfolding tree_ent_def law by (auto simp: prod_eq_iff)
    qed
  qed
qed

definition static_ins :: "bytes \<times> bytes \<Rightarrow> 'h \<Rightarrow> (bytes \<rightharpoonup> 'h method_routes) \<Rightarrow> (bytes \<rightharpoonup> 'h method_routes)" where
  "static_ins k h f = f(fst k \<mapsto> map_put (snd k) h (case f (fst k) of None \<Rightarrow> [] | Some mr \<Rightarrow> mr))"

definition static_ent :: "(bytes \<rightharpoonup> 'h method_routes) \<Rightarrow> bytes \<times> bytes \<Rightarrow> 'h \<Rightarrow> unit \<Rightarrow> bool" where
  "static_ent f k h u \<longleftrightarrow> (\<exists>mr. f (fst k) = Some mr \<and> map_of mr (snd k) = Some h)"

interpretation static: route_table "\<lambda>_. None" static_ins static_ent "\<lambda>_ _. True" "\<lambda>_. True"
  by unfold_locales (auto simp: static_ent_def static_ins_def map_of_map_put prod_eq_iff split: option.split)

section \<open>Registrations\<close>

text \<open>A registration is a method, a path and a handler; rejected ones leave the router as it was.\<close>

type_synonym 'h registration = "bytes \<times> bytes \<times> 'h"

definition register :: "'h registration \<Rightarrow> 'h router \<Rightarrow> 'h router" where
  "register = (\<lambda>(m, p, h) rt. snd (handle_method m p (Some h) rt))"

definition registered :: "'h registration list \<Rightarrow> 'h router" where
  "registered regs = fold register regs new_router"

definition valid_registration :: "'h registration \<Rightarrow> bool" where
  "valid_registration = (\<lambda>(m, p, h). \<not> (to_upper m \<noteq> [] \<and> contains_any (to_upper m) [sp, tab, cr, lf]) \<and> has_prefix p ''/'')"

text \<open>The table entries that registrations of static paths and of patterns stand for.\<close>

definition static_entries :: "'h registration list \<Rightarrow> ((bytes \<times> bytes) \<times> 'h) list" where
  "static_entries regs = map (\<lambda>(m, p, h). ((p, to_upper m), h))
     (filter (\<lambda>(m, p, h). valid_registration (m, p, h) \<and> \<not> has_path_params p) regs)"

definition pattern_entries :: "'h registration list \<Rightarrow> ((bytes \<times> bytes) \<times> 'h) list" where
  "pattern_entries regs = map (\<lambda>(m, p, h). ((p, to_upper m), h))
     (filter (\<lambda>(m, p, h). valid_registration (m, p, h) \<and> has_path_params p) regs)"

lemma register_parts:
  "static_routes (register (m, p, h) rt) =
     (if valid_registration (m, p, h) \<and> \<not> has_path_params p then static_ins (p, to_upper m) h (static_routes rt)
      else static_routes rt)"
  "param_root (register (m, p, h) rt) =
     (if valid_registration (m, p, h) \<and> has_path_params p then tree_ins (p, to_upper m) h (param_root rt)
      else param_root rt)"
  by (auto simp: register_def handle_method_def valid_registration_def any_method_def static_ins_def tree_ins_def
      handle_param_route_def Let_def has_prefix_def split: sum.splits)

lemma fold_register_parts:
  "static_routes (fold register regs rt) = fold (\<lambda>(k, v). static_ins k v) (static_entries regs) (static_routes rt)"
  "param_root (fold register regs rt) = fold (\<lambda>(k, v). tree_ins k v) (pattern_entries regs) (param_root rt)"
proof (induction regs arbitrary: rt)
  case (Cons r regs)
  obtain m p h where r: "r = (m, p, h)" by (cases r)
  {
    case 1
    show ?case using Cons(1)[of "register r rt"] by (simp add: r register_parts static_entries_def)
  next
    case 2
    show ?case using Cons(2)[of "register r rt"] by (simp add: r register_parts pattern_entries_def)
  }
qed (simp_all add: static_entries_def pattern_entries_def)

lemma static_registered:
  "(\<exists>mr. static_routes (registered regs) p = Some mr \<and> map_of mr m = Some h) \<longleftrightarrow>
     map_of (rev (static_entries regs)) (p, m) = Some h"
  using static.ent_registered[of "static_entries regs" "(p, m)" h "()"]
  by (simp add: registered_def fold_register_parts new_router_def static_ent_def)

lemma match_path_offers:
  "(\<exists>mr. (mr, b) \<in> set (match_path n path) \<and> map_of mr m = Some h) \<longleftrightarrow>
     (\<exists>pat. tree_ent (split_path path) n (pat, m) h b)"
  by (force simp: match_path_def match_segments_found tree_ent_def offers_def)

lemma static_defined:
  "static_routes (registered regs) p \<noteq> None \<longleftrightarrow> (\<exists>m h. ((p, m), h) \<in> set (static_entries regs))"
proof -
  have "fold (\<lambda>(k, v). static_ins k v) es f p \<noteq> None \<longleftrightarrow> f p \<noteq> None \<or> (\<exists>m h. ((p, m), h) \<in> set es)" for es and f :: "bytes \<rightharpoonup> 'a method_routes"
  proof (induction es arbitrary: f)
    case (Cons e es)
    obtain q m h where e: "e = ((q, m), h)" by (metis prod.collapse)
    have "static_ins (q, m) h f p \<noteq> None \<longleftrightarrow> p = q \<or> f p \<noteq> None" by (simp add: static_ins_def)
    with Cons.IH[of "static_ins (q, m) h f"] show ?case by (auto simp only: e fold_simps prod.case list.set insert_iff prod.inject)
  qed simp
  then show ?thesis by (simp add: registered_def fold_register_parts new_router_def)
qed

section \<open>Dispatch\<close>

text \<open>The pattern registrations that match a path, as the table has them.\<close>

definition pattern_match :: "'h registration list \<Rightarrow> bytes \<Rightarrow> bytes \<Rightarrow> 'h \<Rightarrow> route_params \<Rightarrow> bool" where
  "pattern_match regs path m h b \<longleftrightarrow> (\<exists>pat ss. map_of (rev (pattern_entries regs)) (pat, m) = Some h \<and>
     parse_route_segments pat = Inr ss \<and> bind_segments ss (split_path path) (\<lambda>_. None) = Some b)"

lemma match_path_registered:
  "(\<exists>mr. (mr, b) \<in> set (match_path (param_root (registered regs)) path) \<and> map_of mr m = Some h) \<longleftrightarrow>
     pattern_match regs path m h b"
  using tree.ent_registered[of "split_path path" "pattern_entries regs"]
  by (auto simp: match_path_offers registered_def fold_register_parts new_router_def pattern_match_def tree_binds_def)

text \<open>What \<open>serve_matches\<close> does: the first match with a handler, or a refusal.\<close>

definition not_found_reply :: "resp_writer \<Rightarrow> resp_writer" where
  "not_found_reply w = fst (write_body (''not found'' @ [lf]) (write_header 404
     (set_header ''Content-Type'' ''text/plain; charset=utf-8'' w)))"

abbreviation merge_methods :: "'h method_routes \<Rightarrow> 'h method_routes \<Rightarrow> 'h method_routes" where
  "merge_methods mr allowed \<equiv> fold (\<lambda>(m, h). map_put m h) mr allowed"

lemma serve_matches_found:
  "\<exists>mr ps h. (mr, ps) \<in> set ms \<and> select_handler r mr = Some h \<Longrightarrow>
     \<exists>mr ps h. (mr, ps) \<in> set ms \<and> select_handler r mr = Some h \<and>
       serve_matches w r s ms allowed = h w (r\<lparr>req_params := Some ps\<rparr>) s"
proof (induction ms arbitrary: allowed)
  case (Cons x ms)
  obtain mr ps where x: "x = (mr, ps)" by (cases x)
  show ?case
  proof (cases "select_handler r mr")
    case None
    with Cons.prems x have "\<exists>mr ps h. (mr, ps) \<in> set ms \<and> select_handler r mr = Some h" by auto
    from Cons.IH[OF this, of "merge_methods mr allowed"] None show ?thesis
      by (fastforce simp: x dispatch_method_def)
  next
    case (Some h)
    then show ?thesis by (intro exI[of _ mr] exI[of _ ps] exI[of _ h]) (simp add: x dispatch_method_def)
  qed
qed simp

lemma serve_matches_refused:
  "\<forall>mr ps. (mr, ps) \<in> set ms \<longrightarrow> select_handler r mr = None \<Longrightarrow>
     serve_matches w r s ms allowed =
       (let al = fold (\<lambda>(mr, ps). merge_methods mr) ms allowed
        in if al \<noteq> [] then (Returned, write_method_not_allowed al w, s) else (Returned, not_found_reply w, s))"
proof (induction ms arbitrary: allowed)
  case Nil
  then show ?case by (simp add: not_found_reply_def Let_def)
next
  case (Cons x ms)
  obtain mr ps where x: "x = (mr, ps)" by (cases x)
  with Cons.prems have "select_handler r mr = None" by auto
  with Cons x show ?case by (simp add: dispatch_method_def)
qed

lemma merged_keys:
  "set (map fst (fold (\<lambda>(mr, ps). merge_methods mr) ms allowed)) =
     (\<Union>(mr, ps)\<in>set ms. set (map fst mr)) \<union> set (map fst allowed)"
proof (induction ms arbitrary: allowed)
  case (Cons x ms)
  obtain mr ps where x: "x = (mr, ps)" by (cases x)
  show ?case using Cons.IH[of "merge_methods mr allowed"] keys_fold_map_put[of mr allowed] by (auto simp: x)
qed simp

lemma merged_distinct:
  "distinct (map fst allowed) \<Longrightarrow> distinct (map fst (fold (\<lambda>(mr, ps). merge_methods mr) ms allowed))"
proof (induction ms arbitrary: allowed)
  case (Cons x ms)
  obtain mr ps where x: "x = (mr, ps)" by (cases x)
  have "distinct (map fst (merge_methods mr allowed))"
    using Cons.prems by (induction mr arbitrary: allowed) (auto simp: distinct_map_put)
  with Cons.IH x show ?case by simp
qed simp

text \<open>The Allow header depends on the set of methods only.\<close>

lemma allowed_methods_set:
  assumes "distinct (map fst mr)"
  shows "allowed_methods mr = join '', '' (sorted_list_of_set ({m. m \<in> set (map fst mr)} - {[]}))"
proof -
  let ?ms = "filter (\<lambda>m. m \<noteq> any_method) (map fst mr)"
  have "distinct ?ms" using assms by simp
  then have "sort ?ms = sorted_list_of_set (set ?ms)"
    by (simp only: sorted_list_of_set_sort_remdups distinct_remdups_id)
  moreover have "set ?ms = {m. m \<in> set (map fst mr)} - {[]}" by (auto simp: any_method_def)
  ultimately show ?thesis by (simp add: allowed_methods_def)
qed

lemma map_of_keys: "m \<in> set (map fst mr) \<longleftrightarrow> (\<exists>h. map_of mr m = Some h)"
  by (metis domIff dom_map_of_conv_image_fst image_set not_None_eq)

lemma select_handler_iff:
  "select_handler r mr = None \<longleftrightarrow> map_of mr (to_upper (http_method r)) = None \<and> map_of mr [] = None"
  by (simp add: select_handler_def any_method_def split: option.split)

lemma select_handlerD:
  "select_handler r mr = Some h \<Longrightarrow> \<exists>m\<in>{to_upper (http_method r), []}. map_of mr m = Some h"
  by (auto simp: select_handler_def any_method_def split: option.splits)

lemma serve_http_patterns:
  assumes "static_routes rt (route_path (http_target r)) = None"
  shows "router_serve_http rt w r s =
    serve_matches w r s (match_path (param_root rt) (route_path (http_target r))) []"
  using assms by (simp add: router_serve_http_def Let_def)

lemma serve_http_static:
  assumes "static_routes rt (route_path (http_target r)) = Some mr"
  shows "router_serve_http rt w r s =
    (case select_handler r mr of Some h \<Rightarrow> h w r s | None \<Rightarrow> (Returned, write_method_not_allowed mr w, s))"
  using assms by (simp add: router_serve_http_def dispatch_method_def Let_def split: option.split)

lemma static_distinct:
  "static_routes (registered regs) p = Some mr \<Longrightarrow> distinct (map fst mr)"
proof -
  have gen: "(\<And>q mr. f q = Some mr \<Longrightarrow> distinct (map fst mr)) \<Longrightarrow>
      fold (\<lambda>(k, v). static_ins k v) es f p = Some mr \<Longrightarrow> distinct (map fst mr)"
    for es and f :: "bytes \<rightharpoonup> 'a method_routes" and mr
  proof (induction es arbitrary: f)
    case (Cons e es)
    obtain q m h where e: "e = ((q, m), h)" by (metis prod.collapse)
    have "distinct (map fst mr')" if "static_ins (q, m) h f q' = Some mr'" for q' mr'
      using that Cons.prems(1) distinct_map_put[of _ m h]
      by (auto simp: static_ins_def distinct_map_put split: if_splits option.splits)
    from Cons.IH[OF this] Cons.prems(2) show ?case by (simp add: e)
  qed simp
  show "static_routes (registered regs) p = Some mr \<Longrightarrow> distinct (map fst mr)"
    using gen[of "\<lambda>_. None" "static_entries regs" mr] by (simp add: registered_def fold_register_parts new_router_def)
qed

text \<open>The loop over the matches of a path, by what is registered for the path.\<close>

lemma pattern_served:
  fixes r :: request
  defines "M \<equiv> to_upper (http_method r)"
  assumes "\<exists>m h b. m \<in> {M, []} \<and> pattern_match regs path m h b"
  shows "\<exists>m h b. m \<in> {M, []} \<and> pattern_match regs path m h b \<and>
    serve_matches w r s (match_path (param_root (registered regs)) path) [] = h w (r\<lparr>req_params := Some b\<rparr>) s"
proof -
  let ?ms = "match_path (param_root (registered regs)) path"
  note pm = match_path_registered[of _ regs path]
  obtain m b mr where "m \<in> {M, []}" "(mr, b) \<in> set ?ms" "map_of mr m \<noteq> None"
    using assms(2) pm by (metis option.distinct(1))
  then have "\<exists>mr ps h. (mr, ps) \<in> set ?ms \<and> select_handler r mr = Some h"
    using select_handler_iff[of r mr] unfolding M_def by (metis insert_iff not_None_eq singletonD)
  then obtain mr ps h where f: "(mr, ps) \<in> set ?ms" "select_handler r mr = Some h"
    "serve_matches w r s ?ms [] = h w (r\<lparr>req_params := Some ps\<rparr>) s"
    using serve_matches_found[of ?ms r w s "[]"] by blast
  then obtain m where "m \<in> {M, []}" "map_of mr m = Some h"
    using select_handlerD[OF f(2)] unfolding M_def by blast
  then have "m \<in> {M, []} \<and> pattern_match regs path m h ps" using pm f(1) by blast
  with f(3) show ?thesis by blast
qed

lemma merged_keys_registered:
  "set (map fst (fold (\<lambda>(mr, ps). merge_methods mr) (match_path (param_root (registered regs)) path) [])) =
     {m. \<exists>h b. pattern_match regs path m h b}" (is "set (map fst ?al) = _")
proof -
  let ?ms = "match_path (param_root (registered regs)) path"
  have "m \<in> set (map fst ?al) \<longleftrightarrow> (\<exists>x\<in>set ?ms. m \<in> set (map fst (fst x)))" for m
    unfolding merged_keys by (auto simp: case_prod_beta)
  then have "m \<in> set (map fst ?al) \<longleftrightarrow> (\<exists>mr b h. (mr, b) \<in> set ?ms \<and> map_of mr m = Some h)" for m
    unfolding map_of_keys by (metis fst_conv surj_pair)
  then show ?thesis using match_path_registered[of _ regs path] by blast
qed

lemma pattern_refused:
  fixes r :: request
  assumes "\<nexists>m h b. m \<in> {to_upper (http_method r), []} \<and> pattern_match regs path m h b"
  shows "\<exists>al :: handler method_routes.
    allowed_methods al = join '', '' (sorted_list_of_set ({m. \<exists>h b. pattern_match regs path m h b} - {[]})) \<and>
    serve_matches w r s (match_path (param_root (registered regs)) path) [] =
      (if \<exists>m h b. pattern_match regs path m h b then (Returned, write_method_not_allowed al w, s)
       else (Returned, not_found_reply w, s))"
proof -
  let ?ms = "match_path (param_root (registered regs)) path"
  let ?al = "fold (\<lambda>(mr, ps). merge_methods mr) ?ms []"
  have "\<forall>mr ps. (mr, ps) \<in> set ?ms \<longrightarrow> select_handler r mr = None"
    using assms match_path_registered[of _ regs path] select_handlerD[of r] by (metis not_None_eq)
  then have "serve_matches w r s ?ms [] =
      (if ?al \<noteq> [] then (Returned, write_method_not_allowed ?al w, s) else (Returned, not_found_reply w, s))"
    using serve_matches_refused[of ?ms r w s "[]"] by (simp add: Let_def)
  moreover have "?al \<noteq> [] \<longleftrightarrow> (\<exists>m h b. pattern_match regs path m h b)"
  proof -
    have "?al \<noteq> [] \<longleftrightarrow> set (map fst ?al) \<noteq> {}" by simp
    then show ?thesis unfolding merged_keys_registered by blast
  qed
  moreover have "allowed_methods ?al = join '', '' (sorted_list_of_set ({m. \<exists>h b. pattern_match regs path m h b} - {[]}))"
    using allowed_methods_set[of ?al] merged_distinct[of "[]" ?ms] merged_keys_registered[of regs path] by simp
  ultimately show ?thesis by (intro exI[of _ ?al]) simp
qed

lemma dispatch_by_patterns:
  assumes "\<nexists>m h. ((route_path (http_target r), m), h) \<in> set (static_entries regs)"
  shows "router_serve_http (registered regs) w r s =
    serve_matches w r s (match_path (param_root (registered regs)) (route_path (http_target r))) []"
proof -
  have "static_routes (registered regs) (route_path (http_target r)) = None"
    using assms static_defined[of regs "route_path (http_target r)"] by blast
  then show ?thesis using serve_http_patterns[of "registered regs" r w s] by simp
qed

section \<open>Properties\<close>

text \<open>
  C23. Dispatch by patterns, for a path that is not registered as such: a request is served by the
  handler that was registered last for the pattern and the method (or for any method), for some
  pattern that matches, with the parameters that the pattern binds; if patterns match but none
  has the method, the reply is 405 with the sorted list of all the methods they have; if none
  matches, it is 404.
\<close>

theorem router_serves_patterns:
  assumes "\<nexists>m h. ((route_path (http_target r), m), h) \<in> set (static_entries regs)"
  shows "let path = route_path (http_target r); M = to_upper (http_method r);
      res = router_serve_http (registered regs) w r s
    in if \<exists>m h b. m \<in> {M, []} \<and> pattern_match regs path m h b
       then \<exists>m h b. m \<in> {M, []} \<and> pattern_match regs path m h b \<and> res = h w (r\<lparr>req_params := Some b\<rparr>) s
       else if \<exists>m h b. pattern_match regs path m h b
       then \<exists>mr :: handler method_routes. res = (Returned, write_method_not_allowed mr w, s) \<and>
         allowed_methods mr = join '', '' (sorted_list_of_set ({m. \<exists>h b. pattern_match regs path m h b} - {[]}))
       else res = (Returned, not_found_reply w, s)"
proof -
  let ?path = "route_path (http_target r)" and ?M = "to_upper (http_method r)"
  note res = dispatch_by_patterns[OF assms, of w s]
  show ?thesis
  proof (cases "\<exists>m h b. m \<in> {?M, []} \<and> pattern_match regs ?path m h b")
    case True
    from pattern_served[OF this, of w s] show ?thesis unfolding Let_def if_P[OF True] res .
  next
    case False
    from pattern_refused[OF this, of w s] show ?thesis unfolding Let_def if_not_P[OF False] res
      by (cases "\<exists>m h b. pattern_match regs ?path m h b") auto
  qed
qed

text \<open>A request to exercise the router with, for the witnesses.\<close>

definition get_request :: "bytes \<Rightarrow> request" where
  "get_request target = \<lparr>req_context = None,
     req_http = \<lparr>request_line = \<lparr>rl_method = ''GET'', rl_target = target, rl_version = ''HTTP/1.1''\<rparr>,
       req_headers = [], req_body = []\<rparr>, req_params = None\<rparr>"

theorem router_serves_patterns_witness:
  "\<exists>m h b. m \<in> {''GET'', []} \<and> pattern_match [(''GET'', ''/users/:id'', default_app_handler)] ''/users/42'' m h b \<and>
     router_serve_http (registered [(''GET'', ''/users/:id'', default_app_handler)]) (Buffered new_buffered_writer) (get_request ''/users/42?x'') quiet_world =
       h (Buffered new_buffered_writer) ((get_request ''/users/42?x'')\<lparr>req_params := Some b\<rparr>) quiet_world"
proof -
  let ?regs = "[(''GET'', ''/users/:id'', default_app_handler)]"
  let ?r = "get_request ''/users/42?x''"
  have hp: "has_path_params ''/users/:id''" by code_simp
  have v: "to_upper ''GET'' = ''GET''" "\<not> contains_any ''GET'' [sp, tab, cr, lf]" "has_prefix ''/users/:id'' ''/''"
    by (simp add: to_upper_def ascii_upper_def) (code_simp | simp)+
  have st: "static_entries ?regs = []" by (simp add: static_entries_def hp)
  have p: "route_path (http_target ?r) = ''/users/42''" by code_simp
  have m: "to_upper (http_method ?r) = ''GET''" by (simp add: get_request_def to_upper_def ascii_upper_def)
  have e: "parse_route_segments ''/users/:id'' = Inr [\<lparr>seg_literal = ''users'', seg_param = [], seg_wildcard = []\<rparr>,
      \<lparr>seg_literal = [], seg_param = ''id'', seg_wildcard = []\<rparr>]" by code_simp
  have sp: "split_path ''/users/42'' = [''users'', ''42'']" by code_simp
  have "pattern_entries ?regs = [((''/users/:id'', ''GET''), default_app_handler)]"
    by (simp add: pattern_entries_def valid_registration_def hp v)
  then have "\<exists>h b. pattern_match ?regs ''/users/42'' ''GET'' h b"
    by (simp add: pattern_match_def e sp)
  then have ex: "\<exists>m h b. m \<in> {to_upper (http_method ?r), []} \<and> pattern_match ?regs (route_path (http_target ?r)) m h b"
    unfolding p m by blast
  have "\<nexists>m h. ((route_path (http_target ?r), m), h) \<in> set (static_entries ?regs)" by (simp add: st)
  from router_serves_patterns[OF this, of "Buffered new_buffered_writer" quiet_world] show ?thesis
    unfolding Let_def if_P[OF ex] unfolding p m .
qed

end
