(* ===== verification/Router_Order.thy ===== *)
theory Router_Order
  imports Router_Facts
begin

text \<open>
  In which order the router prefers routes (httpserver/router.go, docs/router.md): static paths
  before patterns, and among patterns the order of the edges in the tree.
\<close>

section \<open>Static paths\<close>

text \<open>A second handler for the witnesses.\<close>

definition redirect_handler :: handler where
  "redirect_handler w r s = (Returned, write_header 301 (set_header ''Location'' ''/'' w), s)"

text \<open>
  A path that is registered as such is served by its own table alone: by the handler
  registered last for the method, else by the one registered last for any method, else with 405
  and the sorted methods of the path. No pattern is tried, even if one has the method.
\<close>

theorem router_serves_static:
  assumes "((route_path (http_target r), m0), h0) \<in> set (static_entries regs)"
  shows "let path = route_path (http_target r);
      at = (\<lambda>m. map_of (rev (static_entries regs)) (path, m));
      res = router_serve_http (registered regs) w r s
    in case at (to_upper (http_method r)) of
         Some h \<Rightarrow> res = h w r s
       | None \<Rightarrow> (case at [] of
           Some h \<Rightarrow> res = h w r s
         | None \<Rightarrow> \<exists>mr :: handler method_routes. res = (Returned, write_method_not_allowed mr w, s) \<and>
             allowed_methods mr = join '', '' (sorted_list_of_set {m. \<exists>h. at m = Some h}))"
proof -
  define path where "path = route_path (http_target r)"
  obtain mr where mr: "static_routes (registered regs) path = Some mr"
    using assms static_defined[of regs path] unfolding path_def by auto
  have at: "map_of (rev (static_entries regs)) (path, m) = map_of mr m" for m
    using static_registered[of regs path m] mr by (cases "map_of mr m"; cases "map_of (rev (static_entries regs)) (path, m)") auto
  have res: "router_serve_http (registered regs) w r s =
      (case select_handler r mr of Some h \<Rightarrow> h w r s | None \<Rightarrow> (Returned, write_method_not_allowed mr w, s))"
    using serve_http_static mr unfolding path_def by blast
  have keys: "set (map fst mr) = {m. \<exists>h. map_of mr m = Some h}"
    using map_of_keys[of _ mr] by blast
  have "allowed_methods mr = join '', '' (sorted_list_of_set {m. \<exists>h. map_of mr m = Some h})"
    if "map_of mr [] = None"
  proof -
    have "{m. \<exists>h. map_of mr m = Some h} - {[]} = {m. \<exists>h. map_of mr m = Some h}" using that by auto
    with allowed_methods_set[of mr] static_distinct[OF mr] keys show ?thesis by simp
  qed
  then show ?thesis
    unfolding Let_def path_def[symmetric] at res
    by (auto simp: select_handler_def any_method_def split: option.split)
qed

theorem router_serves_static_witness:
  "router_serve_http (registered [(''GET'', ''/:page'', redirect_handler), (''GET'', ''/health'', default_app_handler)]) (Buffered new_buffered_writer)
     (get_request ''/health'') quiet_world = default_app_handler (Buffered new_buffered_writer) (get_request ''/health'') quiet_world"
proof -
  let ?regs = "[(''GET'', ''/:page'', redirect_handler), (''GET'', ''/health'', default_app_handler)]"
  let ?r = "get_request ''/health''"
  have hp: "has_path_params ''/:page''" "\<not> has_path_params ''/health''" by code_simp+
  have v: "to_upper ''GET'' = ''GET''" "\<not> contains_any ''GET'' [sp, tab, cr, lf]" "has_prefix ''/health'' ''/''"
    by (simp add: to_upper_def ascii_upper_def) (code_simp | simp)+
  have p: "route_path (http_target ?r) = ''/health''" by code_simp
  have st: "static_entries ?regs = [((''/health'', ''GET''), default_app_handler)]"
    by (simp add: static_entries_def valid_registration_def hp v)
  have m: "to_upper (http_method ?r) = ''GET''" by (simp add: get_request_def v)
  have "((route_path (http_target ?r), ''GET''), default_app_handler) \<in> set (static_entries ?regs)"
    by (simp add: p st)
  from router_serves_static[OF this, of "Buffered new_buffered_writer" quiet_world] show ?thesis
    by (simp add: p m st Let_def)
qed

section \<open>The order of the tree\<close>

text \<open>
  A trail outranks another if at the first edge where they differ its edge is of a more
  specific kind: literal before parameter before wildcard.
\<close>

datatype edge_kind = LiteralEdge | ParamEdge | WildcardEdge

fun kind_level :: "edge_kind \<Rightarrow> nat" where
  "kind_level LiteralEdge = 0"
| "kind_level ParamEdge = 1"
| "kind_level WildcardEdge = 2"

instantiation edge_kind :: linorder
begin

definition less_eq_edge_kind :: "edge_kind \<Rightarrow> edge_kind \<Rightarrow> bool" where
  "less_eq_edge_kind a b \<longleftrightarrow> kind_level a \<le> kind_level b"

definition less_edge_kind :: "edge_kind \<Rightarrow> edge_kind \<Rightarrow> bool" where
  "less_edge_kind a b \<longleftrightarrow> kind_level a < kind_level b"

instance
proof
  fix a b :: edge_kind
  show "a \<le> b \<Longrightarrow> b \<le> a \<Longrightarrow> a = b"
    by (cases a; cases b) (auto simp: less_eq_edge_kind_def)
qed (auto simp: less_eq_edge_kind_def less_edge_kind_def)

end

definition edge_rank :: "route_segment \<Rightarrow> edge_kind" where
  "edge_rank e = (if seg_literal e \<noteq> [] then LiteralEdge else if seg_param e \<noteq> [] then ParamEdge else WildcardEdge)"

lemma edge_kind_less [simp]:
  "LiteralEdge < ParamEdge" "LiteralEdge < WildcardEdge" "ParamEdge < WildcardEdge"
  "\<not> ParamEdge < LiteralEdge" "\<not> WildcardEdge < LiteralEdge" "\<not> WildcardEdge < ParamEdge"
  by (simp_all add: less_edge_kind_def)

fun outranks :: "route_segment list \<Rightarrow> route_segment list \<Rightarrow> bool" where
  "outranks (x # xs) (y # ys) \<longleftrightarrow> (if x = y then outranks xs ys else edge_rank x < edge_rank y)"
| "outranks _ _ \<longleftrightarrow> False"

lemma outranks_irrefl [simp]: "\<not> outranks xs xs"
  by (induction xs) auto

abbreviation in_order :: "'h trail_match list \<Rightarrow> bool" where
  "in_order xs \<equiv> sorted_wrt (\<lambda>x y. \<not> outranks (fst y) (fst x)) xs"

lemma in_order_edge: "in_order xs \<Longrightarrow> in_order (map (apfst ((#) e)) xs)"
  by (auto simp: sorted_wrt_map elim: sorted_wrt_mono_rel[rotated])

lemma in_order_append:
  "in_order (xs @ ys) \<longleftrightarrow> in_order xs \<and> in_order ys \<and> (\<forall>x\<in>set xs. \<forall>y\<in>set ys. \<not> outranks (fst y) (fst x))"
  by (simp add: sorted_wrt_append)

lemma edge_head:
  "x \<in> set (concat (map (\<lambda>(name, c). map (apfst ((#) (e name))) (F name c)) es)) \<Longrightarrow>
     \<exists>k t. k \<in> fst ` set es \<and> fst x = e k # t"
proof (induction es)
  case (Cons y es)
  obtain k c where "y = (k, c)" by (cases y)
  with Cons show ?case by auto
qed simp

text \<open>The matches below edges of one kind, whose names are distinct.\<close>

lemma in_order_edges:
  assumes "distinct (map fst es)" "\<And>name c. (name, c) \<in> set es \<Longrightarrow> in_order (F name c)"
    "\<And>x. x \<in> set (map fst es) \<Longrightarrow> edge_rank (e x) = k" "inj e"
  shows "in_order (concat (map (\<lambda>(name, c). map (apfst ((#) (e name))) (F name c)) es))"
  using assms(1-3)
proof (induction es)
  case (Cons x es)
  obtain name c where x: "x = (name, c)" by (cases x)
  have "\<not> outranks (fst b) (fst a)"
    if "a \<in> set (map (apfst ((#) (e name))) (F name c))"
      "b \<in> set (concat (map (\<lambda>(name, c). map (apfst ((#) (e name))) (F name c)) es))" for a b
  proof -
    note elems = that
    obtain name' c' where y: "(name', c') \<in> set es" "fst b \<in> range ((#) (e name'))"
      using elems(2) by (force split: prod.splits)
    then have "name' \<in> set (map fst (x # es))" "name \<in> set (map fst (x # es))" "name' \<noteq> name"
      using Cons.prems(1) x by (force+)
    then have "edge_rank (e name') = edge_rank (e name)" "e name' \<noteq> e name"
      using Cons.prems(3) assms(4) by (auto dest: injD)
    then show ?thesis using elems(1) y(2) by auto
  qed
  with Cons.IH Cons.prems x show ?case by (auto simp: in_order_append intro!: in_order_edge)
qed simp

text \<open>A sequence of three groups is in order when the heads of the groups are of the three kinds.\<close>

lemma in_order_groups:
  assumes "in_order xs" "in_order ys" "in_order zs"
    and x: "\<And>x. x \<in> set xs \<Longrightarrow> \<exists>e t. fst x = e # t \<and> edge_rank e = LiteralEdge"
    and y: "\<And>y. y \<in> set ys \<Longrightarrow> \<exists>e t. fst y = e # t \<and> edge_rank e = ParamEdge"
    and z: "\<And>z. z \<in> set zs \<Longrightarrow> \<exists>e t. fst z = e # t \<and> edge_rank e = WildcardEdge"
  shows "in_order (xs @ ys @ zs)"
proof -
  have later: "\<not> outranks (e' # t') (e # t)" if "edge_rank e < edge_rank e'" for e e' t t'
    using that by (cases "e' = e") auto
  have "\<not> outranks (fst b) (fst a)" if "a \<in> set xs" "b \<in> set ys \<union> set zs" for a b
    using x[OF that(1)] y[of b] z[of b] that(2) later by (fastforce simp: less_edge_kind_def)
  moreover have "\<not> outranks (fst b) (fst a)" if "a \<in> set ys" "b \<in> set zs" for a b
    using y[OF that(1)] z[OF that(2)] later by (fastforce simp: less_edge_kind_def)
  ultimately show ?thesis using assms(1-3) by (auto simp: in_order_append)
qed

lemma found_in_order: "tree_ok n \<Longrightarrow> in_order (found n path ps)"
proof (induction n path ps rule: found.induct)
  case (1 rs ls ps ws params)
  have ok: "edges_ok ws" "\<forall>c\<in>set (map snd ws). tree_ok c" using 1(2) by (simp_all add: tree_ok_node)
  have "in_order (found c [] (params(name \<mapsto> [])))" if "(name, c) \<in> set ws" for name c
    using 1(1)[of "(name, c)" name c] ok(2) that by (force simp: fun_upd_def)
  then have "in_order (concat (map (\<lambda>(name, c). map (apfst ((#) (wild_edge name))) (found c [] (params(name \<mapsto> [])))) ws))"
    using ok(1) by (intro in_order_edges[where k = WildcardEdge]) (auto simp: edges_ok_def edge_rank_def inj_def)
  then show ?case by (auto simp: in_order_append sorted_wrt_map sorted_wrt_true)
next
  case (2 rs ls qs ws seg rest params)
  have ok: "edges_ok ls" "edges_ok qs" "edges_ok ws" "\<forall>c\<in>set (map snd ls). tree_ok c"
    "\<forall>c\<in>set (map snd qs). tree_ok c" "\<forall>c\<in>set (map snd ws). tree_ok c"
    using 2(4) by (simp_all add: tree_ok_node)
  have lits: "in_order (case map_of ls seg of None \<Rightarrow> [] | Some c \<Rightarrow> map (apfst ((#) (lit_edge seg))) (found c rest params))"
  proof (cases "map_of ls seg")
    case (Some c)
    then have "tree_ok c" using ok(4) map_of_SomeD by fastforce
    with 2(1)[OF Some] Some show ?thesis by (simp add: in_order_edge)
  qed simp
  have below: "(name, c) \<in> set qs \<Longrightarrow> in_order (found c rest (params(name \<mapsto> seg)))"
      "(name, c) \<in> set ws \<Longrightarrow> in_order (found c [] (params(name \<mapsto> join ''/'' (seg # rest))))" for name c
    using 2(2)[of "(name, c)" name c] 2(3)[of "(name, c)" name c] ok(5, 6) by (force simp: fun_upd_def)+
  show ?case
    unfolding found.simps(2)
  proof (rule in_order_groups[OF lits])
    show "in_order (concat (map (\<lambda>(name, c). map (apfst ((#) (param_edge name))) (found c rest (params(name \<mapsto> seg)))) qs))"
      by (rule in_order_edges[where k = ParamEdge]) (use ok(2) below in \<open>force simp: edges_ok_def edge_rank_def inj_def\<close>)+
    show "in_order (concat (map (\<lambda>(name, c). map (apfst ((#) (wild_edge name)))
        (found c [] (params(name \<mapsto> join ''/'' (seg # rest))))) ws))"
      by (rule in_order_edges[where k = WildcardEdge]) (use ok(3) below in \<open>auto simp: edges_ok_def edge_rank_def inj_def\<close>)
  next
    fix x assume "x \<in> set (case map_of ls seg of None \<Rightarrow> [] | Some c \<Rightarrow> map (apfst ((#) (lit_edge seg))) (found c rest params))"
    then show "\<exists>e t. fst x = e # t \<and> edge_rank e = LiteralEdge"
      using ok(1) by (force simp: edges_ok_def edge_rank_def dest: map_of_SomeD split: option.splits)
  next
    fix x assume "x \<in> set (concat (map (\<lambda>(name, c). map (apfst ((#) (param_edge name))) (found c rest (params(name \<mapsto> seg)))) qs))"
    from edge_head[OF this] show "\<exists>e t. fst x = e # t \<and> edge_rank e = ParamEdge"
      using ok(2) by (force simp: edges_ok_def edge_rank_def)
  next
    fix x assume "x \<in> set (concat (map (\<lambda>(name, c). map (apfst ((#) (wild_edge name)))
        (found c [] (params(name \<mapsto> join ''/'' (seg # rest))))) ws))"
    from edge_head[OF this] show "\<exists>e t. fst x = e # t \<and> edge_rank e = WildcardEdge"
      by (force simp: edge_rank_def)
  qed
qed

section \<open>The pattern that is served\<close>

definition matching :: "'h registration list \<Rightarrow> bytes \<Rightarrow> bytes \<Rightarrow> bytes \<Rightarrow> 'h \<Rightarrow> route_params \<Rightarrow> bool" where
  "matching regs path m pat h b \<longleftrightarrow> (\<exists>ss. map_of (rev (pattern_entries regs)) (pat, m) = Some h \<and>
     parse_route_segments pat = Inr ss \<and> bind_segments ss (split_path path) (\<lambda>_. None) = Some b)"

definition pattern_trail :: "bytes \<Rightarrow> route_segment list" where
  "pattern_trail pat = (case parse_route_segments pat of Inl e \<Rightarrow> [] | Inr ss \<Rightarrow> trail ss)"

lemma matching_found:
  "matching regs path m pat h b \<longleftrightarrow>
     (\<exists>q. (pattern_trail pat, q, b) \<in> set (found (param_root (registered regs)) (split_path path) (\<lambda>_. None)) \<and>
       pr_pattern q = pat \<and> map_of (pr_methods q) m = Some h)" (is "?L \<longleftrightarrow> ?R")
proof -
  let ?n = "param_root (registered regs)"
  have inv: "tree_inv ?n"
    using tree.inv_fold[OF tree.inv_empty] by (simp add: registered_def fold_register_parts new_router_def)
  have "?L \<longleftrightarrow> tree_ent (split_path path) ?n (pat, m) h b"
    using tree.ent_registered[of "split_path path" "pattern_entries regs" "(pat, m)" h b]
    by (simp add: matching_def registered_def fold_register_parts new_router_def tree_binds_def)
  also have "\<dots> \<longleftrightarrow> (\<exists>tr. offers ?n (split_path path) (\<lambda>_. None) tr pat m h b)" by (simp add: tree_ent_def)
  also have "\<dots> \<longleftrightarrow> offers ?n (split_path path) (\<lambda>_. None) (pattern_trail pat) pat m h b"
    using inv unfolding tree_inv_def pattern_trail_def by (metis sum.case(2))
  finally show ?thesis by (simp add: offers_def)
qed

lemma serve_matches_first:
  "\<forall>x\<in>set pre. select_handler r (fst x) = None \<Longrightarrow> select_handler r mr = Some h \<Longrightarrow>
     serve_matches w r s (pre @ (mr, ps) # post) allowed = h w (r\<lparr>req_params := Some ps\<rparr>) s"
  by (induction pre arbitrary: allowed) (auto simp: dispatch_method_def split: prod.splits)

text \<open>The matches of a path in the order of the search, and which of them have the method.\<close>

abbreviation path_found :: "(bytes \<times> bytes \<times> handler) list \<Rightarrow> bytes \<Rightarrow>
    (route_segment list \<times> handler param_route \<times> route_params) list" where
  "path_found regs path \<equiv> found (param_root (registered regs)) (split_path path) (\<lambda>_. None)"

definition usable :: "request \<Rightarrow> 'a \<times> 'h param_route \<times> 'b \<Rightarrow> bool" where
  "usable r x \<longleftrightarrow> select_handler r (pr_methods (fst (snd x))) \<noteq> None"

lemma usableI:
  "m \<in> {to_upper (http_method r), []} \<Longrightarrow> map_of (pr_methods q) m = Some h \<Longrightarrow> usable r (tr, q, b)"
  using select_handler_iff[of r "pr_methods q"] unfolding usable_def
  by (metis fst_conv insert_iff option.distinct(1) singletonD snd_conv)

lemma registered_tree: "tree_inv (param_root (registered regs))"
  using tree.inv_fold[OF tree.inv_empty] by (simp add: registered_def fold_register_parts new_router_def)

lemma found_trail:
  assumes "(tr, q, b) \<in> set (path_found regs path)" "map_of (pr_methods q) m = Some h"
  shows "tr = pattern_trail (pr_pattern q)" and "matching regs path m (pr_pattern q) h b"
proof -
  have "offers (param_root (registered regs)) (split_path path) (\<lambda>_. None) tr (pr_pattern q) m h b"
    using assms unfolding offers_def by auto
  then obtain ss where "parse_route_segments (pr_pattern q) = Inr ss" "tr = trail ss"
    using registered_tree[of regs] unfolding tree_inv_def by blast
  then show tr: "tr = pattern_trail (pr_pattern q)" by (simp add: pattern_trail_def)
  show "matching regs path m (pr_pattern q) h b"
    using assms unfolding matching_found tr by auto
qed

lemma first_usable_served:
  assumes "\<nexists>m h. ((route_path (http_target r), m), h) \<in> set (static_entries regs)"
    and "path_found regs (route_path (http_target r)) = pre @ (tr, q, b) # post" "\<forall>y\<in>set pre. \<not> usable r y"
    and "select_handler r (pr_methods q) = Some h"
  shows "router_serve_http (registered regs) w r s = h w (r\<lparr>req_params := Some b\<rparr>) s"
  unfolding dispatch_by_patterns[OF assms(1)] match_path_def match_segments_found assms(2) map_append list.map prod.case
  using assms(3, 4) by (intro serve_matches_first) (auto simp: usable_def split: prod.splits)

lemma first_usable_best:
  assumes "path_found regs path = pre @ (pattern_trail pat, q, b) # post" "\<forall>y\<in>set pre. \<not> usable r y"
    and "m' \<in> {to_upper (http_method r), []}" "matching regs path m' pat' h' b'"
  shows "\<not> outranks (pattern_trail pat') (pattern_trail pat)"
proof -
  obtain q' where q': "(pattern_trail pat', q', b') \<in> set (path_found regs path)" "map_of (pr_methods q') m' = Some h'"
    using assms(4) unfolding matching_found by blast
  have "usable r (pattern_trail pat', q', b')" using assms(3) q'(2) by (rule usableI)
  then have "(pattern_trail pat', q', b') \<notin> set pre" using assms(2) by blast
  then have "(pattern_trail pat', q', b') \<in> set ((pattern_trail pat, q, b) # post)"
    using q'(1) unfolding assms(1) by auto
  moreover have "in_order ((pattern_trail pat, q, b) # post)"
    using found_in_order[of "param_root (registered regs)"] registered_tree[of regs] assms(1) unfolding tree_inv_def
    by (metis in_order_append)
  ultimately show ?thesis by auto
qed

text \<open>
  C24. Priority of patterns: among the patterns that match the path and have the method (or any
  method), none outranks the one that is served: at the first edge where the two differ, the
  served one does not have the less specific kind.
\<close>

theorem router_prefers_specific:
  assumes "\<nexists>m h. ((route_path (http_target r), m), h) \<in> set (static_entries regs)"
    and "m0 \<in> {to_upper (http_method r), []}" "matching regs (route_path (http_target r)) m0 pat0 h0 b0"
  shows "\<exists>m pat h b. m \<in> {to_upper (http_method r), []} \<and> matching regs (route_path (http_target r)) m pat h b \<and>
    router_serve_http (registered regs) w r s = h w (r\<lparr>req_params := Some b\<rparr>) s \<and>
    (\<forall>m' pat' h' b'. m' \<in> {to_upper (http_method r), []} \<and> matching regs (route_path (http_target r)) m' pat' h' b' \<longrightarrow>
       \<not> outranks (pattern_trail pat') (pattern_trail pat))"
proof -
  let ?path = "route_path (http_target r)"
  obtain q0 where q0: "(pattern_trail pat0, q0, b0) \<in> set (path_found regs ?path)" "map_of (pr_methods q0) m0 = Some h0"
    using assms(3) unfolding matching_found by blast
  have "usable r (pattern_trail pat0, q0, b0)" using assms(2) q0(2) by (rule usableI)
  then have "\<exists>x\<in>set (path_found regs ?path). usable r x" using q0(1) by (rule bexI)
  then obtain pre x post where sp: "path_found regs ?path = pre @ x # post" "usable r x" "\<forall>y\<in>set pre. \<not> usable r y"
    using split_list_first_prop[of "path_found regs ?path" "usable r"] by blast
  obtain tr q b where x: "x = (tr, q, b)" by (cases x)
  then obtain h where h: "select_handler r (pr_methods q) = Some h" using sp(2) by (auto simp: usable_def)
  then obtain m where m: "m \<in> {to_upper (http_method r), []}" "map_of (pr_methods q) m = Some h"
    using select_handlerD[OF h] by blast
  have "(tr, q, b) \<in> set (path_found regs ?path)" using sp(1) x by simp
  note found = found_trail[OF this m(2)]
  have served: "router_serve_http (registered regs) w r s = h w (r\<lparr>req_params := Some b\<rparr>) s"
    using assms(1) sp(1)[unfolded x] sp(3) h by (rule first_usable_served)
  have best: "\<not> outranks (pattern_trail pat') (pattern_trail (pr_pattern q))"
    if "m' \<in> {to_upper (http_method r), []}" "matching regs ?path m' pat' h' b'" for m' pat' h' b'
    using sp(1)[unfolded x found(1)] sp(3) that by (rule first_usable_best)
  show ?thesis
  proof (rule exI[of _ m], rule exI[of _ "pr_pattern q"], rule exI[of _ h], rule exI[of _ b], intro conjI)
    show "m \<in> {to_upper (http_method r), []}" by (rule m(1))
    show "matching regs ?path m (pr_pattern q) h b" by (rule found(2))
    show "router_serve_http (registered regs) w r s = h w (r\<lparr>req_params := Some b\<rparr>) s" by (rule served)
    show "\<forall>m' pat' h' b'. m' \<in> {to_upper (http_method r), []} \<and> matching regs ?path m' pat' h' b' \<longrightarrow>
        \<not> outranks (pattern_trail pat') (pattern_trail (pr_pattern q))"
      using best by metis
  qed
qed

lemma registered_parts:
  "param_root (registered regs) = fold (\<lambda>(k, v). tree_ins k v) (pattern_entries regs) empty_node"
  "static_routes (registered regs) = fold (\<lambda>(k, v). static_ins k v) (static_entries regs) (\<lambda>_. None)"
  by (simp_all add: registered_def fold_register_parts new_router_def)

text \<open>The routes of two parameter patterns, one of them more specific for \<open>/users/42/books\<close>.\<close>

lemma get_facts: "to_upper ''GET'' = ''GET''" "\<not> contains_any ''GET'' [sp, tab, cr, lf]"
  by (simp add: to_upper_def ascii_upper_def, code_simp)

lemma two_pattern_entries:
  assumes "has_path_params p1" "has_prefix p1 ''/''" "has_path_params p2" "has_prefix p2 ''/''"
  shows "pattern_entries [(''GET'', p1, h1), (''GET'', p2, h2)] = [((p1, ''GET''), h1), ((p2, ''GET''), h2)]"
    and "static_entries [(''GET'', p1, h1), (''GET'', p2, h2)] = []"
  by (simp_all add: pattern_entries_def static_entries_def valid_registration_def get_facts assms)

lemma user_patterns:
  "has_path_params ''/users/:id/:section''" "has_prefix ''/users/:id/:section'' ''/''"
  "has_path_params ''/users/:id/books''" "has_prefix ''/users/:id/books'' ''/''"
  "has_path_params ''/users/:uid/books''" "has_prefix ''/users/:uid/books'' ''/''"
  by code_simp+

lemma books_request: "route_path (http_target (get_request ''/users/42/books'')) = ''/users/42/books''"
  "to_upper (http_method (get_request ''/users/42/books'')) = ''GET''"
  by code_simp (simp add: get_request_def get_facts)

theorem router_prefers_specific_witness:
  "\<exists>b. router_serve_http (registered [(''GET'', ''/users/:id/:section'', default_app_handler),
       (''GET'', ''/users/:id/books'', redirect_handler)]) (Buffered new_buffered_writer) (get_request ''/users/42/books'') quiet_world =
     redirect_handler (Buffered new_buffered_writer) ((get_request ''/users/42/books'')\<lparr>req_params := Some b\<rparr>) quiet_world"
proof -
  let ?regs = "[(''GET'', ''/users/:id/:section'', default_app_handler), (''GET'', ''/users/:id/books'', redirect_handler)]"
  let ?r = "get_request ''/users/42/books''"
  note entries = two_pattern_entries[OF user_patterns(1-4), of default_app_handler redirect_handler]
  have st: "\<nexists>m h. ((route_path (http_target ?r), m), h) \<in> set (static_entries ?regs)" by (simp add: entries)
  have e: "parse_route_segments ''/users/:id/books'' = Inr [lit_edge ''users'', param_edge ''id'', lit_edge ''books'']"
    "parse_route_segments ''/users/:id/:section'' = Inr [lit_edge ''users'', param_edge ''id'', param_edge ''section'']"
    "split_path ''/users/42/books'' = [''users'', ''42'', ''books'']" by code_simp+
  have any: "matching ?regs ''/users/42/books'' m pat h b \<Longrightarrow> pat = ''/users/:id/:section'' \<and> h = default_app_handler \<or>
      pat = ''/users/:id/books'' \<and> h = redirect_handler" for m pat h b
    by (auto simp: matching_def entries split: if_splits)
  have "\<exists>b. matching ?regs ''/users/42/books'' ''GET'' ''/users/:id/books'' redirect_handler b"
    by (simp add: matching_def entries e)
  then obtain b0 where here: "matching ?regs (route_path (http_target ?r)) ''GET'' ''/users/:id/books'' redirect_handler b0"
    unfolding books_request by blast
  have mem: "''GET'' \<in> {to_upper (http_method ?r), []}" by (simp add: books_request)
  obtain m pat h b where served: "matching ?regs ''/users/42/books'' m pat h b"
      "router_serve_http (registered ?regs) (Buffered new_buffered_writer) ?r quiet_world = h (Buffered new_buffered_writer) (?r\<lparr>req_params := Some b\<rparr>) quiet_world"
      "\<not> outranks (pattern_trail ''/users/:id/books'') (pattern_trail pat)"
    using router_prefers_specific[OF st mem here, of "Buffered new_buffered_writer" quiet_world] here mem unfolding books_request by blast
  have "outranks (pattern_trail ''/users/:id/books'') (pattern_trail ''/users/:id/:section'')"
    by (simp add: pattern_trail_def e edge_rank_def)
  with any[OF served(1)] served(2, 3) show ?thesis by blast
qed

section \<open>Where the documented priority does not hold\<close>

text \<open>
  C25. The documentation promises that a literal segment beats a parameter whatever the order of
  registration. It does not when the parameters before it have different names: the tree has
  one branch per name, and the branch that was registered first is searched to the end first.
\<close>

theorem param_names_split_the_tree:
  "\<exists>b. router_serve_http (registered [(''GET'', ''/users/:id/:section'', generic), (''GET'', ''/users/:uid/books'', specific)])
     w (get_request ''/users/42/books'') s = generic w ((get_request ''/users/42/books'')\<lparr>req_params := Some b\<rparr>) s"
proof -
  let ?regs = "[(''GET'', ''/users/:id/:section'', generic), (''GET'', ''/users/:uid/books'', specific)]"
  let ?r = "get_request ''/users/42/books''"
  note entries = two_pattern_entries[OF user_patterns(1, 2, 5, 6), of generic specific]
  have e: "parse_route_segments ''/users/:uid/books'' = Inr [lit_edge ''users'', param_edge ''uid'', lit_edge ''books'']"
    "parse_route_segments ''/users/:id/:section'' = Inr [lit_edge ''users'', param_edge ''id'', param_edge ''section'']"
    "split_path ''/users/42/books'' = [''users'', ''42'', ''books'']" by code_simp+
  have root: "param_root (registered ?regs) = tree_ins (''/users/:uid/books'', ''GET'') specific
      (tree_ins (''/users/:id/:section'', ''GET'') generic empty_node)"
    by (simp add: registered_parts entries)
  have ms: "\<exists>b rest. match_path (param_root (registered ?regs)) ''/users/42/books'' = ([(''GET'', generic)], b) # rest"
    unfolding root by (simp add: match_path_def e tree_ins_def insert_route_def empty_node_def terminal_matches_def)
  have "static_routes (registered ?regs) ''/users/42/books'' = None"
    by (simp add: registered_parts entries)
  then have "router_serve_http (registered ?regs) w ?r s =
      serve_matches w ?r s (match_path (param_root (registered ?regs)) ''/users/42/books'') []"
    using serve_http_patterns[of "registered ?regs" ?r w s] by (simp add: books_request)
  with ms show ?thesis by (force simp: dispatch_method_def select_handler_def books_request)
qed

text \<open>
  A pattern with an empty segment is registered as if the segment were not there: it never
  matches a path with that segment, and it takes requests without it.
\<close>

theorem empty_segment_is_dropped:
  "parse_route_segments ''/a//:id'' = Inr [lit_edge ''a'', lit_edge [], param_edge ''id''] \<and>
   match_path (tree_ins (''/a//:id'', ''GET'') h empty_node) ''/a//7'' = [] \<and>
   match_path (tree_ins (''/a//:id'', ''GET'') h empty_node) ''/a/7'' = [([(''GET'', h)], [''id'' \<mapsto> ''7''])]"
proof -
  have e: "parse_route_segments ''/a//:id'' = Inr [lit_edge ''a'', lit_edge [], param_edge ''id'']"
    "split_path ''/a//7'' = [''a'', [], ''7'']" "split_path ''/a/7'' = [''a'', ''7'']" by code_simp+
  show ?thesis
    by (simp add: e match_path_def tree_ins_def insert_route_def empty_node_def terminal_matches_def fun_eq_iff)
qed

end
