(* ===== verification/Handler.thy ===== *)
theory Handler
  imports Router_Order
begin

text \<open>
  The HTTP side of a connection (httpserver/handler.go): \<open>ServeConn\<close> reads requests, runs the
  application behind its middlewares, and writes responses until the connection should close;
  and the configuration of it that the server command builds (cmd/wbsv/main.go).
\<close>

section \<open>Configuration\<close>

record handler_config =
  read_timeout :: int
  write_timeout :: int
  cfg_max_line :: int
  cfg_max_headers :: int
  cfg_max_body :: int
  has_logger :: bool
  app :: "handler option"
  middlewares :: "middleware option list"

definition default_max_line :: int where
  "default_max_line = 8192"

definition default_max_headers :: int where
  "default_max_headers = 100"

definition default_max_body :: int where
  "default_max_body = 1048576"

definition handler_max_line :: "handler_config \<Rightarrow> int" where
  "handler_max_line h = (if 0 < cfg_max_line h then cfg_max_line h else default_max_line)"

definition handler_max_headers :: "handler_config \<Rightarrow> int" where
  "handler_max_headers h = (if 0 < cfg_max_headers h then cfg_max_headers h else default_max_headers)"

definition handler_max_body :: "handler_config \<Rightarrow> int" where
  "handler_max_body h = (if 0 < cfg_max_body h then cfg_max_body h else default_max_body)"

definition handler_logf :: "handler_config \<Rightarrow> log_line \<Rightarrow> world \<Rightarrow> world" where
  "handler_logf h l s = (if has_logger h then log_printf l s else s)"

section \<open>One request\<close>

definition app_handler :: "handler_config \<Rightarrow> world \<Rightarrow> handler \<times> world" where
  "app_handler h s = chain (app h) (middlewares h) s"

definition should_close_connection :: "http_request \<Rightarrow> bool" where
  "should_close_connection req \<longleftrightarrow>
     header_has_token (req_headers req) ''Connection'' ''close'' \<or> rl_version (request_line req) \<noteq> ''HTTP/1.1''"

text \<open>
  The reply to what \<open>ReadRequest\<close> returned, with the decision to close; or the value that the
  application panicked with. The chain is built anew for every request.
\<close>

definition response_for_request ::
  "handler_config \<Rightarrow> req_ctx option \<Rightarrow> http_err + http_request \<Rightarrow> world \<Rightarrow> (bytes + response \<times> bool) \<times> world" where
  "response_for_request h ctx res s =
     (case res of
        Inl err \<Rightarrow>
          let s1 = handler_logf h (ParseErrorLine err) s in
          if err = ErrIO IoTimeout then (Inr (error_response 408 ''request timeout'', True), s1)
          else if err = ErrBodyTooLarge then (Inr (error_response 413 ''content too large'', True), s1)
          else if err = ErrUnsupportedTransferEncoding
            then (Inr (error_response 501 ''transfer encoding is not implemented'', True), s1)
          else (Inr (error_response 400 ''bad request'', True), s1)
      | Inr req \<Rightarrow>
          let closeAfterResponse = should_close_connection req in
          (case app_handler h s of (hd', s1) \<Rightarrow>
          (case hd' (Buffered new_buffered_writer) \<lparr>req_context = ctx, req_http = req, req_params = None\<rparr> s1 of
             (Returned, w, s2) \<Rightarrow> (Inr (buffered_response (buffer_of w), closeAfterResponse), s2)
           | (Panicked v, w, s2) \<Rightarrow> (Inl v, s2))))"

section \<open>A connection\<close>

text \<open>
  A connection is what it delivers, what it accepts, and the results of the calls that set a
  deadline, which fail on a connection that was closed in the meantime; calls beyond the list
  succeed. Waiting for a deadline is part of what the source delivers: it ends in a timeout.
\<close>

record conn =
  conn_in :: line_reader
  conn_out :: sink
  deadline_results :: "bool list"

definition open_conn :: "handler_config \<Rightarrow> byte_source \<Rightarrow> sink \<Rightarrow> bool list \<Rightarrow> conn" where
  "open_conn h src out ds =
     \<lparr>conn_in = new_line_reader src (handler_max_line h), conn_out = out, deadline_results = ds\<rparr>"

definition set_deadline :: "int \<Rightarrow> conn \<Rightarrow> world \<Rightarrow> bool \<times> conn \<times> world" where
  "set_deadline timeout c s =
     (if 0 < timeout then
        (case time_now s of (_, s1) \<Rightarrow>
           case deadline_results c of
             [] \<Rightarrow> (True, c, s1)
           | ok # ds \<Rightarrow> (ok, c\<lparr>deadline_results := ds\<rparr>, s1))
      else (True, c, s))"

datatype conn_result = ConnDone | ConnPanicked bytes

definition close_header :: header_field where
  "close_header = HeaderField ''Connection'' ''close''"

text \<open>One turn of the loop of \<open>ServeConn\<close>: it ends the connection (\<open>Inl\<close>) or goes on (\<open>Inr\<close>).\<close>

definition serve_turn ::
  "handler_config \<Rightarrow> req_ctx option \<Rightarrow> conn \<Rightarrow> world \<Rightarrow> (conn_result \<times> conn \<times> world + conn \<times> world) option" where
  "serve_turn h ctx c s =
     (case set_deadline (read_timeout h) c s of (ok1, c1, s1) \<Rightarrow>
      if \<not> ok1 then Some (Inl (ConnDone, c1, handler_logf h ReadDeadlineLine s1))
      else
        (case read_http_request \<lparr>max_headers = handler_max_headers h, max_body = handler_max_body h\<rparr> (conn_in c1) of
           None \<Rightarrow> None
         | Some (res, rd) \<Rightarrow>
             let c2 = c1\<lparr>conn_in := rd\<rparr> in
             (case response_for_request h ctx res (handler_logf h WaitingLine s1) of
                (Inl v, s2) \<Rightarrow> Some (Inl (ConnPanicked v, c2, s2))
              | (Inr (resp0, closeAfterResponse), s2) \<Rightarrow>
                  let resp = (if closeAfterResponse
                              then resp0\<lparr>resp_headers := resp_headers resp0 @ [close_header]\<rparr> else resp0) in
                  (case set_deadline (write_timeout h) c2 s2 of (ok2, c3, s3) \<Rightarrow>
                   if \<not> ok2 then Some (Inl (ConnDone, c3, handler_logf h WriteDeadlineLine s3))
                   else
                     (case write_response sink_write resp (conn_out c3) of (out, err, closed) \<Rightarrow>
                        let c4 = c3\<lparr>conn_out := out\<rparr>; s4 = fold close_file closed s3 in
                        (case err of
                           Some e \<Rightarrow> Some (Inl (ConnDone, c4, handler_logf h (WriteErrorLine e) s4))
                         | None \<Rightarrow>
                             let s5 = handler_logf h HandledLine s4 in
                             if closeAfterResponse \<or> resp_status resp = 101 then Some (Inl (ConnDone, c4, s5))
                             else Some (Inr (c4, s5))))))))"

text \<open>The loop has no exit of its own; not returning is \<open>None\<close>.\<close>

partial_function (option) serve_loop ::
  "handler_config \<Rightarrow> req_ctx option \<Rightarrow> conn \<Rightarrow> world \<Rightarrow> (conn_result \<times> conn \<times> world) option" where
  "serve_loop h ctx c s =
     (case serve_turn h ctx c s of
        None \<Rightarrow> None
      | Some (Inl r) \<Rightarrow> Some r
      | Some (Inr (c', s')) \<Rightarrow> serve_loop h ctx c' s')"

definition serve_conn ::
  "handler_config \<Rightarrow> req_ctx option \<Rightarrow> byte_source \<Rightarrow> sink \<Rightarrow> bool list \<Rightarrow> world \<Rightarrow> (conn_result \<times> conn \<times> world) option" where
  "serve_conn h ctx src out ds s = serve_loop h ctx (open_conn h src out ds) s"

section \<open>The server command\<close>

text \<open>The values of the flags of the command.\<close>

record main_flags =
  fl_addr :: bytes
  fl_read_timeout :: int
  fl_write_timeout :: int
  fl_graceful_timeout :: int
  fl_handler_workers :: int
  fl_max_active_conns :: int
  fl_max_line :: int
  fl_max_headers :: int
  fl_max_body :: int
  fl_auth_token :: bytes
  fl_rate_limit :: int
  fl_rate_window :: int
  fl_cors_allow_origin :: bytes
  fl_cors_allow_methods :: bytes
  fl_cors_allow_headers :: bytes
  fl_cors_allow_credentials :: bool
  fl_cors_max_age :: int

definition split_comma_list :: "bytes \<Rightarrow> bytes list" where
  "split_comma_list v = filter (\<lambda>part. part \<noteq> []) (map (\<lambda>part. trim part [sp, tab]) (split_on CHR '','' v))"

definition main_middlewares :: "gzip_writer \<Rightarrow> main_flags \<Rightarrow> middleware option list" where
  "main_middlewares gz f =
     [Some request_id_middleware, Some (logging_middleware True)] @
     (if fl_cors_allow_origin f \<noteq> [] then
        [Some (cors_middleware \<lparr>allow_origins = split_comma_list (fl_cors_allow_origin f),
           allow_methods = split_comma_list (fl_cors_allow_methods f),
           allow_headers = split_comma_list (fl_cors_allow_headers f), expose_headers = [],
           allow_credentials = fl_cors_allow_credentials f, cors_max_age = fl_cors_max_age f\<rparr>)] else []) @
     [Some (gzip_compression_middleware gz 1), Some (recovery_middleware True)] @
     (if fl_auth_token f \<noteq> [] then [Some (bearer_auth_middleware (fl_auth_token f))] else []) @
     (if 0 < fl_rate_limit f
      then [Some (rate_limit_middleware (fl_rate_limit f) (fl_rate_window f))] else [])"

definition main_handler :: "gzip_writer \<Rightarrow> main_flags \<Rightarrow> handler_config" where
  "main_handler gz f = \<lparr>read_timeout = fl_read_timeout f, write_timeout = fl_write_timeout f,
     cfg_max_line = fl_max_line f, cfg_max_headers = fl_max_headers f, cfg_max_body = fl_max_body f,
     has_logger = True, app = None, middlewares = main_middlewares gz f\<rparr>"

end
