(* ===== verification/Handler_Facts.thy ===== *)
theory Handler_Facts
  imports Handler
begin

text \<open>
  What \<open>ServeConn\<close> does on whole connections: it returns, it answers requests in order, it
  refuses what is not a request with one error response, and it does not depend on how the
  input is cut into reads. At the end, the configuration of the server command.
\<close>

section \<open>Writing where nothing fails\<close>

text \<open>A writer that behaves like another one through an embedding of its states.\<close>

locale writer_embedding =
  fixes wr :: "bytes \<Rightarrow> 'w \<Rightarrow> 'w \<times> io_err option"
    and wr' :: "bytes \<Rightarrow> 'v \<Rightarrow> 'v \<times> io_err option"
    and emb :: "'v \<Rightarrow> 'w"
  assumes write_emb: "wr p (emb v) = apfst emb (wr' p v)"
begin

lemma put_emb: "put wr p (emb v) = apfst emb (put wr' p v)"
  by (simp add: put_def write_emb split: prod.split)

lemma and_then_emb:
  "r = apfst emb r' \<Longrightarrow> (\<And>v. k (emb v) = apfst emb (k' v)) \<Longrightarrow> and_then r k = apfst emb (and_then r' k')"
  by (auto simp: and_then_def split: prod.split option.split)

lemma header_field_emb: "write_header_field wr h (emb v) = apfst emb (write_header_field wr' h v)"
  by (simp add: write_header_field_def put_emb)

lemma headers_emb: "write_headers wr c hs (emb v) = apfst emb (write_headers wr' c hs v)"
  by (induction hs arbitrary: v) (auto intro!: and_then_emb header_field_emb)

lemma chunk_emb: "write_chunk wr b (emb v) = apfst emb (write_chunk wr' b v)"
  unfolding write_chunk_def by (intro and_then_emb put_emb)

lemma chunked_reader_emb: "write_chunked_reader wr src (emb v) = apfst emb (write_chunked_reader wr' src v)"
proof (induction "length (src_bytes src)" arbitrary: src v rule: less_induct)
  case less
  obtain got e src' where r: "src_read (32 * 1024) src = (got, e, src')" by (metis prod_cases3)
  have rec: "write_chunked_reader wr src' (emb u) = apfst emb (write_chunked_reader wr' src' u)" if "e = None" for u
    using less.hyps src_read_decreases[of _ src got src'] r that by fastforce
  show ?case
    unfolding write_chunked_reader.simps[of _ src] r prod.case
    by (intro and_then_emb) (auto simp: chunk_emb rec split: option.split)
qed

lemma copy_n_emb: "copy_n wr src n (emb v) = apfst emb (copy_n wr' src n v)"
proof (induction "length (src_bytes src)" arbitrary: src n v rule: less_induct)
  case less
  obtain got e src' where r: "src_read (nat (min n (32 * 1024))) src = (got, e, src')" by (metis prod_cases3)
  show ?case
  proof (cases "n \<le> 0")
    case True
    then show ?thesis by (simp add: copy_n.simps[of _ src n])
  next
    case False
    have rec: "copy_n wr src' j (emb u) = apfst emb (copy_n wr' src' j u)" if "e = None" for u j
      using less.hyps src_read_decreases[of _ src got src'] r that False by fastforce
    show ?thesis
      unfolding copy_n.simps[of _ src n] r prod.case if_not_P[OF False]
      by (intro and_then_emb) (auto simp: put_emb rec split: option.split)
  qed
qed

lemma body_emb:
  "write_fixed_body wr resp (emb v) = apfst emb (write_fixed_body wr' resp v)"
  "write_chunked_body wr resp (emb v) = apfst emb (write_chunked_body wr' resp v)"
  unfolding write_fixed_body_def write_chunked_body_def
  by (auto intro!: and_then_emb simp: copy_n_emb chunked_reader_emb chunk_emb put_emb split: option.split)

lemma message_emb: "write_message wr resp (emb v) = apfst emb (write_message wr' resp v)"
  unfolding write_message_def
  by (auto intro!: and_then_emb put_emb headers_emb header_field_emb body_emb)

end

text \<open>A connection without a limit, seen after it has sent \<open>base\<close>, is the byte buffer.\<close>

definition open_sink :: "bytes \<Rightarrow> bytes \<Rightarrow> sink" where
  "open_sink base u = \<lparr>sink_sent = base @ u, sink_room = None\<rparr>"

interpretation reliable: writer_embedding sink_write buffer_write "open_sink base" for base
  by unfold_locales (simp add: sink_write_def buffer_write_def open_sink_def)

text \<open>The bytes of a response: its head, then the framed payload.\<close>

definition message_bytes :: "response \<Rightarrow> bytes" where
  "message_bytes resp = fst (write_message buffer_write resp [])"

definition closed_handles :: "response \<Rightarrow> nat list" where
  "closed_handles resp = (case resp_closer resp of None \<Rightarrow> [] | Some h \<Rightarrow> [h])"

lemma write_response_reliable:
  assumes "sendable resp" "sink_room out = None"
  shows "write_response sink_write resp out =
    (out\<lparr>sink_sent := sink_sent out @ message_bytes resp\<rparr>, None, closed_handles resp)"
proof -
  have out: "out = open_sink (sink_sent out) []" using assms(2) by (simp add: open_sink_def)
  have checks: "passes_checks resp" using assms(1) by (simp add: sendable_def)
  have "snd (write_message buffer_write resp []) = None"
    using message_buffer[OF checks] assms(1) by auto
  then have m: "write_message buffer_write resp [] = (message_bytes resp, None)"
    by (simp add: message_bytes_def prod_eq_iff)
  have w: "write_message sink_write resp out = (open_sink (sink_sent out) (message_bytes resp), None)"
    by (subst out) (simp add: reliable.message_emb m)
  show ?thesis
    unfolding write_response_checked[OF checks] w prod.case
    using assms(2) by (simp add: open_sink_def closed_handles_def)
qed

lemma message_bytes_head:
  assumes "sendable resp"
  obtains p where "message_bytes resp = head_bytes resp @ p" "payload_framed resp p"
proof -
  have "passes_checks resp" using assms by (simp add: sendable_def)
  from message_buffer[OF this] assms that show ?thesis by (auto simp: message_bytes_def)
qed

section \<open>One turn of the loop\<close>

text \<open>Connections that look the same to the handler, however their bytes arrive.\<close>

definition same_conn :: "conn \<Rightarrow> conn \<Rightarrow> bool" where
  "same_conn c d \<longleftrightarrow> plain_reader (conn_in c) \<and> plain_reader (conn_in d) \<and>
     unread (conn_in c) = unread (conn_in d) \<and> max_line (conn_in c) = max_line (conn_in d) \<and>
     reader_err (conn_in c) = reader_err (conn_in d) \<and> conn_out c = conn_out d \<and>
     deadline_results c = deadline_results d"

abbreviation handler_limits :: "handler_config \<Rightarrow> request_limits" where
  "handler_limits h \<equiv> \<lparr>max_headers = handler_max_headers h, max_body = handler_max_body h\<rparr>"

lemma accepted_shorter: "accepted m lims p req q \<Longrightarrow> length q < length p"
  by (auto simp: accepted_def)

lemma read_same:
  assumes "same_conn c d"
  shows "\<exists>res r r'. read_http_request lims (conn_in c) = Some (res, r) \<and> read_http_request lims (conn_in d) = Some (res, r') \<and>
    same_conn (c\<lparr>conn_in := r\<rparr>) (d\<lparr>conn_in := r'\<rparr>) \<and>
    (\<forall>req. res = Inr req \<longrightarrow> length (unread r) < length (unread (conn_in c)))"
proof -
  have c: "plain_reader (conn_in c)" and d: "plain_reader (conn_in d)" using assms by (simp_all add: same_conn_def)
  from read_http_request_refines[OF c, of lims] read_http_request_refines[OF d, of lims] assms show ?thesis
    by (force simp: same_conn_def flat_read_request_iff dest: accepted_shorter)
qed

lemma set_deadline_same:
  assumes "same_conn c d"
  shows "\<exists>ok c' d' s'. set_deadline t c s = (ok, c', s') \<and> set_deadline t d s = (ok, d', s') \<and> same_conn c' d' \<and>
    conn_in c' = conn_in c \<and> conn_in d' = conn_in d \<and> conn_out c' = conn_out c \<and> conn_out d' = conn_out d"
proof -
  obtain now s1 where "time_now s = (now, s1)" by fastforce
  with assms show ?thesis
    by (cases "0 < t"; cases "deadline_results d") (auto simp: set_deadline_def same_conn_def)
qed

text \<open>The two runs do the same, and a connection that goes on has consumed input.\<close>

fun turns_agree :: "nat \<Rightarrow> (conn_result \<times> conn \<times> world + conn \<times> world) option \<Rightarrow>
    (conn_result \<times> conn \<times> world + conn \<times> world) option \<Rightarrow> bool" where
  "turns_agree n (Some (Inl (r, c, s))) (Some (Inl (r', d, s'))) \<longleftrightarrow> r = r' \<and> s = s' \<and> same_conn c d"
| "turns_agree n (Some (Inr (c, s))) (Some (Inr (d, s'))) \<longleftrightarrow> s = s' \<and> same_conn c d \<and> length (unread (conn_in c)) < n"
| "turns_agree n _ _ \<longleftrightarrow> False"

lemma serve_turn_same:
  assumes same: "same_conn c d"
  shows "turns_agree (length (unread (conn_in c))) (serve_turn h ctx c s) (serve_turn h ctx d s)"
proof -
  obtain ok1 c1 d1 s1 where d: "set_deadline (read_timeout h) c s = (ok1, c1, s1)"
    "set_deadline (read_timeout h) d s = (ok1, d1, s1)" "same_conn c1 d1" "conn_in c1 = conn_in c"
    using set_deadline_same[OF same] by blast
  obtain res r r' where rd: "read_http_request (handler_limits h) (conn_in c1) = Some (res, r)"
    "read_http_request (handler_limits h) (conn_in d1) = Some (res, r')"
    "same_conn (c1\<lparr>conn_in := r\<rparr>) (d1\<lparr>conn_in := r'\<rparr>)"
    and less: "\<And>req. res = Inr req \<Longrightarrow> length (unread r) < length (unread (conn_in c1))"
    using read_same[OF d(3)] by metis
  obtain x s2 where x: "response_for_request h ctx res (handler_logf h WaitingLine s1) = (x, s2)" by fastforce
  note turn = serve_turn_def[of h ctx] d(1,2) rd(1,2) x
  show ?thesis
  proof (cases x)
    case (Inl v)
    with rd(3) d(3) show ?thesis by (simp add: turn Let_def)
  next
    case (Inr y)
    obtain resp0 cl where y: "y = (resp0, cl)" by fastforce
    define resp where "resp = (if cl then resp0\<lparr>resp_headers := resp_headers resp0 @ [close_header]\<rparr> else resp0)"
    obtain ok2 c3 d3 s3 where d3: "set_deadline (write_timeout h) (c1\<lparr>conn_in := r\<rparr>) s2 = (ok2, c3, s3)"
      "set_deadline (write_timeout h) (d1\<lparr>conn_in := r'\<rparr>) s2 = (ok2, d3, s3)" "same_conn c3 d3" "conn_in c3 = r" "conn_out c3 = conn_out d3"
      using set_deadline_same[OF rd(3), of "write_timeout h" s2] by (auto simp: same_conn_def)
    obtain out err closed where w: "write_response sink_write resp (conn_out d3) = (out, err, closed)" by (metis prod_cases3)
    have s4: "same_conn (c3\<lparr>conn_out := out\<rparr>) (d3\<lparr>conn_out := out\<rparr>)" using d3(3) by (simp add: same_conn_def)
    have cl: "cl" if "res = Inl e" for e
      using x Inr y that by (auto simp: response_for_request_def Let_def split: if_splits)
    show ?thesis
    proof (cases "ok1 \<and> ok2 \<and> err = None \<and> \<not> cl \<and> resp_status resp \<noteq> 101")
      case True
      then obtain req where "res = Inr req" using cl by (cases res) auto
      with less have "length (unread r) < length (unread (conn_in c))" unfolding d(4) by blast
      moreover have "resp = resp0" using True by (simp add: resp_def)
      ultimately show ?thesis
        using True s4 w d3 by (simp add: turn Inr y Let_def)
    next
      case False
      with s4 w[unfolded resp_def] d3 d(3) show ?thesis
        by (cases err; cases cl) (auto simp: turn Inr y Let_def resp_def split: if_splits)
    qed
  qed
qed

section \<open>The loop\<close>

lemma serve_loop_same:
  "same_conn c d \<Longrightarrow> \<exists>r c' d' s'. serve_loop h ctx c s = Some (r, c', s') \<and> serve_loop h ctx d s = Some (r, d', s') \<and>
     same_conn c' d'"
proof (induction "length (unread (conn_in c))" arbitrary: c d s rule: less_induct)
  case less
  note agree = serve_turn_same[OF less.prems, of h ctx s]
  show ?case
  proof (cases "serve_turn h ctx c s")
    case None
    with agree show ?thesis by simp
  next
    case (Some t)
    show ?thesis
    proof (cases t)
      case (Inl a)
      obtain r c' s' where a: "a = (r, c', s')" by (cases a)
      then obtain d' where "serve_turn h ctx d s = Some (Inl (r, d', s'))" "same_conn c' d'"
        using agree Some Inl
        by (cases "(length (unread (conn_in c)), serve_turn h ctx c s, serve_turn h ctx d s)" rule: turns_agree.cases) auto
      then show ?thesis using Some Inl a by (simp add: serve_loop.simps[of h ctx])
    next
      case (Inr b)
      obtain c' s' where b: "b = (c', s')" by (cases b)
      then obtain d' where d: "serve_turn h ctx d s = Some (Inr (d', s'))" "same_conn c' d'"
          "length (unread (conn_in c')) < length (unread (conn_in c))"
        using agree Some Inr
        by (cases "(length (unread (conn_in c)), serve_turn h ctx c s, serve_turn h ctx d s)" rule: turns_agree.cases) auto
      from less.hyps[OF d(3, 2), of s'] show ?thesis
        using Some Inr b d(1) by (simp add: serve_loop.simps[of h ctx c] serve_loop.simps[of h ctx d])
    qed
  qed
qed

lemma same_open: "src_bytes src = src_bytes src' \<Longrightarrow> src_err src = src_err src' \<Longrightarrow> \<not> src_eager src \<Longrightarrow> \<not> src_eager src' \<Longrightarrow>
    same_conn (open_conn h src out ds) (open_conn h src' out ds)"
  by (simp add: same_conn_def open_conn_def new_line_reader_def plain_reader_def unread_def reader_err_def)

section \<open>Replies\<close>

text \<open>The world when the application runs, and after its response has been written.\<close>

definition before_request :: "handler_config \<Rightarrow> world \<Rightarrow> world" where
  "before_request h s = handler_logf h WaitingLine (if 0 < read_timeout h then snd (time_now s) else s)"

definition after_reply :: "handler_config \<Rightarrow> response \<Rightarrow> world \<Rightarrow> world" where
  "after_reply h resp s = handler_logf h HandledLine
     (fold close_file (closed_handles resp) (if 0 < write_timeout h then snd (time_now s) else s))"

definition final_response :: "response \<Rightarrow> bool \<Rightarrow> response" where
  "final_response resp cl = (if cl then resp\<lparr>resp_headers := resp_headers resp @ [close_header]\<rparr> else resp)"

definition after_sending :: "conn \<Rightarrow> line_reader \<Rightarrow> response \<Rightarrow> conn" where
  "after_sending c rd resp = c\<lparr>conn_in := rd,
     conn_out := (conn_out c)\<lparr>sink_sent := sink_sent (conn_out c) @ message_bytes resp\<rparr>\<rparr>"

lemma set_deadline_open:
  "deadline_results c = [] \<Longrightarrow> set_deadline t c s = (True, c, if 0 < t then snd (time_now s) else s)"
  by (simp add: set_deadline_def split: prod.split)

lemma serve_turn_answers:
  assumes "deadline_results c = []" "sink_room (conn_out c) = None"
    and "read_http_request (handler_limits h) (conn_in c) = Some (res, rd)"
    and "response_for_request h ctx res (before_request h s) = (Inr (resp0, cl), s1)"
    and "sendable (final_response resp0 cl)"
  shows "serve_turn h ctx c s =
    (let resp = final_response resp0 cl; c' = after_sending c rd resp; s' = after_reply h resp s1
     in Some (if cl \<or> resp_status resp = 101 then Inl (ConnDone, c', s') else Inr (c', s')))"
proof -
  have d: "set_deadline (write_timeout h) (c\<lparr>conn_in := rd\<rparr>) s1 =
      (True, c\<lparr>conn_in := rd\<rparr>, if 0 < write_timeout h then snd (time_now s1) else s1)"
    using assms(1) by (simp add: set_deadline_open)
  note w = write_response_reliable[OF assms(5, 2)]
  have "serve_turn h ctx c s =
      (case write_response sink_write (final_response resp0 cl) (conn_out c) of (out, err, closed) \<Rightarrow>
         let c4 = c\<lparr>conn_in := rd, conn_out := out\<rparr>;
             s4 = fold close_file closed (if 0 < write_timeout h then snd (time_now s1) else s1) in
         (case err of
            Some e \<Rightarrow> Some (Inl (ConnDone, c4, handler_logf h (WriteErrorLine e) s4))
          | None \<Rightarrow>
              let s5 = handler_logf h HandledLine s4 in
              if cl \<or> resp_status (final_response resp0 cl) = 101 then Some (Inl (ConnDone, c4, s5))
              else Some (Inr (c4, s5))))"
    using assms(3, 4) d
    by (simp add: serve_turn_def set_deadline_open[OF assms(1)] before_request_def final_response_def[symmetric] Let_def)
  then show ?thesis
    unfolding w by (cases cl) (simp_all add: Let_def after_sending_def after_reply_def)
qed

section \<open>Properties\<close>

text \<open>
  C16. The connection loop always ends, for every configuration and application, on every
  connection that delivers finitely many bytes and then an error or the end of the stream.
\<close>

theorem serve_conn_returns:
  assumes "\<not> src_eager src"
  shows "\<exists>r c' s'. serve_conn h ctx src out ds s = Some (r, c', s')"
  using serve_loop_same[OF same_open[OF refl refl assms assms], of h ctx h out ds s]
  by (auto simp: serve_conn_def)

theorem serve_conn_returns_witness:
  "\<exists>r c' s'. serve_conn (main_handler store_only \<lparr>fl_addr = [], fl_read_timeout = 0, fl_write_timeout = 0,
     fl_graceful_timeout = 0, fl_handler_workers = 0, fl_max_active_conns = 0, fl_max_line = 0,
      fl_max_headers = 0, fl_max_body = 0, fl_auth_token = [], fl_rate_limit = 0, fl_rate_window = 0,
      fl_cors_allow_origin = [], fl_cors_allow_methods = [], fl_cors_allow_headers = [],
      fl_cors_allow_credentials = False, fl_cors_max_age = 0\<rparr>) None
      \<lparr>segs = [''GET'', '' / HTTP/1.1''], src_err = IoTimeout, src_eager = False\<rparr>
      \<lparr>sink_sent = [], sink_room = None\<rparr> [] quiet_world = Some (r, c', s')"
  by (rule serve_conn_returns) simp

text \<open>
  C17. How the network cuts the input into segments changes nothing on a whole connection: the
  same output is sent, the world ends up the same, and the same input is left.
\<close>

theorem serve_conn_segmentation:
  assumes "src_bytes src = src_bytes src'" "src_err src = src_err src'" "\<not> src_eager src" "\<not> src_eager src'"
  shows "map_option (\<lambda>(r, c, s). (r, conn_out c, unread (conn_in c), s)) (serve_conn h ctx src out ds s) =
         map_option (\<lambda>(r, c, s). (r, conn_out c, unread (conn_in c), s)) (serve_conn h ctx src' out ds s)"
  using serve_loop_same[OF same_open[OF assms], of h ctx h out ds s]
  by (auto simp: serve_conn_def same_conn_def)

theorem serve_conn_segmentation_witness:
  "map_option (\<lambda>(r, c, s). (r, conn_out c, unread (conn_in c), s))
     (serve_conn \<lparr>read_timeout = 5, write_timeout = 0, cfg_max_line = 0, cfg_max_headers = 0, cfg_max_body = 0,
        has_logger = True, app = None, middlewares = []\<rparr> None
      \<lparr>segs = [''GE'', ''T / HTT'', ''P/1.1''], src_err = IoEOF, src_eager = False\<rparr>
      \<lparr>sink_sent = [], sink_room = Some 7\<rparr> [True] quiet_world) =
   map_option (\<lambda>(r, c, s). (r, conn_out c, unread (conn_in c), s))
     (serve_conn \<lparr>read_timeout = 5, write_timeout = 0, cfg_max_line = 0, cfg_max_headers = 0, cfg_max_body = 0,
        has_logger = True, app = None, middlewares = []\<rparr> None
      \<lparr>segs = [''GET / HTTP/1.1''], src_err = IoEOF, src_eager = False\<rparr>
      \<lparr>sink_sent = [], sink_room = Some 7\<rparr> [True] quiet_world)"
  by (rule serve_conn_segmentation) (simp_all add: src_bytes_def)

text \<open>
  The specification of a conversation: the requests are answered one after the other, in the
  world that the previous answer left.
\<close>

fun conversation :: "handler_config \<Rightarrow> req_ctx option \<Rightarrow> http_request list \<Rightarrow> world \<Rightarrow> (response list \<times> world) option" where
  "conversation h ctx [] s = Some ([], s)"
| "conversation h ctx (req # reqs) s =
     (case response_for_request h ctx (Inr req) (before_request h s) of
        (Inl v, s1) \<Rightarrow> None
      | (Inr (resp0, cl), s1) \<Rightarrow>
          let resp = final_response resp0 cl
          in map_option (apfst ((#) resp)) (conversation h ctx reqs (after_reply h resp s1)))"

lemma response_closes:
  "response_for_request h ctx (Inr req) s = (Inr (resp, cl), s1) \<Longrightarrow> cl = should_close_connection req"
  by (auto simp: response_for_request_def Let_def split: prod.splits outcome.splits)

lemma well_formed_read:
  assumes "well_formed_request (handler_max_line h) (handler_limits h) req" "plain_reader r"
    "max_line r = handler_max_line h" "unread r = render_request req @ q"
  shows "\<exists>rd. read_http_request (handler_limits h) r = Some (Inr req, rd) \<and> unread rd = q \<and> plain_reader rd \<and>
    max_line rd = handler_max_line h"
proof -
  have "accepted (max_line r) (handler_limits h) (unread r) req q"
    using well_formed_accepted[OF assms(1)] assms(3, 4) by simp
  then show ?thesis
    using read_http_request_refines[OF assms(2), of "handler_limits h"] assms(3)
      flat_read_request_iff[of "max_line r" "reader_err r" "handler_limits h" "unread r" req q]
    by auto
qed

text \<open>One turn of a conversation: the first request is answered, and the others are left.\<close>

lemma conversation_turn:
  assumes "well_formed_request (handler_max_line h) (handler_limits h) req"
    and "conversation h ctx (req # reqs) s = Some (resps, s')"
    and "\<forall>resp\<in>set resps. sendable resp \<and> resp_status resp \<noteq> 101"
    and "deadline_results c = []" "sink_room (conn_out c) = None" "plain_reader (conn_in c)"
    and "max_line (conn_in c) = handler_max_line h" "unread (conn_in c) = render_request req @ q"
  obtains c' s1 resp resps' where
    "resps = resp # resps'" "conversation h ctx reqs s1 = Some (resps', s')"
    "serve_turn h ctx c s = Some (if should_close_connection req then Inl (ConnDone, c', s1) else Inr (c', s1))"
    "deadline_results c' = []" "sink_room (conn_out c') = None" "plain_reader (conn_in c')"
    "max_line (conn_in c') = handler_max_line h" "unread (conn_in c') = q"
    "sink_sent (conn_out c') = sink_sent (conn_out c) @ message_bytes resp"
proof -
  obtain rd where rd: "read_http_request (handler_limits h) (conn_in c) = Some (Inr req, rd)" "unread rd = q"
      "plain_reader rd" "max_line rd = handler_max_line h"
    using well_formed_read[OF assms(1, 6-8)] by blast
  obtain resp0 cl s1 resps' where r: "response_for_request h ctx (Inr req) (before_request h s) = (Inr (resp0, cl), s1)"
      "conversation h ctx reqs (after_reply h (final_response resp0 cl) s1) = Some (resps', s')"
      "resps = final_response resp0 cl # resps'"
    using assms(2) by (auto simp: Let_def split: prod.splits sum.splits)
  have ok: "sendable (final_response resp0 cl)" "resp_status (final_response resp0 cl) \<noteq> 101"
    using assms(3) by (simp_all add: r(3))
  show thesis
    using that[OF r(3, 2), of "after_sending c rd (final_response resp0 cl)"] rd assms(4, 5) ok(2) response_closes[OF r(1)]
      serve_turn_answers[OF assms(4, 5) rd(1) r(1) ok(1)]
    by (simp add: after_sending_def Let_def)
qed

lemma serve_loop_conversation:
  assumes "\<forall>r\<in>set (init @ [final]). well_formed_request (handler_max_line h) (handler_limits h) r"
    and "\<forall>r\<in>set init. \<not> should_close_connection r" "should_close_connection final"
    and "conversation h ctx (init @ [final]) s = Some (resps, s')"
    and "\<forall>resp\<in>set resps. sendable resp \<and> resp_status resp \<noteq> 101"
    and "deadline_results c = []" "sink_room (conn_out c) = None" "plain_reader (conn_in c)"
    and "max_line (conn_in c) = handler_max_line h"
    and "unread (conn_in c) = concat (map render_request (init @ [final])) @ rest"
  shows "\<exists>c'. serve_loop h ctx c s = Some (ConnDone, c', s') \<and> unread (conn_in c') = rest \<and>
    sink_sent (conn_out c') = sink_sent (conn_out c) @ concat (map message_bytes resps)"
  using assms
proof (induction "init @ [final]" arbitrary: init c s resps)
  case (Cons req reqs)
  have wf: "well_formed_request (handler_max_line h) (handler_limits h) req"
    and reqs: "init @ [final] = req # reqs"
    using Cons.hyps(2) Cons.prems(1) by (metis list.set_intros(1))+
  have "unread (conn_in c) = render_request req @ concat (map render_request reqs) @ rest"
    using Cons.prems(10) by (simp add: reqs)
  from conversation_turn[OF wf Cons.prems(4)[unfolded reqs] Cons.prems(5-9) this] obtain c1 s1 resp resps' where
    t: "resps = resp # resps'" "conversation h ctx reqs s1 = Some (resps', s')"
      "serve_turn h ctx c s = Some (if should_close_connection req then Inl (ConnDone, c1, s1) else Inr (c1, s1))"
      "deadline_results c1 = []" "sink_room (conn_out c1) = None" "plain_reader (conn_in c1)"
      "max_line (conn_in c1) = handler_max_line h" "unread (conn_in c1) = concat (map render_request reqs) @ rest"
      "sink_sent (conn_out c1) = sink_sent (conn_out c) @ message_bytes resp" .
  show ?case
  proof (cases init)
    case Nil
    then have "req = final" "reqs = []" using reqs by simp_all
    with t Cons.prems(3) show ?thesis by (simp add: serve_loop.simps[of h ctx c])
  next
    case (Cons r' init')
    then have init: "reqs = init' @ [final]" "r' = req" using reqs by simp_all
    then have "serve_loop h ctx c s = serve_loop h ctx c1 s1"
      using t(3) Cons.prems(2) Cons by (simp add: serve_loop.simps[of h ctx c])
    moreover have "\<exists>c'. serve_loop h ctx c1 s1 = Some (ConnDone, c', s') \<and> unread (conn_in c') = rest \<and>
        sink_sent (conn_out c') = sink_sent (conn_out c1) @ concat (map message_bytes resps')"
      using Cons.prems Cons init t by (intro Cons.hyps(1)) auto
    ultimately show ?thesis using t(1, 9) by auto
  qed
qed simp

text \<open>
  C14. Pipelining: if a client sends well-formed requests back to back, all but the last keeping
  the connection open, then the server sends exactly the responses of the application, in the
  order of the requests, each a framed message, the last with Connection: close; it then ends,
  with the bytes after the last request unread and every response body closed.
\<close>

theorem serve_conn_conversation:
  assumes "\<not> src_eager src" "src_bytes src = concat (map render_request (init @ [final])) @ rest"
    and "\<forall>r\<in>set (init @ [final]). well_formed_request (handler_max_line h) (handler_limits h) r"
    and "\<forall>r\<in>set init. \<not> should_close_connection r" "should_close_connection final"
    and "conversation h ctx (init @ [final]) s = Some (resps, s')"
    and "\<forall>resp\<in>set resps. sendable resp \<and> resp_status resp \<noteq> 101" "sink_room out = None"
  shows "\<exists>c'. serve_conn h ctx src out [] s = Some (ConnDone, c', s') \<and> unread (conn_in c') = rest \<and>
    sink_sent (conn_out c') = sink_sent out @ concat (map message_bytes resps)"
  unfolding serve_conn_def
  using serve_loop_conversation[OF assms(3-7), of "open_conn h src out []" rest] assms(1, 2, 8)
  by (simp add: open_conn_def new_line_reader_def plain_reader_def unread_def)

text \<open>A handler without timeouts, logger and middlewares, and what it says.\<close>

definition plain_config :: handler_config where
  "plain_config = \<lparr>read_timeout = 0, write_timeout = 0, cfg_max_line = 0, cfg_max_headers = 0, cfg_max_body = 0,
     has_logger = False, app = None, middlewares = []\<rparr>"

definition hello_response :: "http_request \<Rightarrow> response" where
  "hello_response req = zero_response\<lparr>resp_status := 200,
     resp_headers := [HeaderField ''X-WBSV-Method'' (rl_method (request_line req)),
       HeaderField ''X-WBSV-Target'' (rl_target (request_line req)),
       HeaderField ''Content-Type'' ''text/plain; charset=utf-8''],
     resp_body := ''hello from _wbsv'' @ [lf]\<rparr>"

lemma other_names: "\<not> equal_fold ''X-WBSV-Method'' ''Content-Type''" "\<not> equal_fold ''X-WBSV-Target'' ''Content-Type''"
  by code_simp+

lemma final_response_False [simp]: "final_response resp False = resp"
  by (simp add: final_response_def)

lemma default_app_reply:
  "default_app_handler (Buffered new_buffered_writer) r s = (oc, w, s') \<Longrightarrow>
     oc = Returned \<and> s' = s \<and> buffered_response (buffer_of w) = hello_response (req_http r)"
  by (auto simp: default_app_handler_call Let_def layered.laws buffered_write_def buffered_set_header_def
      other_names buffered_add_header_def new_buffered_writer_def buffered_response_def hello_response_def
      zero_response_def)

lemma plain_config_reply:
  "response_for_request plain_config ctx (Inr req) s = (Inr (hello_response req, should_close_connection req), s)"
proof -
  let ?r = "\<lparr>req_context = ctx, req_http = req, req_params = None\<rparr>"
  obtain oc w s' where d: "default_app_handler (Buffered new_buffered_writer) ?r s = (oc, w, s')" by (metis prod_cases3)
  from default_app_reply[OF this] d show ?thesis
    by (simp add: response_for_request_def app_handler_def chain_def plain_config_def)
qed

definition get_root :: "header_field list \<Rightarrow> http_request" where
  "get_root hs = \<lparr>request_line = \<lparr>rl_method = ''GET'', rl_target = ''/'', rl_version = ''HTTP/1.1''\<rparr>,
     req_headers = HeaderField ''Host'' ''h'' # hs, req_body = []\<rparr>"

lemma plain_world: "before_request plain_config s = s" "after_reply plain_config (hello_response r) s = s"
  "after_reply plain_config (final_response (hello_response r) cl) s = s"
  by (simp_all add: before_request_def after_reply_def plain_config_def handler_logf_def closed_handles_def
      hello_response_def final_response_def zero_response_def)

lemma get_root_facts:
  "well_formed_request 8192 \<lparr>max_headers = 100, max_body = 1048576\<rparr> (get_root [])"
  "well_formed_request 8192 \<lparr>max_headers = 100, max_body = 1048576\<rparr> (get_root [close_header])"
  "\<not> should_close_connection (get_root [])" "should_close_connection (get_root [close_header])"
  by code_simp+

lemma get_root_sendable:
  "sendable (hello_response (get_root []))" "sendable (final_response (hello_response (get_root [close_header])) True)"
  by code_simp+

theorem serve_conn_conversation_witness:
  "\<exists>c'. serve_conn plain_config None
      \<lparr>segs = [render_request (get_root []), render_request (get_root [close_header]) @ ''GET''], src_err = IoEOF,
        src_eager = False\<rparr> \<lparr>sink_sent = [], sink_room = None\<rparr> [] quiet_world = Some (ConnDone, c', quiet_world) \<and>
    unread (conn_in c') = ''GET'' \<and>
    sink_sent (conn_out c') = message_bytes (hello_response (get_root [])) @
      message_bytes (final_response (hello_response (get_root [close_header])) True)"
proof -
  let ?reqs = "[get_root []] @ [get_root [close_header]]"
  let ?resps = "[hello_response (get_root []), final_response (hello_response (get_root [close_header])) True]"
  have lims: "handler_max_line plain_config = 8192" "handler_max_headers plain_config = 100"
      "handler_max_body plain_config = 1048576"
    by (simp_all add: plain_config_def handler_max_line_def handler_max_headers_def handler_max_body_def
        default_max_line_def default_max_headers_def default_max_body_def)
  have conv: "conversation plain_config None ?reqs quiet_world = Some (?resps, quiet_world)"
    by (simp add: plain_world plain_config_reply get_root_facts Let_def)
  show ?thesis
    using serve_conn_conversation[of "\<lparr>segs = [render_request (get_root []), render_request (get_root [close_header]) @ ''GET''],
          src_err = IoEOF, src_eager = False\<rparr>" "[get_root []]" "get_root [close_header]" "''GET''" plain_config None
        quiet_world ?resps quiet_world "\<lparr>sink_sent = [], sink_room = None\<rparr>"]
      conv get_root_facts get_root_sendable
    by (simp add: lims src_bytes_def hello_response_def final_response_def zero_response_def)
qed

section \<open>Refusals\<close>

definition error_reply :: "http_err \<Rightarrow> int \<times> bytes" where
  "error_reply err =
     (if err = ErrIO IoTimeout then (408, ''request timeout'')
      else if err = ErrBodyTooLarge then (413, ''content too large'')
      else if err = ErrUnsupportedTransferEncoding then (501, ''transfer encoding is not implemented'')
      else (400, ''bad request''))"

text \<open>The whole message, spelled out.\<close>

definition error_bytes :: "int \<times> bytes \<Rightarrow> bytes" where
  "error_bytes ct = (case ct of (code, t) \<Rightarrow>
     ''HTTP/1.1 '' @ format_int code @ [sp] @ status_text code @ crlf @
     ''Content-Type: text/plain; charset=utf-8'' @ crlf @
     ''Connection: close'' @ crlf @
     ''Content-Length: '' @ format_int (int (length t) + 1) @ crlf @ crlf @ t @ [lf])"

lemma close_header_facts: "\<not> skipped_header c close_header" "sendable_field close_header"
proof -
  have "\<not> equal_fold ''Connection'' ''Content-Length''" "\<not> equal_fold ''Connection'' ''Transfer-Encoding''" by code_simp+
  then show "\<not> skipped_header c close_header" by (simp add: skipped_header_def close_header_def)
  show "sendable_field close_header" by code_simp
qed

lemma content_type_sendable: "sendable_field (HeaderField ''Content-Type'' ''text/plain; charset=utf-8'')"
  by code_simp

lemma error_message:
  assumes "status_allows_body code" "100 \<le> code" "code \<le> 999" "t \<noteq> []" "\<not> has_suffix t [lf]"
  shows "message_bytes (final_response (error_response code t) True) = error_bytes (code, t)"
    and "sendable (final_response (error_response code t) True)"
proof -
  let ?r = "final_response (error_response code t) True"
  have b: "resp_body ?r = t @ [lf]"
    using assms(4, 5) by (simp add: final_response_def error_response_def Let_def with_content_type_def zero_response_def)
  have parts: "resp_status ?r = code" "resp_reader ?r = None" "resp_chunked ?r = False" "resp_version ?r = []" "resp_reason ?r = []"
      "resp_headers ?r = [HeaderField ''Content-Type'' ''text/plain; charset=utf-8'', close_header]"
    by (simp_all add: final_response_def error_response_parts)
  note heads = close_header_facts close_header_facts[unfolded close_header_def] content_type_not_skipped content_type_sendable
  show s: "sendable ?r"
    using assms(1-3) status_text_no_ctl
    by (simp add: sendable_def passes_checks_def parts effective_version_def effective_reason_def kept_headers_def heads)
  obtain p where p: "message_bytes ?r = head_bytes ?r @ p" "payload_framed ?r p" using message_bytes_head[OF s] .
  have "p = t @ [lf]" using p(2) assms(1) by (simp add: payload_framed_def parts response_content_def b)
  moreover have "head_bytes ?r = ''HTTP/1.1 '' @ format_int code @ [sp] @ status_text code @ crlf @
     ''Content-Type: text/plain; charset=utf-8'' @ crlf @ ''Connection: close'' @ crlf @
     ''Content-Length: '' @ format_int (int (length t) + 1) @ crlf @ crlf"
    using assms(1)
    by (simp add: head_bytes_def status_line_def effective_version_def effective_reason_def parts kept_headers_def heads
        framing_headers_def response_body_length_def b render_field_def lines_bytes_def close_header_def add.commute)
  ultimately show "message_bytes ?r = error_bytes (code, t)" using p(1) by (simp add: error_bytes_def)
qed

lemma error_reply_message:
  "message_bytes (final_response (case error_reply err of (code, t) \<Rightarrow> error_response code t) True) = error_bytes (error_reply err)"
  "sendable (final_response (case error_reply err of (code, t) \<Rightarrow> error_response code t) True)"
proof -
  have texts: "\<not> has_suffix ''request timeout'' [lf]" "\<not> has_suffix ''content too large'' [lf]"
    "\<not> has_suffix ''transfer encoding is not implemented'' [lf]" "\<not> has_suffix ''bad request'' [lf]" by code_simp+
  have codes: "status_allows_body 408" "status_allows_body 413" "status_allows_body 501" "status_allows_body 400"
    by (simp_all add: status_allows_body_def)
  note m = error_message[OF codes(1) _ _ _ texts(1)] error_message[OF codes(2) _ _ _ texts(2)]
    error_message[OF codes(3) _ _ _ texts(3)] error_message[OF codes(4) _ _ _ texts(4)]
  show "message_bytes (final_response (case error_reply err of (code, t) \<Rightarrow> error_response code t) True) = error_bytes (error_reply err)"
    using m by (simp add: error_reply_def)
  show "sendable (final_response (case error_reply err of (code, t) \<Rightarrow> error_response code t) True)"
    using m by (simp add: error_reply_def)
qed

lemma refused_response:
  "response_for_request h ctx (Inl err) s =
     (Inr (case error_reply err of (code, t) \<Rightarrow> error_response code t, True), handler_logf h (ParseErrorLine err) s)"
  by (simp add: response_for_request_def error_reply_def Let_def)

text \<open>
  Every reply claims HTTP/1.1, whatever the version of the request, so that the check that keeps
  chunks from HTTP/1.0 never applies: an old client is sent a chunked body.
\<close>

lemma replies_are_http_11:
  "response_for_request h ctx res s = (Inr (resp, cl), s') \<Longrightarrow> effective_version resp = ''HTTP/1.1''"
  by (auto simp: response_for_request_def effective_version_def buffered_response_def error_response_parts zero_response_def
      Let_def split: sum.splits prod.splits outcome.splits if_splits)

definition chunking_app :: handler where
  "chunking_app w r s = (Returned, fst (write_body ''hello'' (use_chunked w)), s)"

definition old_request :: http_request where
  "old_request = \<lparr>request_line = \<lparr>rl_method = ''GET'', rl_target = ''/'', rl_version = ''HTTP/1.0''\<rparr>, req_headers = [],
     req_body = []\<rparr>"

lemma old_client_is_sent_chunks:
  "\<exists>resp. response_for_request (plain_config\<lparr>app := Some chunking_app\<rparr>) ctx (Inr old_request) s = (Inr (resp, True), s) \<and>
     resp_chunked resp \<and> effective_version resp = ''HTTP/1.1''"
proof -
  have "should_close_connection old_request" by code_simp
  then show ?thesis
    by (simp add: response_for_request_def app_handler_def chain_def plain_config_def chunking_app_def Let_def layered.laws
        buffered_write_def buffered_use_chunked_def buffered_response_def effective_version_def zero_response_def
        new_buffered_writer_def)
qed

text \<open>
  C15. Anything that does not start with a request the server accepts gets exactly one reply,
  408, 413, 501 or 400 by the error of the reader, spelled out here to the last byte; then the
  connection ends. The application does not run: only the log and the clock have moved.
\<close>

theorem serve_conn_rejects:
  assumes "\<not> src_eager src" "sink_room out = None"
    and "\<forall>req rest. \<not> accepted (handler_max_line h) (handler_limits h) (src_bytes src) req rest"
  shows "\<exists>err q c' s' n l. flat_read_request (handler_max_line h) (src_err src) (handler_limits h) (src_bytes src) = Some (Inl err, q) \<and>
    serve_conn h ctx src out [] s = Some (ConnDone, c', s') \<and>
    sink_sent (conn_out c') = sink_sent out @ error_bytes (error_reply err) \<and>
    s' = s\<lparr>clock_reads := n, app_log := l\<rparr>"
proof -
  let ?c = "open_conn h src out []"
  have c: "plain_reader (conn_in ?c)" "unread (conn_in ?c) = src_bytes src" "reader_err (conn_in ?c) = src_err src"
      "max_line (conn_in ?c) = handler_max_line h" "deadline_results ?c = []" "sink_room (conn_out ?c) = None"
    using assms(1, 2) by (simp_all add: open_conn_def new_line_reader_def plain_reader_def unread_def reader_err_def)
  obtain res rd where rd: "read_http_request (handler_limits h) (conn_in ?c) = Some (res, rd)"
      "flat_read_request (handler_max_line h) (src_err src) (handler_limits h) (src_bytes src) = Some (res, unread rd)"
    using read_http_request_refines[OF c(1), of "handler_limits h"] c(2-4) by auto
  then obtain err where err: "res = Inl err"
    using assms(3) flat_read_request_iff[of "handler_max_line h" "src_err src" "handler_limits h" "src_bytes src"]
    by (cases res) auto
  note turn = serve_turn_answers[OF c(5, 6) rd(1) refused_response[of h ctx err "before_request h s", folded err] error_reply_message(2)]
  let ?resp = "final_response (case error_reply err of (code, t) \<Rightarrow> error_response code t) True"
  let ?s = "after_reply h ?resp (handler_logf h (ParseErrorLine err) (before_request h s))"
  have "serve_conn h ctx src out [] s = Some (ConnDone, after_sending ?c rd ?resp, ?s)"
    unfolding serve_conn_def serve_loop.simps[of h ctx ?c] turn by (simp add: Let_def)
  moreover have "sink_sent (conn_out (after_sending ?c rd ?resp)) = sink_sent out @ error_bytes (error_reply err)"
    by (simp add: after_sending_def error_reply_message(1) open_conn_def)
  moreover have "closed_handles ?resp = []"
    by (simp add: closed_handles_def final_response_def error_response_parts split: prod.split)
  then have "?s = s\<lparr>clock_reads := clock_reads ?s, app_log := app_log ?s\<rparr>"
    by (simp add: after_reply_def before_request_def handler_logf_def log_printf_def time_now_def)
  ultimately show ?thesis using rd(2) err by metis
qed

text \<open>A client that closes an idle connection is sent a 400 reply as well.\<close>

theorem serve_conn_rejects_witness:
  "\<exists>c' s'. serve_conn plain_config None \<lparr>segs = [], src_err = IoEOF, src_eager = False\<rparr>
      \<lparr>sink_sent = [], sink_room = None\<rparr> [] quiet_world = Some (ConnDone, c', s') \<and>
    sink_sent (conn_out c') = error_bytes (400, ''bad request'')"
proof -
  let ?src = "\<lparr>segs = [], src_err = IoEOF, src_eager = False\<rparr>"
  have none: "\<forall>req rest. \<not> accepted (handler_max_line plain_config) (handler_limits plain_config) (src_bytes ?src) req rest"
    by (auto simp: src_bytes_def dest: accepted_shorter)
  have fl: "flat_line m IoEOF [] = (Inl ErrUnexpectedEOF, [])" for m
    by (auto simp: flat_line_def eof_line_err_def)
  have "flat_read_request (handler_max_line plain_config) IoEOF (handler_limits plain_config) [] = Some (Inl err, q) \<Longrightarrow>
      error_reply err = (400, ''bad request'')" for err q
    by (auto simp: read_request_def fl error_reply_def)
  with serve_conn_rejects[OF _ _ none, of "\<lparr>sink_sent = [], sink_room = None\<rparr>" None quiet_world] show ?thesis
    by (fastforce simp: src_bytes_def)
qed

end
