(* ===== verification/Download.thy ===== *)
theory Download
  imports Byte_Range Handler_Facts
begin

text \<open>
  Range requests from the Range header to the bytes on the wire: what \<open>ByteRange\<close> resolves,
  \<open>StreamRange\<close> puts on a response, and \<open>WriteResponse\<close> sends.
\<close>

text \<open>A representation behind an \<open>io.ReaderAt\<close>: a section delivers the bytes of the section, cut in any way.\<close>

definition reads_sections :: "reader_at \<Rightarrow> bytes \<Rightarrow> bool" where
  "reads_sections rd content \<longleftrightarrow>
     (\<forall>off n. 0 \<le> off \<longrightarrow> src_bytes (rd off n) = take (nat n) (drop (nat off) content))"

definition partial_response :: "reader_at \<Rightarrow> int \<Rightarrow> byte_range \<Rightarrow> response" where
  "partial_response rd size' br = zero_response\<lparr>resp_status := 206,
     resp_headers := [HeaderField ''Accept-Ranges'' ''bytes'', HeaderField ''Content-Range'' (content_range br size')],
     resp_reader := Some \<lparr>stream_src = rd (br_start br) (br_length br), stream_closer = None\<rparr>,
     resp_length := br_length br\<rparr>"

text \<open>
  The message that answers a range request for a part of a representation. \<open>StatusText\<close> has no
  text for 206.
\<close>

definition partial_message :: "bytes \<Rightarrow> byte_range \<Rightarrow> bytes" where
  "partial_message content br =
     ''HTTP/1.1 206 Status'' @ crlf @
     ''Accept-Ranges: bytes'' @ crlf @
     ''Content-Range: bytes '' @ format_int (br_start br) @ ''-'' @ format_int (br_end br) @ ''/'' @
       format_int (int (length content)) @ crlf @
     ''Content-Length: '' @ format_int (br_length br) @ crlf @ crlf @
     take (nat (br_length br)) (drop (nat (br_start br)) content)"

lemma range_names:
  "\<not> equal_fold ''Accept-Ranges'' ''Content-Length''" "\<not> equal_fold ''Content-Range'' ''Content-Length''"
  "\<not> equal_fold ''Accept-Ranges'' ''Content-Range''"
  by code_simp+

lemma stream_range_response:
  assumes "0 \<le> br_start br" "br_start br \<le> br_end br" "br_end br < size'"
  shows "\<exists>w. buffered_stream_range rd size' br new_buffered_writer = (w, None) \<and>
    buffered_response w = partial_response rd size' br"
  using assms
  by (simp add: buffered_stream_range_def buffered_set_header_def buffered_add_header_def buffered_write_header_def
      buffered_stream_body_def new_buffered_writer_def buffered_response_def partial_response_def range_names Let_def
      zero_response_def)

lemma partial_response_message:
  assumes rd: "reads_sections rd content"
    and br: "0 \<le> br_start br" "br_start br \<le> br_end br" "br_end br < int (length content)"
      "br_length br = br_end br - br_start br + 1"
  defines "resp \<equiv> partial_response rd (int (length content)) br"
  shows "sendable resp" "message_bytes resp = partial_message content br" "closed_handles resp = []"
proof -
  have parts: "resp_status resp = 206" "resp_chunked resp = False" "resp_version resp = []" "resp_reason resp = []"
      "resp_reader resp = Some \<lparr>stream_src = rd (br_start br) (br_length br), stream_closer = None\<rparr>"
      "resp_length resp = br_length br" "resp_closer resp = None"
      "resp_headers resp = [HeaderField ''Accept-Ranges'' ''bytes'',
        HeaderField ''Content-Range'' (content_range br (int (length content)))]"
    by (simp_all add: resp_def partial_response_def zero_response_def)
  have slice: "src_bytes (rd (br_start br) (br_length br)) = take (nat (br_length br)) (drop (nat (br_start br)) content)"
    using rd br(1) by (simp add: reads_sections_def)
  have len: "int (length (take (nat (br_length br)) (drop (nat (br_start br)) content))) = br_length br"
    using br by simp
  have allows: "status_allows_body 206" "status_text 206 = ''Status''" by code_simp+
  have code: "format_int 206 = ''206''"
    by (simp add: format_int_def nat_dec.simps dec_digit_def char_of_def bit_0)
  have plain: "\<not> contains_any (content_range br n) [cr, lf]" for n
    using format_int_no_ctl[of "[cr, lf]"] by (simp add: content_range_def)
  have fields: "\<not> skipped_header False (HeaderField ''Accept-Ranges'' v)" "\<not> skipped_header False (HeaderField ''Content-Range'' v)"
    for v by (simp_all add: skipped_header_def range_names)
  have kept: "kept_headers resp = resp_headers resp" by (simp add: kept_headers_def parts fields)
  show s: "sendable resp"
    using br plain len slice
    by (simp add: sendable_def passes_checks_def parts effective_version_def effective_reason_def kept sendable_field_def
        allows contains_any_def)
  show "closed_handles resp = []" by (simp add: closed_handles_def parts)
  obtain p where p: "message_bytes resp = head_bytes resp @ p" "payload_framed resp p" using message_bytes_head[OF s] .
  have "p = take (nat (br_length br)) (drop (nat (br_start br)) content)"
    using p(2) by (simp add: payload_framed_def parts response_content_def allows slice)
  then show "message_bytes resp = partial_message content br"
    unfolding p(1) partial_message_def
    by (simp add: head_bytes_def status_line_def effective_version_def effective_reason_def parts kept allows
        code framing_headers_def response_body_length_def render_field_def lines_bytes_def content_range_def)
qed

text \<open>
  C12. A range download: when the Range header of a request resolves to a part of a non-empty
  representation, the response that \<open>StreamRange\<close> makes of it is sent as one 206 message with
  the header fields of the part and exactly its bytes, whatever way they are read in.
\<close>

theorem range_download_exact:
  assumes "request_range r (int (length content)) = Inr (Some br)" "content \<noteq> []"
    and "reads_sections rd content" "sink_room out = None"
  shows "\<exists>w. buffered_stream_range rd (int (length content)) br new_buffered_writer = (w, None) \<and>
    write_response sink_write (buffered_response w) out =
      (out\<lparr>sink_sent := sink_sent out @ partial_message content br\<rparr>, None, [])"
proof -
  have br: "0 \<le> br_start br" "br_start br \<le> br_end br" "br_end br < int (length content)"
      "br_length br = br_end br - br_start br + 1"
    using request_byte_range_sound[of "http_headers r" "int (length content)" br] assms(1, 2)
    by (simp_all add: request_range_def)
  note msg = partial_response_message[OF assms(3) br]
  obtain w where w: "buffered_stream_range rd (int (length content)) br new_buffered_writer = (w, None)"
      "buffered_response w = partial_response rd (int (length content)) br"
    using stream_range_response[OF br(1-3), of rd] by blast
  with write_response_reliable[OF msg(1) assms(4)] msg(2, 3) show ?thesis by auto
qed

text \<open>The last three bytes of ten, read in two pieces.\<close>

definition ten_bytes :: bytes where
  "ten_bytes = ''0123456789''"

definition ten_bytes_at :: reader_at where
  "ten_bytes_at off n = \<lparr>segs = [take 1 (take (nat n) (drop (nat off) ten_bytes)), drop 1 (take (nat n) (drop (nat off) ten_bytes))],
     src_err = IoEOF, src_eager = False\<rparr>"

theorem range_download_exact_witness:
  "\<exists>w. buffered_stream_range ten_bytes_at 10 \<lparr>br_start = 7, br_end = 9, br_length = 3\<rparr> new_buffered_writer = (w, None) \<and>
    write_response sink_write (buffered_response w) \<lparr>sink_sent = [], sink_room = None\<rparr> =
      (\<lparr>sink_sent = ''HTTP/1.1 206 Status'' @ crlf @ ''Accept-Ranges: bytes'' @ crlf @
          ''Content-Range: bytes 7-9/10'' @ crlf @ ''Content-Length: 3'' @ crlf @ crlf @ ''789'', sink_room = None\<rparr>, None, [])"
proof -
  let ?r = "\<lparr>req_context = None, req_http = get_root [HeaderField ''Range'' ''bytes=-3''], req_params = None\<rparr>"
  have r: "request_range ?r (int (length ten_bytes)) = Inr (Some \<lparr>br_start = 7, br_end = 9, br_length = 3\<rparr>)" by code_simp
  have rd: "reads_sections ten_bytes_at ten_bytes"
    by (simp add: reads_sections_def ten_bytes_at_def src_bytes_def del: take_take)
  have msg: "partial_message ten_bytes \<lparr>br_start = 7, br_end = 9, br_length = 3\<rparr> =
      ''HTTP/1.1 206 Status'' @ crlf @ ''Accept-Ranges: bytes'' @ crlf @
      ''Content-Range: bytes 7-9/10'' @ crlf @ ''Content-Length: 3'' @ crlf @ crlf @ ''789''" by code_simp
  have len: "int (length ten_bytes) = 10" "ten_bytes \<noteq> []" by (simp_all add: ten_bytes_def)
  from range_download_exact[OF r len(2) rd, of "\<lparr>sink_sent = [], sink_room = None\<rparr>"] show ?thesis
    unfolding len msg by simp
qed

end
