(* ===== verification/Encoding.thy ===== *)
theory Encoding
  imports Go_Strings "HOL-Library.Word"
begin

text \<open>
  The two codecs of the standard library that the WebSocket handshake uses: base64 with the
  standard alphabet (\<open>encoding/base64\<close>, \<open>StdEncoding\<close>) and SHA-1 (\<open>crypto/sha1\<close>) on 32-bit
  words. Decoding follows Go: carriage returns and newlines are ignored anywhere, padding is
  required, and the unused bits of the last symbol are not checked.
\<close>

unbundle bit_operations_syntax

section \<open>Base64\<close>

definition base64_alphabet :: bytes where
  "base64_alphabet = ''ABCDEFGHIJKLMNOPQRSTUVWXYZabcdefghijklmnopqrstuvwxyz0123456789+/''"

definition base64_char :: "nat \<Rightarrow> char" where
  "base64_char n = base64_alphabet ! n"

fun index_of :: "char \<Rightarrow> bytes \<Rightarrow> nat option" where
  "index_of c [] = None"
| "index_of c (x # xs) = (if x = c then Some 0 else map_option Suc (index_of c xs))"

definition base64_value :: "char \<Rightarrow> nat option" where
  "base64_value c = index_of c base64_alphabet"

definition byte_val :: "char \<Rightarrow> nat" where
  "byte_val c = of_char c"

definition val_byte :: "nat \<Rightarrow> char" where
  "val_byte n = char_of n"

text \<open>A group of three bytes is the four 6-bit digits of the 24-bit number they spell.\<close>

fun base64_encode :: "bytes \<Rightarrow> bytes" where
  "base64_encode (a # b # c # s) =
     base64_char (byte_val a div 4) #
     base64_char (byte_val a mod 4 * 16 + byte_val b div 16) #
     base64_char (byte_val b mod 16 * 4 + byte_val c div 64) #
     base64_char (byte_val c mod 64) # base64_encode s"
| "base64_encode [a, b] =
     [base64_char (byte_val a div 4), base64_char (byte_val a mod 4 * 16 + byte_val b div 16),
      base64_char (byte_val b mod 16 * 4), CHR ''='']"
| "base64_encode [a] =
     [base64_char (byte_val a div 4), base64_char (byte_val a mod 4 * 16), CHR ''='', CHR ''='']"
| "base64_encode [] = []"

fun base64_decode_groups :: "bytes \<Rightarrow> bytes option" where
  "base64_decode_groups (a # b # c # d # s) =
     (case (base64_value a, base64_value b) of
        (Some i, Some j) \<Rightarrow>
          (if c = CHR ''='' \<and> d = CHR ''='' then
             if s = [] then Some [val_byte (i * 4 + j div 16)] else None
           else (case base64_value c of
              None \<Rightarrow> None
            | Some k \<Rightarrow>
                if d = CHR ''='' then
                  if s = [] then Some [val_byte (i * 4 + j div 16), val_byte (j mod 16 * 16 + k div 4)] else None
                else (case (base64_value d, base64_decode_groups s) of
                    (Some l, Some r) \<Rightarrow>
                      Some (val_byte (i * 4 + j div 16) # val_byte (j mod 16 * 16 + k div 4) #
                            val_byte (k mod 4 * 64 + l) # r)
                  | _ \<Rightarrow> None)))
      | _ \<Rightarrow> None)"
| "base64_decode_groups s = (if s = [] then Some [] else None)"

definition base64_decode :: "bytes \<Rightarrow> bytes option" where
  "base64_decode s = base64_decode_groups (filter (\<lambda>c. c \<noteq> cr \<and> c \<noteq> lf) s)"

subsection \<open>Decoding what was encoded\<close>

lemma byte_val_less [simp]: "byte_val c < 256"
  by (simp add: byte_val_def)

lemma byte_val_high [simp]: "byte_val c div 16 < 16" "byte_val c div 64 < 4"
  by (rule less_mult_imp_div_less, simp)+

lemma val_byte_byte_val [simp]: "val_byte (byte_val c) = c"
  by (simp add: byte_val_def val_byte_def)

lemma byte_val_val_byte: "n < 256 \<Longrightarrow> byte_val (val_byte n) = n"
  by (simp add: byte_val_def val_byte_def)

lemma index_of_nth: "distinct xs \<Longrightarrow> n < length xs \<Longrightarrow> index_of (xs ! n) xs = Some n"
proof (induction xs arbitrary: n)
  case (Cons x xs)
  then show ?case by (cases n) (auto simp: nth_mem)
qed simp

lemma alphabet: "distinct base64_alphabet" "length base64_alphabet = 64"
  "set base64_alphabet \<inter> {CHR ''='', cr, lf} = {}"
  by (simp_all add: base64_alphabet_def)

lemma base64_value_char [simp]: "n < 64 \<Longrightarrow> base64_value (base64_char n) = Some n"
  by (simp add: base64_value_def base64_char_def index_of_nth alphabet)

lemma base64_char_plain: "n < 64 \<Longrightarrow> base64_char n \<notin> {CHR ''='', cr, lf}"
proof -
  assume "n < 64"
  then have "base64_char n \<in> set base64_alphabet" by (simp add: base64_char_def alphabet)
  with alphabet(3) show ?thesis by blast
qed

lemma digits_of_bytes:
  fixes a b c :: nat
  assumes "a < 256" "b < 256" "c < 256"
  shows "a div 4 < 64" "a mod 4 * 16 + b div 16 < 64" "b mod 16 * 4 + c div 64 < 64" "c mod 64 < 64"
    "a mod 4 * 16 < 64" "b mod 16 * 4 < 64"
  using assms by auto

lemma bytes_of_digits:
  fixes a b c :: nat
  assumes "b < 256" "c < 256"
  shows "a div 4 * 4 + (a mod 4 * 16 + b div 16) div 16 = a"
    and "(a mod 4 * 16 + b div 16) mod 16 * 16 + (b mod 16 * 4 + c div 64) div 4 = b"
    and "(b mod 16 * 4 + c div 64) mod 4 * 64 + c mod 64 = c"
proof -
  have "b div 16 < 16" "c div 64 < 4" using assms by auto
  then have "(a mod 4 * 16 + b div 16) div 16 = a mod 4" "(a mod 4 * 16 + b div 16) mod 16 = b div 16"
    "(b mod 16 * 4 + c div 64) div 4 = b mod 16" "(b mod 16 * 4 + c div 64) mod 4 = c div 64"
    by simp_all
  then show "a div 4 * 4 + (a mod 4 * 16 + b div 16) div 16 = a"
    and "(a mod 4 * 16 + b div 16) mod 16 * 16 + (b mod 16 * 4 + c div 64) div 4 = b"
    and "(b mod 16 * 4 + c div 64) mod 4 * 64 + c mod 64 = c"
    by simp_all
qed

lemma base64_decode_groups_encode: "base64_decode_groups (base64_encode s) = Some s"
proof (induction s rule: base64_encode.induct)
  case (1 a b c s)
  note d = digits_of_bytes[OF byte_val_less[of a] byte_val_less[of b] byte_val_less[of c]]
  from 1 show ?case
    using base64_char_plain[OF d(3)] base64_char_plain[OF d(4)]
    by (simp add: d bytes_of_digits)
next
  case (2 a b)
  note d = digits_of_bytes[OF byte_val_less[of a] byte_val_less[of b] byte_val_less[of a]]
  show ?case
    using base64_char_plain[OF d(6)] by (simp add: d)
next
  case (3 a)
  note d = digits_of_bytes[OF byte_val_less[of a] byte_val_less[of a] byte_val_less[of a]]
  show ?case by (simp add: d)
qed simp

lemma base64_encode_plain: "c \<in> set (base64_encode s) \<Longrightarrow> c \<notin> {cr, lf}"
proof (induction s rule: base64_encode.induct)
  case (1 a b d s)
  note e = digits_of_bytes[OF byte_val_less[of a] byte_val_less[of b] byte_val_less[of d]]
  from 1 show ?case using e[THEN base64_char_plain] by auto
next
  case (2 a b)
  note e = digits_of_bytes[OF byte_val_less[of a] byte_val_less[of b] byte_val_less[of a]]
  from 2 show ?case using e[THEN base64_char_plain] by auto
next
  case (3 a)
  note e = digits_of_bytes[OF byte_val_less[of a] byte_val_less[of a] byte_val_less[of a]]
  from 3 show ?case using e[THEN base64_char_plain] by auto
qed simp

theorem base64_decode_encode: "base64_decode (base64_encode s) = Some s"
proof -
  have "filter (\<lambda>c. c \<noteq> cr \<and> c \<noteq> lf) (base64_encode s) = base64_encode s"
    using base64_encode_plain[of _ s] by (auto simp: filter_id_conv)
  then show ?thesis by (simp add: base64_decode_def base64_decode_groups_encode)
qed

lemma length_base64_encode: "length (base64_encode s) = (length s + 2) div 3 * 4"
  by (induction s rule: base64_encode.induct) (simp_all, presburger)

section \<open>SHA-1\<close>

type_synonym sha1_state = "32 word \<times> 32 word \<times> 32 word \<times> 32 word \<times> 32 word"

definition rotate_left :: "nat \<Rightarrow> 32 word \<Rightarrow> 32 word" where
  "rotate_left k x = push_bit k x OR drop_bit (32 - k) x"

definition be_bytes :: "nat \<Rightarrow> nat \<Rightarrow> bytes" where
  "be_bytes k n = map (\<lambda>i. val_byte (n div 256 ^ (k - 1 - i) mod 256)) [0..<k]"

text \<open>The message, a one bit, zeroes up to 56 modulo 64, and the length in bits on eight bytes.\<close>

definition sha1_pad :: "bytes \<Rightarrow> bytes" where
  "sha1_pad s = s @ [val_byte 128] @ replicate ((119 - length s mod 64) mod 64) (val_byte 0) @
     be_bytes 8 (8 * length s mod 2 ^ 64)"

fun be_words :: "bytes \<Rightarrow> 32 word list" where
  "be_words (a # b # c # d # s) =
     of_nat (((byte_val a * 256 + byte_val b) * 256 + byte_val c) * 256 + byte_val d) # be_words s"
| "be_words _ = []"

definition sha1_f :: "nat \<Rightarrow> 32 word \<Rightarrow> 32 word \<Rightarrow> 32 word \<Rightarrow> 32 word" where
  "sha1_f t b c d =
     (if t < 20 then (b AND c) OR (NOT b AND d)
      else if t < 40 then (b XOR c) XOR d
      else if t < 60 then ((b OR c) AND d) OR (b AND c)
      else (b XOR c) XOR d)"

definition sha1_k :: "nat \<Rightarrow> 32 word" where
  "sha1_k t = (if t < 20 then 0x5A827999 else if t < 40 then 0x6ED9EBA1
     else if t < 60 then 0x8F1BBCDC else 0xCA62C1D6)"

text \<open>
  The rounds from \<open>t\<close> on. As in Go's generic block function, only sixteen words of the message
  schedule are kept: those of the rounds \<open>t\<close> to \<open>t + 15\<close>.
\<close>

definition sha1_next :: "32 word list \<Rightarrow> 32 word list" where
  "sha1_next ws = tl ws @ [rotate_left 1 (((ws ! 13 XOR ws ! 8) XOR ws ! 2) XOR ws ! 0)]"

definition sha1_step :: "nat \<Rightarrow> 32 word list \<times> sha1_state \<Rightarrow> 32 word list \<times> sha1_state" where
  "sha1_step t x =
     (case x of (ws, (a, b, c, d, e)) \<Rightarrow>
        (sha1_next ws,
         (rotate_left 5 a + sha1_f t b c d + e + hd ws + sha1_k t, a, rotate_left 30 b, c, d)))"

fun sha1_rounds :: "nat \<Rightarrow> nat \<Rightarrow> 32 word list \<times> sha1_state \<Rightarrow> 32 word list \<times> sha1_state" where
  "sha1_rounds 0 t x = x"
| "sha1_rounds (Suc n) t x = sha1_rounds n (t + 1) (sha1_step t x)"

definition sha1_block :: "sha1_state \<Rightarrow> 32 word list \<Rightarrow> sha1_state" where
  "sha1_block h ws =
     (case (h, snd (sha1_rounds 80 0 (ws, h))) of
        ((h0, h1, h2, h3, h4), (a, b, c, d, e)) \<Rightarrow> (h0 + a, h1 + b, h2 + c, h3 + d, h4 + e))"

function sha1_blocks :: "sha1_state \<Rightarrow> 32 word list \<Rightarrow> sha1_state" where
  "sha1_blocks h ws = (if ws = [] then h else sha1_blocks (sha1_block h (take 16 ws)) (drop 16 ws))"
  by pat_completeness auto
termination by (relation "measure (\<lambda>(_, ws). length ws)") auto

declare sha1_blocks.simps [simp del]

definition sha1_init :: sha1_state where
  "sha1_init = (0x67452301, 0xEFCDAB89, 0x98BADCFE, 0x10325476, 0xC3D2E1F0)"

definition sha1_sum :: "bytes \<Rightarrow> bytes" where
  "sha1_sum s =
     (case sha1_blocks sha1_init (be_words (sha1_pad s)) of
        (a, b, c, d, e) \<Rightarrow> concat (map (\<lambda>h. be_bytes 4 (unat h)) [a, b, c, d, e]))"

section \<open>Evaluation\<close>

lemma sha1_rounds_add: "sha1_rounds (m + n) t x = sha1_rounds n (t + m) (sha1_rounds m t x)"
  by (induction m arbitrary: t x) (simp_all split: prod.splits)

lemma sha1_rounds_numeral:
  "sha1_rounds (numeral n) t x = sha1_rounds (pred_numeral n) (t + 1) (sha1_step t x)"
  by (simp add: numeral_eq_Suc)

lemma sha1_rounds_80:
  "sha1_rounds 80 0 x =
     sha1_rounds 20 60 (sha1_rounds 20 40 (sha1_rounds 20 20 (sha1_rounds 20 0 x)))"
  using sha1_rounds_add[of 20 60 0 x] sha1_rounds_add[of 20 40 20] sha1_rounds_add[of 20 20 40] by simp

lemma replicate_numeral: "replicate (numeral n) x = x # replicate (pred_numeral n) x"
  by (simp add: numeral_eq_Suc)

lemmas sha1_eval = sha1_rounds_numeral sha1_step_def sha1_next_def sha1_f_def sha1_k_def rotate_left_def

text \<open>
  The handshake key of RFC 6455, section 1.3, followed by the protocol's GUID: two blocks,
  evaluated by twenty rounds at a time.
\<close>

lemma sample_key_words:
  "be_words (sha1_pad ''dGhlIHNhbXBsZSBub25jZQ==258EAFA5-E914-47DA-95CA-C5AB0DC85B11'') =
     [0x6447686C, 0x49484E68, 0x62584273, 0x5A534275, 0x6232356A, 0x5A513D3D, 0x32353845,
      0x41464135, 0x2D453931, 0x342D3437, 0x44412D39, 0x3543412D, 0x43354142, 0x30444338,
      0x35423131, 0x80000000, 0x00000000, 0x00000000, 0x00000000, 0x00000000, 0x00000000,
      0x00000000, 0x00000000, 0x00000000, 0x00000000, 0x00000000, 0x00000000, 0x00000000,
      0x00000000, 0x00000000, 0x00000000, 0x000001E0]"
  by (simp add: sha1_pad_def be_bytes_def val_byte_def byte_val_def upt_rec replicate_numeral)

lemma sample_key_rounds_11:
  "sha1_rounds 20 0
     ([0x6447686C, 0x49484E68, 0x62584273, 0x5A534275, 0x6232356A, 0x5A513D3D, 0x32353845,
       0x41464135, 0x2D453931, 0x342D3437, 0x44412D39, 0x3543412D, 0x43354142, 0x30444338,
       0x35423131, 0x80000000],
      (0x67452301, 0xEFCDAB89, 0x98BADCFE, 0x10325476, 0xC3D2E1F0)) =
     ([0x6FB4BCB6, 0x460B16E3, 0x599219AE, 0x35BF9369, 0x3267458E, 0xF828FD04, 0x753A96A7,
       0x6336F612, 0xC3D66383, 0x06EB86F9, 0x73B4FD42, 0xA503C5B8, 0x15CDAE35, 0x531E5DC5,
       0x6FB6B7D0, 0x6C16E4AC],
      (0x091AB97C, 0x8DC510B6, 0xDFAECA5A, 0x75F6BD5D, 0x2801311A))"
  by (simp add: sha1_eval)

lemma sample_key_rounds_12:
  "sha1_rounds 20 20
     ([0x6FB4BCB6, 0x460B16E3, 0x599219AE, 0x35BF9369, 0x3267458E, 0xF828FD04, 0x753A96A7,
       0x6336F612, 0xC3D66383, 0x06EB86F9, 0x73B4FD42, 0xA503C5B8, 0x15CDAE35, 0x531E5DC5,
       0x6FB6B7D0, 0x6C16E4AC],
      (0x091AB97C, 0x8DC510B6, 0xDFAECA5A, 0x75F6BD5D, 0x2801311A)) =
     ([0xCE8628B4, 0x415DBA9E, 0x2792F049, 0x8E9B79E7, 0x79C425C5, 0x6353B49D, 0x00994218,
       0x8A950ED1, 0xAF5D0B99, 0xFD9883DE, 0x1ED8FFEB, 0xF007FF28, 0x425E3674, 0x059631C0,
       0xAD6C3C31, 0x860B71D7],
      (0x2BA2C83E, 0xD0869081, 0x1A1D8209, 0xD3334889, 0x2779E4F2))"
  by (simp add: sha1_eval)

lemma sample_key_rounds_13:
  "sha1_rounds 20 40
     ([0xCE8628B4, 0x415DBA9E, 0x2792F049, 0x8E9B79E7, 0x79C425C5, 0x6353B49D, 0x00994218,
       0x8A950ED1, 0xAF5D0B99, 0xFD9883DE, 0x1ED8FFEB, 0xF007FF28, 0x425E3674, 0x059631C0,
       0xAD6C3C31, 0x860B71D7],
      (0x2BA2C83E, 0xD0869081, 0x1A1D8209, 0xD3334889, 0x2779E4F2)) =
     ([0x0ACF5108, 0xC2B479DA, 0x6C93370A, 0xF7935BA1, 0xE91C91C1, 0xBED165A2, 0x4C3E4ABE,
       0x50D96238, 0xB6587DDE, 0x1A2EE6E6, 0x2D335896, 0xF3495D0B, 0xF30E0A1D, 0x32CE5459,
       0x7165E3B8, 0xAB05FF94],
      (0x4872D85A, 0xD284F163, 0x83091F0B, 0x1BBDBFBD, 0x9F8490BC))"
  by (simp add: sha1_eval)

lemma sample_key_rounds_14:
  "sha1_rounds 20 60
     ([0x0ACF5108, 0xC2B479DA, 0x6C93370A, 0xF7935BA1, 0xE91C91C1, 0xBED165A2, 0x4C3E4ABE,
       0x50D96238, 0xB6587DDE, 0x1A2EE6E6, 0x2D335896, 0xF3495D0B, 0xF30E0A1D, 0x32CE5459,
       0x7165E3B8, 0xAB05FF94],
      (0x4872D85A, 0xD284F163, 0x83091F0B, 0x1BBDBFBD, 0x9F8490BC)) =
     ([0xD5E93E51, 0xB768A0A3, 0xE87859BC, 0x68368A36, 0xD32E35C1, 0x7B8F5837, 0x62F3B65F,
       0xDB2D892B, 0x581B1F86, 0x98A17A62, 0x0F495849, 0x4FE048DC, 0x12D3A675, 0x6E436C64,
       0xFF118681, 0x0352EFF7],
      (0xF48A5426, 0x835995E1, 0x25C11EFB, 0x4A45C402, 0x9A73C2F2))"
  by (simp add: sha1_eval)

lemma sample_key_rounds_21:
  "sha1_rounds 20 0
     ([0x00000000, 0x00000000, 0x00000000, 0x00000000, 0x00000000, 0x00000000, 0x00000000,
       0x00000000, 0x00000000, 0x00000000, 0x00000000, 0x00000000, 0x00000000, 0x00000000,
       0x00000000, 0x000001E0],
      (0x5BCF7727, 0x7327416A, 0xBE7BFBF9, 0x5A781878, 0x5E46A4E2)) =
     ([0x00000000, 0x00000780, 0x00000000, 0x000003C0, 0x00000F00, 0x00000000, 0x00000000,
       0x00001E00, 0x00000000, 0x00000CC0, 0x00003C00, 0x00000440, 0x00000000, 0x00007800,
       0x00000F00, 0x00003300],
      (0x2A008B51, 0x2F193A09, 0x9C8663C1, 0x8EB5D103, 0x261B7C9A))"
  by (simp add: sha1_eval)

lemma sample_key_rounds_22:
  "sha1_rounds 20 20
     ([0x00000000, 0x00000780, 0x00000000, 0x000003C0, 0x00000F00, 0x00000000, 0x00000000,
       0x00001E00, 0x00000000, 0x00000CC0, 0x00003C00, 0x00000440, 0x00000000, 0x00007800,
       0x00000F00, 0x00003300],
      (0x2A008B51, 0x2F193A09, 0x9C8663C1, 0x8EB5D103, 0x261B7C9A)) =
     ([0x00000000, 0x0000CC00, 0x0003C000, 0x00004380, 0x00000000, 0x00078F00, 0x0000FF00,
       0x00032680, 0x000F0000, 0x0000F000, 0x00003300, 0x001EFF00, 0x00000000, 0x000CB800,
       0x003C0000, 0x00040B00],
      (0x6F698F1A, 0xC6FF0CD3, 0xDE5AB7BC, 0x5F6F3CBB, 0x1DA48A85))"
  by (simp add: sha1_eval)

lemma sample_key_rounds_23:
  "sha1_rounds 20 40
     ([0x00000000, 0x0000CC00, 0x0003C000, 0x00004380, 0x00000000, 0x00078F00, 0x0000FF00,
       0x00032680, 0x000F0000, 0x0000F000, 0x00003300, 0x001EFF00, 0x00000000, 0x000CB800,
       0x003C0000, 0x00040B00],
      (0x6F698F1A, 0xC6FF0CD3, 0xDE5AB7BC, 0x5F6F3CBB, 0x1DA48A85)) =
     ([0x00F00000, 0x000FC300, 0x0000F000, 0x01EFBB00, 0x00000000, 0x00CC0000, 0x03C0F000,
       0x00438000, 0x00000000, 0x078F0000, 0x00FF0000, 0x03269E00, 0x0F000000, 0x00F0F000,
       0x00333C00, 0x1EFF8800],
      (0x56119F19, 0x085EB2FE, 0x484A25C5, 0xC140CFE8, 0x686DA050))"
  by (simp add: sha1_eval)

lemma sample_key_rounds_24:
  "sha1_rounds 20 60
     ([0x00F00000, 0x000FC300, 0x0000F000, 0x01EFBB00, 0x00000000, 0x00CC0000, 0x03C0F000,
       0x00438000, 0x00000000, 0x078F0000, 0x00FF0000, 0x03269E00, 0x0F000000, 0x00F0F000,
       0x00333C00, 0x1EFF8800],
      (0x56119F19, 0x085EB2FE, 0x484A25C5, 0xC140CFE8, 0x686DA050)) =
     ([0x00F0F000, 0x78FF0000, 0x0FF30C00, 0x3387F000, 0xF0000000, 0x0FC43400, 0x00F00000,
       0xEFB84801, 0x000FF000, 0xCC00F000, 0xC0F0F003, 0x439E0000, 0x00000000, 0x8F0C0C07,
       0xFF3C0000, 0x269A0403],
      (0x57AAD805, 0x4D3B0DAC, 0xD27A4A0D, 0x74C040CD, 0x54782008))"
  by (simp add: sha1_eval)

lemma sample_key_block_1:
  "sha1_block sha1_init
     [0x6447686C, 0x49484E68, 0x62584273, 0x5A534275, 0x6232356A, 0x5A513D3D, 0x32353845,
      0x41464135, 0x2D453931, 0x342D3437, 0x44412D39, 0x3543412D, 0x43354142, 0x30444338,
      0x35423131, 0x80000000] =
   (0x5BCF7727, 0x7327416A, 0xBE7BFBF9, 0x5A781878, 0x5E46A4E2)"
  by (simp add: sha1_block_def sha1_init_def sha1_rounds_80 sample_key_rounds_11 sample_key_rounds_12
      sample_key_rounds_13 sample_key_rounds_14)

lemma sample_key_block_2:
  "sha1_block (0x5BCF7727, 0x7327416A, 0xBE7BFBF9, 0x5A781878, 0x5E46A4E2)
     [0x00000000, 0x00000000, 0x00000000, 0x00000000, 0x00000000, 0x00000000, 0x00000000,
      0x00000000, 0x00000000, 0x00000000, 0x00000000, 0x00000000, 0x00000000, 0x00000000,
      0x00000000, 0x000001E0] =
   (0xB37A4F2C, 0xC0624F16, 0x90F64606, 0xCF385945, 0xB2BEC4EA)"
  by (simp add: sha1_block_def sha1_rounds_80 sample_key_rounds_21 sample_key_rounds_22
      sample_key_rounds_23 sample_key_rounds_24)

lemma sample_key_sum:
  "sha1_sum ''dGhlIHNhbXBsZSBub25jZQ==258EAFA5-E914-47DA-95CA-C5AB0DC85B11'' =
     map val_byte [179, 122, 79, 44, 192, 98, 79, 22, 144, 246, 70, 6, 207, 56, 89, 69, 178, 190, 196, 234]"
  by (simp add: sha1_sum_def sample_key_words sha1_blocks.simps sample_key_block_1 sample_key_block_2
      be_bytes_def upt_rec)

lemma sample_key_accept:
  "base64_encode (sha1_sum ''dGhlIHNhbXBsZSBub25jZQ==258EAFA5-E914-47DA-95CA-C5AB0DC85B11'') =
     ''s3pPLMBiTxaQ9kYGzzhZRbK+xOo=''"
  by (simp add: sample_key_sum byte_val_val_byte base64_char_def base64_alphabet_def)

end
