(* ===== verification/WebSocket.thy ===== *)
theory WebSocket
  imports Handler_Facts Encoding
begin

text \<open>
  The WebSocket opening handshake (httpserver/websocket.go): when it is accepted, what the
  response is, and what a connection sends when an application accepts it.
\<close>

section \<open>The code\<close>

definition web_socket_guid :: bytes where
  "web_socket_guid = ''258EAFA5-E914-47DA-95CA-C5AB0DC85B11''"

fun header_equals :: "header_field list \<Rightarrow> bytes \<Rightarrow> bytes \<Rightarrow> bool" where
  "header_equals [] name val = False"
| "header_equals (h # hs) name val =
     (if equal_fold (hname h) name \<and> equal_fold (trim (hvalue h) [sp, tab]) val then True
      else header_equals hs name val)"

text \<open>Every refusal wraps the one error value; the text that it adds is not modelled.\<close>

definition web_socket_accept_value :: "http_request \<Rightarrow> app_err + bytes" where
  "web_socket_accept_value req =
     (if \<not> equal_fold (rl_method (request_line req)) ''GET'' then Inl ErrInvalidWebSocketUpgrade
      else if rl_version (request_line req) \<noteq> ''HTTP/1.1'' then Inl ErrInvalidWebSocketUpgrade
      else if \<not> header_has_token (req_headers req) ''Connection'' ''Upgrade'' then Inl ErrInvalidWebSocketUpgrade
      else if \<not> header_equals (req_headers req) ''Upgrade'' ''websocket'' then Inl ErrInvalidWebSocketUpgrade
      else if header_value_fold (req_headers req) ''Sec-WebSocket-Version'' \<noteq> ''13'' then Inl ErrInvalidWebSocketUpgrade
      else
        let key = trim (header_value_fold (req_headers req) ''Sec-WebSocket-Key'') [sp, tab] in
        (case base64_decode key of
           None \<Rightarrow> Inl ErrInvalidWebSocketUpgrade
         | Some decoded \<Rightarrow>
             if length decoded \<noteq> 16 then Inl ErrInvalidWebSocketUpgrade
             else Inr (base64_encode (sha1_sum (key @ web_socket_guid)))))"

definition accept_web_socket :: "resp_writer \<Rightarrow> request \<Rightarrow> resp_writer \<times> app_err option" where
  "accept_web_socket w r =
     (case web_socket_accept_value (req_http r) of
        Inl err \<Rightarrow> (w, Some err)
      | Inr accept \<Rightarrow>
          let w1 = write_header 101 w;
              w2 = set_header ''Upgrade'' ''websocket'' w1;
              w3 = set_header ''Connection'' ''Upgrade'' w2
          in (set_header ''Sec-WebSocket-Accept'' accept w3, None))"

section \<open>The handshake as the protocol states it\<close>

text \<open>
  A request opens a WebSocket connection with \<open>nonce\<close> (RFC 6455, section 4.2.1): a GET request of
  HTTP/1.1 whose Connection header lists Upgrade, whose Upgrade header is websocket, with
  version 13 and the nonce of 16 bytes as its key.
\<close>

definition opens_web_socket :: "http_request \<Rightarrow> bytes \<Rightarrow> bool" where
  "opens_web_socket req nonce \<longleftrightarrow>
     equal_fold (rl_method (request_line req)) ''GET'' \<and> rl_version (request_line req) = ''HTTP/1.1'' \<and>
     header_has_token (req_headers req) ''Connection'' ''Upgrade'' \<and>
     (\<exists>v\<in>set (field_values (req_headers req) ''Upgrade''). equal_fold (trim v [sp, tab]) ''websocket'') \<and>
     (\<exists>vs. field_values (req_headers req) ''Sec-WebSocket-Version'' = ''13'' # vs) \<and>
     (\<exists>k vs. field_values (req_headers req) ''Sec-WebSocket-Key'' = k # vs \<and>
        trim k [sp, tab] = base64_encode nonce) \<and>
     length nonce = 16"

definition accept_key :: "bytes \<Rightarrow> bytes" where
  "accept_key nonce = base64_encode (sha1_sum (base64_encode nonce @ ''258EAFA5-E914-47DA-95CA-C5AB0DC85B11''))"

lemma header_equals_iff:
  "header_equals hs name val \<longleftrightarrow> (\<exists>v\<in>set (field_values hs name). equal_fold (trim v [sp, tab]) val)"
  by (induction hs) auto

lemma opened_accept_value:
  assumes "opens_web_socket req nonce"
  shows "web_socket_accept_value req = Inr (accept_key nonce)"
proof -
  have "header_value_fold (req_headers req) ''Sec-WebSocket-Version'' = ''13''"
    "trim (header_value_fold (req_headers req) ''Sec-WebSocket-Key'') [sp, tab] = base64_encode nonce"
    using assms by (auto simp: opens_web_socket_def header_value_fold_values)
  with assms show ?thesis
    by (simp add: web_socket_accept_value_def opens_web_socket_def header_equals_iff base64_decode_encode
        accept_key_def web_socket_guid_def)
qed

lemma refused_unchanged: "accept_web_socket w r = (w', Some e) \<Longrightarrow> w' = w \<and> e = ErrInvalidWebSocketUpgrade"
  by (auto simp: accept_web_socket_def web_socket_accept_value_def Let_def split: sum.splits if_splits option.splits)

definition handshake_headers :: "bytes \<Rightarrow> header_field list" where
  "handshake_headers accept = [HeaderField ''Upgrade'' ''websocket'', HeaderField ''Connection'' ''Upgrade'',
     HeaderField ''Sec-WebSocket-Accept'' accept]"

definition handshake_response :: "bytes \<Rightarrow> response" where
  "handshake_response accept = zero_response\<lparr>resp_status := 101, resp_headers := handshake_headers accept\<rparr>"

lemma accepted_response:
  assumes "web_socket_accept_value (req_http r) = Inr accept"
  shows "snd (accept_web_socket (Buffered new_buffered_writer) r) = None"
    and "buffered_response (buffer_of (fst (accept_web_socket (Buffered new_buffered_writer) r))) = handshake_response accept"
proof -
  have names: "\<not> equal_fold ''Upgrade'' ''Connection''" "\<not> equal_fold ''Upgrade'' ''Sec-WebSocket-Accept''"
    "\<not> equal_fold ''Connection'' ''Sec-WebSocket-Accept''" by code_simp+
  show "snd (accept_web_socket (Buffered new_buffered_writer) r) = None"
    using assms by (simp add: accept_web_socket_def Let_def)
  show "buffered_response (buffer_of (fst (accept_web_socket (Buffered new_buffered_writer) r))) = handshake_response accept"
    using assms names
    by (simp add: accept_web_socket_def Let_def layered.laws buffered_write_header_def buffered_set_header_def
        buffered_add_header_def new_buffered_writer_def buffered_response_def handshake_response_def
        handshake_headers_def zero_response_def)
qed

section \<open>On a connection\<close>

lemma handshake_head:
  assumes "\<not> contains_any accept [cr, lf]"
  shows "sendable (handshake_response accept)"
    and "message_bytes (handshake_response accept) =
      ''HTTP/1.1 101 Switching Protocols'' @ crlf @ ''Upgrade: websocket'' @ crlf @ ''Connection: Upgrade'' @ crlf @
      ''Sec-WebSocket-Accept: '' @ accept @ crlf @ crlf"
proof -
  let ?r = "handshake_response accept"
  have parts: "resp_status ?r = 101" "resp_reader ?r = None" "resp_chunked ?r = False" "resp_version ?r = []"
      "resp_reason ?r = []" "resp_headers ?r = handshake_headers accept"
    by (simp_all add: handshake_response_def zero_response_def)
  have body: "\<not> status_allows_body 101" by (simp add: status_allows_body_def)
  have reason: "\<not> contains_any ''Switching Protocols'' [cr, lf]" by code_simp
  have names: "\<not> equal_fold ''Upgrade'' ''Content-Length''" "\<not> equal_fold ''Connection'' ''Content-Length''"
    "\<not> equal_fold ''Sec-WebSocket-Accept'' ''Content-Length''" by code_simp+
  have kept: "kept_headers ?r = handshake_headers accept"
    by (simp add: kept_headers_def parts skipped_header_def handshake_headers_def names)
  have fields: "\<forall>h\<in>set (handshake_headers accept). sendable_field h"
    using assms by (simp add: handshake_headers_def sendable_field_def)
  show s: "sendable ?r"
    by (simp add: sendable_def passes_checks_def parts effective_version_def effective_reason_def kept fields body
        status_text_def reason)
  obtain p where p: "message_bytes ?r = head_bytes ?r @ p" "payload_framed ?r p" using message_bytes_head[OF s] .
  have "p = []" using p(2) body by (simp add: payload_framed_def parts)
  moreover have "format_int 101 = ''101''" by code_simp
  ultimately show "message_bytes ?r =
      ''HTTP/1.1 101 Switching Protocols'' @ crlf @ ''Upgrade: websocket'' @ crlf @ ''Connection: Upgrade'' @ crlf @
      ''Sec-WebSocket-Accept: '' @ accept @ crlf @ crlf"
    using p(1) body
    by (simp add: head_bytes_def status_line_def effective_version_def effective_reason_def parts kept
        framing_headers_def handshake_headers_def render_field_def lines_bytes_def status_text_def)
qed

lemma accept_key_plain: "\<not> contains_any (accept_key nonce) [cr, lf]"
  using base64_encode_plain by (auto simp: accept_key_def contains_any_set)

text \<open>The application of docs/websocket-upgrade.md, and a handler configuration around it.\<close>

definition upgrade_app :: handler where
  "upgrade_app w r s =
     (case accept_web_socket w r of
        (w1, Some e) \<Rightarrow> (Returned, write_header 400 w1, s)
      | (w1, None) \<Rightarrow> (Returned, w1, s))"

lemma upgrade_reply:
  assumes "app h = Some upgrade_app" "middlewares h = []" "opens_web_socket req nonce"
  shows "response_for_request h ctx (Inr req) s =
    (Inr (handshake_response (accept_key nonce), should_close_connection req), s)"
proof -
  let ?r = "\<lparr>req_context = ctx, req_http = req, req_params = None\<rparr>"
  have v: "web_socket_accept_value (req_http ?r) = Inr (accept_key nonce)"
    using opened_accept_value[OF assms(3)] by simp
  obtain w where w: "accept_web_socket (Buffered new_buffered_writer) ?r = (w, None)"
    using accepted_response(1)[OF v] by (metis prod.collapse)
  then show ?thesis
    using accepted_response(2)[OF v] assms(1, 2)
    by (simp add: response_for_request_def app_handler_def chain_def upgrade_app_def)
qed

text \<open>
  C22. A client that opens a WebSocket connection with a nonce gets exactly the 101 response of the
  protocol, with the accept key computed from its nonce, and then the connection is given up by
  the HTTP code: none of the bytes after the request are read as HTTP.
\<close>

theorem web_socket_switch:
  assumes "app h = Some upgrade_app" "middlewares h = []"
    and "\<not> src_eager src" "src_bytes src = render_request req @ frames"
    and "well_formed_request (handler_max_line h) (handler_limits h) req"
    and "opens_web_socket req nonce" "\<not> should_close_connection req" "sink_room out = None"
  shows "\<exists>c' s'. serve_conn h ctx src out [] s = Some (ConnDone, c', s') \<and> unread (conn_in c') = frames \<and>
    sink_sent (conn_out c') = sink_sent out @
      ''HTTP/1.1 101 Switching Protocols'' @ crlf @ ''Upgrade: websocket'' @ crlf @ ''Connection: Upgrade'' @ crlf @
      ''Sec-WebSocket-Accept: '' @ accept_key nonce @ crlf @ crlf"
proof -
  let ?c = "open_conn h src out []"
  have c: "deadline_results ?c = []" "sink_room (conn_out ?c) = None" "plain_reader (conn_in ?c)"
      "max_line (conn_in ?c) = handler_max_line h" "unread (conn_in ?c) = render_request req @ frames"
    using assms(3, 4, 8) by (simp_all add: open_conn_def new_line_reader_def plain_reader_def unread_def)
  obtain rd where rd: "read_http_request (handler_limits h) (conn_in ?c) = Some (Inr req, rd)" "unread rd = frames"
    using well_formed_read[OF assms(5) c(3-5)] by blast
  note reply = upgrade_reply[OF assms(1, 2, 6), of ctx "before_request h s"]
  note hs = handshake_head[OF accept_key_plain[of nonce]]
  let ?resp = "handshake_response (accept_key nonce)"
  have "resp_status ?resp = 101" by (simp add: handshake_response_def zero_response_def)
  then have "serve_conn h ctx src out [] s =
      Some (ConnDone, after_sending ?c rd ?resp, after_reply h ?resp (before_request h s))"
    using serve_turn_answers[OF c(1, 2) rd(1) reply] assms(7) hs(1)
    by (simp add: serve_conn_def serve_loop.simps[of h ctx ?c] Let_def)
  moreover have "sink_sent (conn_out (after_sending ?c rd ?resp)) = sink_sent out @ message_bytes ?resp"
    "unread (conn_in (after_sending ?c rd ?resp)) = frames"
    by (simp_all add: after_sending_def open_conn_def rd(2))
  ultimately show ?thesis unfolding hs(2) by blast
qed

text \<open>The exchange of RFC 6455, section 1.3, followed by a frame.\<close>

definition sample_request :: http_request where
  "sample_request = \<lparr>request_line = \<lparr>rl_method = ''GET'', rl_target = ''/chat'', rl_version = ''HTTP/1.1''\<rparr>,
     req_headers = [HeaderField ''Host'' ''server.example.com'', HeaderField ''Upgrade'' ''websocket'',
       HeaderField ''Connection'' ''Upgrade'', HeaderField ''Sec-WebSocket-Key'' ''dGhlIHNhbXBsZSBub25jZQ=='',
       HeaderField ''Sec-WebSocket-Version'' ''13''], req_body = []\<rparr>"

definition sample_config :: handler_config where
  "sample_config = \<lparr>read_timeout = 0, write_timeout = 0, cfg_max_line = 0, cfg_max_headers = 0, cfg_max_body = 0,
     has_logger = True, app = Some upgrade_app, middlewares = []\<rparr>"

lemma sample_nonce: "base64_encode ''the sample nonce'' = ''dGhlIHNhbXBsZSBub25jZQ==''"
  by (simp add: byte_val_def base64_char_def base64_alphabet_def)

lemma sample_opens: "opens_web_socket sample_request ''the sample nonce''"
proof -
  have "header_has_token (req_headers sample_request) ''Connection'' ''Upgrade''"
    "field_values (req_headers sample_request) ''Upgrade'' = [''websocket'']"
    "field_values (req_headers sample_request) ''Sec-WebSocket-Version'' = [''13'']"
    "field_values (req_headers sample_request) ''Sec-WebSocket-Key'' = [''dGhlIHNhbXBsZSBub25jZQ=='']"
    "trim ''dGhlIHNhbXBsZSBub25jZQ=='' [sp, tab] = ''dGhlIHNhbXBsZSBub25jZQ==''"
    "trim ''websocket'' [sp, tab] = ''websocket''"
    "should_close_connection sample_request = False"
    by code_simp+
  then show ?thesis
    unfolding opens_web_socket_def sample_nonce by (simp add: sample_request_def)
qed

lemma sample_well_formed:
  "well_formed_request (handler_max_line sample_config) (handler_limits sample_config) sample_request"
proof -
  have "handler_max_line sample_config = 8192" "handler_limits sample_config = \<lparr>max_headers = 100, max_body = 1048576\<rparr>"
    by (simp_all add: sample_config_def handler_max_line_def handler_max_headers_def handler_max_body_def
        default_max_line_def default_max_headers_def default_max_body_def)
  moreover have "well_formed_request 8192 \<lparr>max_headers = 100, max_body = 1048576\<rparr> sample_request" by code_simp
  ultimately show ?thesis by simp
qed

theorem web_socket_switch_witness:
  "\<exists>c' s'. serve_conn sample_config None \<lparr>segs = [render_request sample_request, [CHR 0x81, CHR 0x80]],
      src_err = IoEOF, src_eager = False\<rparr> \<lparr>sink_sent = [], sink_room = None\<rparr> [] quiet_world = Some (ConnDone, c', s') \<and>
    unread (conn_in c') = [CHR 0x81, CHR 0x80] \<and>
    sink_sent (conn_out c') =
      ''HTTP/1.1 101 Switching Protocols'' @ crlf @ ''Upgrade: websocket'' @ crlf @ ''Connection: Upgrade'' @ crlf @
      ''Sec-WebSocket-Accept: s3pPLMBiTxaQ9kYGzzhZRbK+xOo='' @ crlf @ crlf"
proof -
  have key: "accept_key ''the sample nonce'' = ''s3pPLMBiTxaQ9kYGzzhZRbK+xOo=''"
    unfolding accept_key_def sample_nonce using sample_key_accept by simp
  have "\<not> should_close_connection sample_request" by code_simp
  then show ?thesis
    using web_socket_switch[OF _ _ _ _ sample_well_formed sample_opens,
        of "\<lparr>segs = [render_request sample_request, [CHR 0x81, CHR 0x80]], src_err = IoEOF, src_eager = False\<rparr>"
          "[CHR 0x81, CHR 0x80]" "\<lparr>sink_sent = [], sink_room = None\<rparr>" None quiet_world]
    by (simp add: key sample_config_def src_bytes_def)
qed

end
