(* ===== verification/Tcp_Server.thy ===== *)
theory Tcp_Server
  imports Response
begin

text \<open>
  The TCP server (tcpserver/server.go): accepting, tracking and serving connections, and the
  graceful shutdown, as an interleaving of the goroutines involved; and the echo loop that
  serves connections when there is no handler. Every event of \<open>exec_event\<close> is one atomic step of
  one goroutine: a critical section of the server's mutex, an operation of the wait group, a
  channel operation or a call on the listener or on a connection.
\<close>

section \<open>State\<close>

record tcp_config =
  tcp_addr :: bytes
  tcp_read_timeout :: int
  tcp_write_timeout :: int
  graceful_timeout :: int
  handler_workers :: int
  max_active_conns :: int

datatype track_result = TrackAccepted | TrackRejected | TrackShuttingDown

datatype serve_result = ServeNil | ServeErr

text \<open>
  Where the goroutine that runs \<open>Serve\<close> stands: in \<open>Accept\<close>; with a connection to track; about to
  close one that was rejected or came too late; handing one over to a worker; after a
  cancelled hand-over, having closed it, having deleted it; and in the deferred calls.
\<close>

datatype acceptor =
    AtAccept | HasConn nat | Rejecting nat | LateConn nat
  | HandOff nat | Cancelled nat | CancelledDeleted nat
  | Deferred serve_result | Draining serve_result | ServeReturned serve_result

text \<open>
  Where a goroutine or worker stands in \<open>serveTrackedConn\<close>: started, in the handler, about to run
  the deferred \<open>Close\<close>, about to delete the connection, about to call \<open>wg.Done\<close>, about to log.
\<close>

datatype task = TaskStarted | TaskServing | TaskHandled | TaskClosed | TaskDeleted | TaskTail

text \<open>The function under \<open>shutdownOnce\<close>, with the connections that \<open>closeActiveConns\<close> has still to close.\<close>

datatype shutdown_phase = ShIdle | ShBegun | ShWaiting | ShSnapshot | ShClosing "nat list" | ShWaitAll | ShDone

text \<open>
  Connections are numbered in the order they are accepted. \<open>closed_conns\<close> are those on which the
  server has called \<open>Close\<close>.
\<close>

record server_state =
  active_conns :: "nat set"
  wg :: int
  rejected_conns :: int
  shutting_down :: bool
  ctx_done :: bool
  listener_closed :: bool
  closed_conns :: "nat set"
  next_conn :: nat
  acceptor :: acceptor
  tasks :: "nat \<rightharpoonup> task"
  shutdown :: shutdown_phase

definition initial_server :: server_state where
  "initial_server = \<lparr>active_conns = {}, wg = 0, rejected_conns = 0, shutting_down = False, ctx_done = False,
     listener_closed = False, closed_conns = {}, next_conn = 0, acceptor = AtAccept, tasks = (\<lambda>_. None),
     shutdown = ShIdle\<rparr>"

section \<open>Operations\<close>

definition track_conn :: "tcp_config \<Rightarrow> nat \<Rightarrow> server_state \<Rightarrow> track_result \<times> server_state" where
  "track_conn cfg c s =
     (if shutting_down s then (TrackShuttingDown, s)
      else if 0 < max_active_conns cfg \<and> max_active_conns cfg \<le> int (card (active_conns s))
        then (TrackRejected, s\<lparr>rejected_conns := rejected_conns s + 1\<rparr>)
      else (TrackAccepted, s\<lparr>wg := wg s + 1, active_conns := insert c (active_conns s)\<rparr>))"

text \<open>The two halves of \<open>untrackConn\<close>.\<close>

definition untrack_delete :: "nat \<Rightarrow> server_state \<Rightarrow> server_state" where
  "untrack_delete c s = s\<lparr>active_conns := active_conns s - {c}\<rparr>"

definition untrack_done :: "server_state \<Rightarrow> server_state" where
  "untrack_done s = s\<lparr>wg := wg s - 1\<rparr>"

definition close_conn :: "nat \<Rightarrow> server_state \<Rightarrow> server_state" where
  "close_conn c s = s\<lparr>closed_conns := insert c (closed_conns s)\<rparr>"

definition begin_shutdown :: "server_state \<Rightarrow> server_state" where
  "begin_shutdown s = s\<lparr>shutting_down := True\<rparr>"

text \<open>
  \<open>Stats\<close>, with the number of goroutines that the runtime counts, and the line that \<open>logStats\<close>
  writes about them.
\<close>

record server_stats =
  active_connections :: int
  rejected_connections :: int
  goroutines :: int

definition stats :: "int \<Rightarrow> server_state \<Rightarrow> server_stats" where
  "stats num_goroutine s =
     \<lparr>active_connections = int (card (active_conns s)), rejected_connections = rejected_conns s,
      goroutines = num_goroutine\<rparr>"

definition stats_line :: "bytes \<Rightarrow> server_stats \<Rightarrow> bytes" where
  "stats_line event st =
     event @ '': active_connections='' @ format_int (active_connections st) @
     '' rejected_connections='' @ format_int (rejected_connections st) @ '' goroutines='' @ format_int (goroutines st)"

text \<open>
  \<open>WaitForIdle\<close>: the statistics it reads, each with whether the timer (else the ticker) ends the
  wait that follows; \<open>None\<close> when the wait has not ended yet.
\<close>

fun wait_for_idle_loop :: "(server_stats \<times> bool) list \<Rightarrow> bool option" where
  "wait_for_idle_loop [] = None"
| "wait_for_idle_loop ((st, timer) # rest) =
     (if active_connections st = 0 then Some True else if timer then Some False else wait_for_idle_loop rest)"

definition wait_for_idle :: "int \<Rightarrow> int \<Rightarrow> (server_stats \<times> bool) list \<Rightarrow> server_state \<Rightarrow> bool option" where
  "wait_for_idle num_goroutine timeout seen s =
     (if timeout \<le> 0 then Some (active_connections (stats num_goroutine s) = 0) else wait_for_idle_loop seen)"

section \<open>Steps\<close>

text \<open>One step of the accepting goroutine that does not wait for the listener, a worker or the context.\<close>

definition acceptor_step :: "tcp_config \<Rightarrow> server_state \<Rightarrow> server_state option" where
  "acceptor_step cfg s =
     (case acceptor s of
        HasConn c \<Rightarrow>
          (case track_conn cfg c s of
             (TrackAccepted, s1) \<Rightarrow>
               if 0 < handler_workers cfg then Some (s1\<lparr>acceptor := HandOff c\<rparr>)
               else Some (s1\<lparr>tasks := (tasks s1)(c \<mapsto> TaskStarted), acceptor := AtAccept\<rparr>)
           | (TrackRejected, s1) \<Rightarrow> Some (s1\<lparr>acceptor := Rejecting c\<rparr>)
           | (TrackShuttingDown, s1) \<Rightarrow> Some (s1\<lparr>acceptor := LateConn c\<rparr>))
      | Rejecting c \<Rightarrow> Some ((close_conn c s)\<lparr>acceptor := AtAccept\<rparr>)
      | LateConn c \<Rightarrow> Some ((close_conn c s)\<lparr>acceptor := Deferred ServeNil\<rparr>)
      | Cancelled c \<Rightarrow> Some ((untrack_delete c s)\<lparr>acceptor := CancelledDeleted c\<rparr>)
      | CancelledDeleted c \<Rightarrow> Some ((untrack_done s)\<lparr>acceptor := Deferred ServeNil\<rparr>)
      | Deferred r \<Rightarrow> if shutdown s = ShDone then Some (s\<lparr>acceptor := Draining r\<rparr>) else None
      | Draining r \<Rightarrow>
          if 0 < handler_workers cfg \<and> tasks s \<noteq> (\<lambda>_. None) then None
          else Some (s\<lparr>acceptor := ServeReturned r\<rparr>)
      | _ \<Rightarrow> None)"

text \<open>One step of the goroutine or worker that serves connection \<open>c\<close>; the handler may take any time.\<close>

definition task_step :: "nat \<Rightarrow> server_state \<Rightarrow> server_state option" where
  "task_step c s =
     (case tasks s c of
        None \<Rightarrow> None
      | Some TaskStarted \<Rightarrow> Some (s\<lparr>tasks := (tasks s)(c \<mapsto> TaskServing)\<rparr>)
      | Some TaskServing \<Rightarrow> Some (s\<lparr>tasks := (tasks s)(c \<mapsto> TaskHandled)\<rparr>)
      | Some TaskHandled \<Rightarrow> Some ((close_conn c s)\<lparr>tasks := (tasks s)(c \<mapsto> TaskClosed)\<rparr>)
      | Some TaskClosed \<Rightarrow> Some ((untrack_delete c s)\<lparr>tasks := (tasks s)(c \<mapsto> TaskDeleted)\<rparr>)
      | Some TaskDeleted \<Rightarrow> Some ((untrack_done s)\<lparr>tasks := (tasks s)(c \<mapsto> TaskTail)\<rparr>)
      | Some TaskTail \<Rightarrow> Some (s\<lparr>tasks := (tasks s)(c := None)\<rparr>))"

text \<open>
  \<open>waitForConns\<close> returns true only with the wait group at zero, and may return false at any time,
  by its timer or, without a grace period, at once; \<open>None\<close> is a wait that goes on.
\<close>

definition wait_for_conns :: "bool \<Rightarrow> server_state \<Rightarrow> bool option" where
  "wait_for_conns expired s = (if expired then Some False else if wg s = 0 then Some True else None)"

text \<open>
  \<open>closeActiveConns\<close> copies the set in the order of the map's iteration, which is \<open>cs\<close>, and then
  closes the connections one by one.
\<close>

definition close_active_conns :: "nat list \<Rightarrow> server_state \<Rightarrow> server_state option" where
  "close_active_conns cs s =
     (case shutdown s of
        ShSnapshot \<Rightarrow>
          if distinct cs \<and> set cs = active_conns s
          then Some (s\<lparr>shutting_down := True, shutdown := ShClosing cs\<rparr>) else None
      | ShClosing [] \<Rightarrow> Some (s\<lparr>shutdown := ShWaitAll\<rparr>)
      | ShClosing (d # ds) \<Rightarrow> Some ((close_conn d s)\<lparr>shutdown := ShClosing ds\<rparr>)
      | _ \<Rightarrow> None)"

text \<open>One step of the function under \<open>shutdownOnce\<close>, which has been entered.\<close>

definition shutdown_step :: "bool \<Rightarrow> nat list \<Rightarrow> server_state \<Rightarrow> server_state option" where
  "shutdown_step expired cs s =
     (case shutdown s of
        ShIdle \<Rightarrow> None
      | ShBegun \<Rightarrow> Some (s\<lparr>listener_closed := True, shutdown := ShWaiting\<rparr>)
      | ShWaiting \<Rightarrow>
          map_option (\<lambda>drained. s\<lparr>shutdown := (if drained then ShDone else ShSnapshot)\<rparr>) (wait_for_conns expired s)
      | ShWaitAll \<Rightarrow> if wg s = 0 then Some (s\<lparr>shutdown := ShDone\<rparr>) else None
      | ShDone \<Rightarrow> None
      | _ \<Rightarrow> close_active_conns cs s)"

text \<open>
  The events. The context is cancelled from outside; the listener delivers a connection unless
  it is closed, or fails; a hand-over takes an idle worker or a cancelled context; the shutdown
  function is entered once, by the watcher of the context or by the deferred call.
\<close>

datatype server_event =
    EvCancel | EvAccept | EvAcceptError | EvAcceptor | EvHandOff | EvHandOffCancel
  | EvTask nat | EvShutdownByWatcher | EvShutdownByServe | EvShutdown bool "nat list"

definition exec_event :: "tcp_config \<Rightarrow> server_event \<Rightarrow> server_state \<Rightarrow> server_state option" where
  "exec_event cfg e s =
     (case e of
        EvCancel \<Rightarrow> if ctx_done s then None else Some (s\<lparr>ctx_done := True\<rparr>)
      | EvAccept \<Rightarrow>
          if acceptor s = AtAccept \<and> \<not> listener_closed s
          then Some (s\<lparr>acceptor := HasConn (next_conn s), next_conn := Suc (next_conn s)\<rparr>) else None
      | EvAcceptError \<Rightarrow>
          if acceptor s = AtAccept
          then Some (s\<lparr>acceptor := Deferred (if ctx_done s then ServeNil else ServeErr)\<rparr>) else None
      | EvAcceptor \<Rightarrow> acceptor_step cfg s
      | EvHandOff \<Rightarrow>
          (case acceptor s of
             HandOff c \<Rightarrow>
               if int (card (dom (tasks s))) < handler_workers cfg
               then Some (s\<lparr>tasks := (tasks s)(c \<mapsto> TaskStarted), acceptor := AtAccept\<rparr>) else None
           | _ \<Rightarrow> None)
      | EvHandOffCancel \<Rightarrow>
          (case acceptor s of
             HandOff c \<Rightarrow> if ctx_done s then Some ((close_conn c s)\<lparr>acceptor := Cancelled c\<rparr>) else None
           | _ \<Rightarrow> None)
      | EvTask c \<Rightarrow> task_step c s
      | EvShutdownByWatcher \<Rightarrow>
          if ctx_done s \<and> shutdown s = ShIdle then Some ((begin_shutdown s)\<lparr>shutdown := ShBegun\<rparr>) else None
      | EvShutdownByServe \<Rightarrow>
          (case acceptor s of
             Deferred r \<Rightarrow> if shutdown s = ShIdle then Some ((begin_shutdown s)\<lparr>shutdown := ShBegun\<rparr>) else None
           | _ \<Rightarrow> None)
      | EvShutdown expired cs \<Rightarrow> shutdown_step expired cs s)"

fun run_events :: "tcp_config \<Rightarrow> server_event list \<Rightarrow> server_state \<Rightarrow> server_state option" where
  "run_events cfg [] s = Some s"
| "run_events cfg (e # es) s = Option.bind (exec_event cfg e s) (run_events cfg es)"

text \<open>The states a server can get into.\<close>

inductive reachable :: "tcp_config \<Rightarrow> server_state \<Rightarrow> bool" for cfg where
  reach_init: "reachable cfg initial_server"
| reach_step: "reachable cfg s \<Longrightarrow> exec_event cfg e s = Some s' \<Longrightarrow> reachable cfg s'"

section \<open>Listening\<close>

text \<open>
  \<open>ListenAndServe\<close>: the result when listening on the address fails, or \<open>None\<close> when \<open>Serve\<close> is
  entered. The server command ends with a status that tells whether there was an error.
\<close>

definition listen_and_serve :: "(bytes \<Rightarrow> bool) \<Rightarrow> tcp_config \<Rightarrow> serve_result option" where
  "listen_and_serve listens cfg = (if listens (tcp_addr cfg) then None else Some ServeErr)"

definition exit_status :: "serve_result \<Rightarrow> int" where
  "exit_status r = (case r of ServeNil \<Rightarrow> 0 | ServeErr \<Rightarrow> 1)"

section \<open>The echo loop\<close>

text \<open>
  \<open>handleConn\<close> without a handler: what is read is written back, through a buffer of \<open>bufferSize\<close>
  bytes. The connection is a source and a sink; the results of the calls that set deadlines are
  consumed from a list, and calls beyond it succeed.
\<close>

definition buffer_size :: nat where
  "buffer_size = 4096"

definition take_deadline :: "int \<Rightarrow> bool list \<Rightarrow> bool \<times> bool list" where
  "take_deadline timeout ds =
     (if 0 < timeout then (case ds of [] \<Rightarrow> (True, []) | ok # ds' \<Rightarrow> (ok, ds')) else (True, ds))"

function echo_loop :: "tcp_config \<Rightarrow> bool list \<Rightarrow> byte_source \<Rightarrow> sink \<Rightarrow> byte_source \<times> sink" where
  "echo_loop cfg ds src out =
     (case take_deadline (tcp_read_timeout cfg) ds of (ok1, ds1) \<Rightarrow>
      if \<not> ok1 then (src, out)
      else (case src_read buffer_size src of (got, err, src') \<Rightarrow>
        if got \<noteq> [] then
          (case take_deadline (tcp_write_timeout cfg) ds1 of (ok2, ds2) \<Rightarrow>
           if \<not> ok2 then (src', out)
           else (case sink_write got out of (out', werr) \<Rightarrow>
             if werr \<noteq> None then (src', out')
             else if err \<noteq> None then (src', out')
             else echo_loop cfg ds2 src' out'))
        else if err \<noteq> None then (src', out)
        else echo_loop cfg ds1 src' out))"
  by pat_completeness auto
termination
  by (relation "measure (\<lambda>(cfg, ds, src, out). length (src_bytes src))")
    (auto dest!: src_read_decreases[OF sym] simp: buffer_size_def)

declare echo_loop.simps [simp del]

end
