(* ===== verification/Go_Flag.thy ===== *)
theory Go_Flag
  imports Go_Time
begin

text \<open>
  What the two commands use of Go's standard library to read their command lines: package flag
  (\<open>Parse\<close> on a set of flags), \<open>strconv.ParseInt\<close> in base 0, \<open>strconv.ParseBool\<close> and
  \<open>time.ParseDuration\<close>; and \<open>Duration.String\<close>, with which the load test client prints. The kinds
  of error are told apart only where the code's behaviour depends on them.
\<close>

section \<open>Integers\<close>

text \<open>The value of a digit in any base, and the base that the prefix of a number selects.\<close>

definition any_digit :: "char \<Rightarrow> nat option" where
  "any_digit c =
     (let l = of_char (ascii_lower c) :: nat in
      if is_digit c then Some (digit_val c)
      else if 97 \<le> l \<and> l \<le> 122 then Some (l - 87) else None)"

definition base_prefix :: "bytes \<Rightarrow> nat \<times> bytes" where
  "base_prefix s =
     (case s of
        c # d # e # rest \<Rightarrow>
          if c \<noteq> CHR ''0'' then (10, s)
          else if ascii_lower d = CHR ''b'' then (2, e # rest)
          else if ascii_lower d = CHR ''o'' then (8, e # rest)
          else if ascii_lower d = CHR ''x'' then (16, e # rest)
          else (8, d # e # rest)
      | c # rest \<Rightarrow> if c \<noteq> CHR ''0'' then (10, s) else (8, rest)
      | [] \<Rightarrow> (10, []))"

fun base_digits :: "nat \<Rightarrow> bytes \<Rightarrow> nat \<Rightarrow> nat option" where
  "base_digits b [] n = Some n"
| "base_digits b (c # s) n =
     (if c = CHR ''_'' then base_digits b s n
      else (case any_digit c of
              None \<Rightarrow> None
            | Some d \<Rightarrow> if b \<le> d then None else base_digits b s (n * b + d)))"

text \<open>\<open>underscoreOK\<close>: every underscore separates digits, a base prefix counting as a digit.\<close>

fun underscore_scan :: "bool \<Rightarrow> char \<Rightarrow> bytes \<Rightarrow> bool" where
  "underscore_scan hex saw [] = (saw \<noteq> CHR ''_'')"
| "underscore_scan hex saw (c # s) =
     (if is_digit c \<or> hex \<and> (\<exists>d\<in>set_option (any_digit c). d < 16) then underscore_scan hex CHR ''0'' s
      else if c = CHR ''_'' then saw = CHR ''0'' \<and> underscore_scan hex CHR ''_'' s
      else saw \<noteq> CHR ''_'' \<and> underscore_scan hex CHR ''!'' s)"

definition underscore_ok :: "bytes \<Rightarrow> bool" where
  "underscore_ok s =
     (case s of
        c # d # rest \<Rightarrow>
          if c = CHR ''0'' \<and> ascii_lower d \<in> {CHR ''b'', CHR ''o'', CHR ''x''}
          then underscore_scan (ascii_lower d = CHR ''x'') CHR ''0'' rest
          else underscore_scan False CHR ''^'' s
      | _ \<Rightarrow> underscore_scan False CHR ''^'' s)"

definition parse_uint_base0 :: "bytes \<Rightarrow> nat option" where
  "parse_uint_base0 s =
     (if s = [] then None
      else (case base_prefix s of (b, ds) \<Rightarrow>
        case base_digits b ds 0 of
          None \<Rightarrow> None
        | Some n \<Rightarrow> if CHR ''_'' \<in> set ds \<and> \<not> underscore_ok s then None else Some n))"

text \<open>\<open>strconv.ParseInt(s, 0, 64)\<close>.\<close>

definition parse_int_base0 :: "bytes \<Rightarrow> int option" where
  "parse_int_base0 s =
     (let (neg, ds) = (case s of [] \<Rightarrow> (False, [])
                       | c # r \<Rightarrow> if c = CHR ''-'' then (True, r)
                                 else if c = CHR ''+'' then (False, r) else (False, s))
      in case parse_uint_base0 ds of
           None \<Rightarrow> None
         | Some n \<Rightarrow>
             let v = (if neg then - int n else int n)
             in if min_int64 \<le> v \<and> v \<le> max_int64 then Some v else None)"

text \<open>\<open>strconv.ParseBool\<close>.\<close>

definition parse_bool :: "bytes \<Rightarrow> bool option" where
  "parse_bool s =
     (if s \<in> {''1'', ''t'', ''T'', ''true'', ''TRUE'', ''True''} then Some True
      else if s \<in> {''0'', ''f'', ''F'', ''false'', ''FALSE'', ''False''} then Some False else None)"

section \<open>Floating point\<close>

text \<open>
  The fraction of a duration is scaled in float64. The nearest double to a positive quotient,
  ties to even, as a quotient again: the numerator is scaled to 53 binary digits and rounded.
  Neither overflow nor subnormal numbers can arise from the operands that are used.
\<close>

function bit_length :: "int \<Rightarrow> int" where
  "bit_length n = (if n \<le> 0 then 0 else 1 + bit_length (n div 2))"
  by pat_completeness auto
termination by (relation "measure nat") auto

declare bit_length.simps [simp del]

definition scale_by :: "int \<Rightarrow> int \<times> int \<Rightarrow> int \<times> int" where
  "scale_by s x = (fst x * 2 ^ nat s, snd x * 2 ^ nat (- s))"

definition round_half_even :: "int \<Rightarrow> int \<Rightarrow> int" where
  "round_half_even p q =
     (let k = p div q; r = p mod q in if 2 * r < q \<or> 2 * r = q \<and> even k then k else k + 1)"

definition round_double :: "int \<times> int \<Rightarrow> int \<times> int" where
  "round_double x =
     (let s0 = 53 - (bit_length (fst x) - bit_length (snd x));
          x0 = scale_by s0 x;
          s = (if 2 ^ 53 \<le> fst x0 div snd x0 then s0 - 1 else s0);
          x1 = scale_by s x
      in scale_by (- s) (round_half_even (fst x1) (snd x1), 1))"

text \<open>\<open>uint64(float64(f) * (float64(unit) / scale))\<close> for positive operands.\<close>

definition scale_fraction :: "int \<Rightarrow> int \<Rightarrow> int \<Rightarrow> int" where
  "scale_fraction f unit scale =
     (let a = round_double (f, 1); b = round_double (unit, scale);
          c = round_double (fst a * fst b, snd a * snd b)
      in fst c div snd c)"

text \<open>An integer below \<open>2^53\<close> is a double, and exact operands give an exact product.\<close>

lemma bit_length_bound: "0 \<le> n \<Longrightarrow> 0 \<le> bit_length n \<and> n < 2 ^ nat (bit_length n)"
proof (induction n rule: bit_length.induct)
  case (1 n)
  show ?case
  proof (cases "n = 0")
    case True
    then show ?thesis by (simp add: bit_length.simps)
  next
    case False
    define k where "k = bit_length (n div 2)"
    from False 1 have k: "0 \<le> k" "n div 2 < 2 ^ nat k" by (simp_all add: k_def)
    moreover have "bit_length n = 1 + k" using False 1 by (subst bit_length.simps) (simp add: k_def)
    ultimately show ?thesis by (simp add: nat_add_distrib)
  qed
qed

lemma bit_length_le: "n < 2 ^ k \<Longrightarrow> bit_length n \<le> int k"
proof (induction n arbitrary: k rule: bit_length.induct)
  case (1 n)
  show ?case
  proof (cases "n \<le> 0")
    case True
    then show ?thesis by (simp add: bit_length.simps)
  next
    case False
    with 1 obtain j where j: "k = Suc j" by (cases k) auto
    with False 1 have "bit_length (n div 2) \<le> int j" by simp
    then show ?thesis using False j by (subst bit_length.simps) simp
  qed
qed

lemma bit_length_mult: "0 \<le> a \<Longrightarrow> 0 \<le> b \<Longrightarrow> bit_length (a * b) \<le> bit_length a + bit_length b"
proof -
  assume a: "0 \<le> a" and b: "0 \<le> b"
  note ba = bit_length_bound[OF a] and bb = bit_length_bound[OF b]
  have "a * b < 2 ^ nat (bit_length a) * 2 ^ nat (bit_length b)" using a b ba bb by (intro mult_strict_mono') auto
  then have "a * b < 2 ^ (nat (bit_length a) + nat (bit_length b))" by (simp add: power_add)
  from bit_length_le[OF this] show ?thesis using ba bb by simp
qed

lemma round_double_exact:
  assumes n: "0 < n" "n < 2 ^ 53" and q: "0 < q"
  obtains B where "0 < B" "round_double (n * q, q) = (n * B, B)"
proof -
  define s0 where "s0 = 53 - (bit_length (n * q) - bit_length q)"
  define s where "s = (if 2 ^ 53 \<le> n * 2 ^ nat s0 then s0 - 1 else s0)"
  have "bit_length (n * q) \<le> bit_length n + bit_length q" using n q by (intro bit_length_mult) auto
  moreover have "bit_length n \<le> 53" using bit_length_le[of n 53] n by simp
  ultimately have s0: "0 \<le> s0" by (simp add: s0_def)
  then have s: "0 \<le> s" using n by (cases "s0 = 0") (auto simp: s_def)
  have x0: "fst (scale_by s0 (n * q, q)) div snd (scale_by s0 (n * q, q)) = n * 2 ^ nat s0"
    using s0 q by (simp add: scale_by_def)
  have "round_double (n * q, q) = (let x = scale_by s (n * q, q) in
      scale_by (- s) (round_half_even (fst x) (snd x), 1))"
    unfolding round_double_def fst_conv snd_conv s0_def[symmetric] Let_def x0 s_def[symmetric] ..
  also have "\<dots> = scale_by (- s) (round_half_even (n * q * 2 ^ nat s) q, 1)"
    using s by (simp add: scale_by_def[of s])
  also have "round_half_even (n * q * 2 ^ nat s) q = n * 2 ^ nat s"
    using q by (simp add: round_half_even_def Let_def mult.assoc mult.left_commute[of n])
  finally have "round_double (n * q, q) = (n * 2 ^ nat s, 2 ^ nat s)" using s by (simp add: scale_by_def)
  then show thesis by (intro that[of "2 ^ nat s"]) auto
qed

lemma scale_fraction_exact:
  assumes "0 < f" "0 < u" "f * u < 2 ^ 53" "0 < scale"
  shows "scale_fraction f (u * scale) scale = f * u"
proof -
  have "f \<le> f * u" "u \<le> f * u" using assms by simp_all
  then have b: "f < 2 ^ 53" "u < 2 ^ 53" using assms by linarith+
  obtain A where A: "0 < A" "round_double (f * 1, 1) = (f * A, A)" using round_double_exact[of f 1] assms b by auto
  obtain B where B: "0 < B" "round_double (u * scale, scale) = (u * B, B)"
    using round_double_exact[of u scale] assms b by auto
  obtain C where C: "0 < C" "round_double (f * u * (A * B), A * B) = (f * u * C, C)"
    using round_double_exact[of "f * u" "A * B"] assms A B by auto
  have "scale_fraction f (u * scale) scale =
      fst (round_double (f * u * (A * B), A * B)) div snd (round_double (f * u * (A * B), A * B))"
    unfolding scale_fraction_def Let_def A(2)[simplified] B(2) fst_conv snd_conv by (simp only: ac_simps)
  with C show ?thesis by simp
qed

section \<open>Durations\<close>

definition duration_units :: "(bytes \<times> int) list" where
  "duration_units = [(''ns'', 1), (''us'', 1000), ([CHR 0xC2, CHR 0xB5, CHR ''s''], 1000),
     ([CHR 0xCE, CHR 0xBC, CHR ''s''], 1000), (''ms'', 1000000), (''s'', 1000000000),
     (''m'', 60000000000), (''h'', 3600000000000)]"

text \<open>\<open>leadingFraction\<close>: digits that would overflow are dropped.\<close>

fun leading_fraction :: "bytes \<Rightarrow> int \<Rightarrow> int \<Rightarrow> bool \<Rightarrow> int \<times> int" where
  "leading_fraction [] x scale overflow = (x, scale)"
| "leading_fraction (c # s) x scale overflow =
     (if overflow \<or> 922337203685477580 < x then leading_fraction s x scale True
      else let y = x * 10 + int (digit_val c) in
        if 9223372036854775808 < y then leading_fraction s x scale True
        else leading_fraction s y (scale * 10) False)"

text \<open>
  One number with its unit at the front of a duration: its value, and what is left. The limit
  of \<open>leadingInt\<close> is on the value, which grows with every digit.
\<close>

definition duration_segment :: "bytes \<Rightarrow> (int \<times> bytes) option" where
  "duration_segment s =
     (let ds = takeWhile is_digit s; s1 = dropWhile is_digit s; v = int (dec_val ds) in
      if 9223372036854775808 < v then None
      else
        (let dot = (s1 \<noteq> [] \<and> hd s1 = CHR ''.'');
             fs = (if dot then takeWhile is_digit (tl s1) else []);
             s2 = (if dot then dropWhile is_digit (tl s1) else s1);
             u = takeWhile (\<lambda>c. c \<noteq> CHR ''.'' \<and> \<not> is_digit c) s2 in
         if ds = [] \<and> fs = [] then None
         else if u = [] then None
         else (case map_of duration_units u of
                 None \<Rightarrow> None
               | Some unit \<Rightarrow>
                   if 9223372036854775808 div unit < v then None
                   else
                     (case leading_fraction fs 0 1 False of (f, scale) \<Rightarrow>
                        let v' = v * unit + (if 0 < f then scale_fraction f unit scale else 0) in
                        if 9223372036854775808 < v' then None else Some (v', drop (length u) s2)))))"

lemma drop_taken_shorter:
  "takeWhile P t \<noteq> [] \<Longrightarrow> length t \<le> n \<Longrightarrow> length (drop (length (takeWhile P t)) t) < n"
  by (cases t) (auto split: if_splits)

lemma duration_segment_decreases: "duration_segment s = Some (v, rest) \<Longrightarrow> length rest < length s"
proof -
  assume seg: "duration_segment s = Some (v, rest)"
  define t where "t = dropWhile is_digit s"
  define s2 where "s2 = (if t \<noteq> [] \<and> hd t = CHR ''.'' then dropWhile is_digit (tl t) else t)"
  have "length t \<le> length s" by (simp add: t_def length_dropWhile_le)
  moreover have "length (dropWhile is_digit (tl t)) \<le> length t"
    by (rule order.trans[OF length_dropWhile_le]) simp
  ultimately have "length s2 \<le> length s" by (simp add: s2_def)
  moreover have "takeWhile (\<lambda>c. c \<noteq> CHR ''.'' \<and> \<not> is_digit c) s2 \<noteq> []"
      "rest = drop (length (takeWhile (\<lambda>c. c \<noteq> CHR ''.'' \<and> \<not> is_digit c) s2)) s2"
    using seg unfolding duration_segment_def Let_def t_def[symmetric] s2_def[symmetric]
    by (auto simp only: split: if_split_asm option.split_asm prod.split_asm)
  ultimately show ?thesis using drop_taken_shorter by blast
qed

function duration_loop :: "bytes \<Rightarrow> int \<Rightarrow> int option" where
  "duration_loop s d =
     (if s = [] then Some d
      else (case duration_segment s of
              None \<Rightarrow> None
            | Some (v, rest) \<Rightarrow>
                if 9223372036854775808 < d + v then None else duration_loop rest (d + v)))"
  by pat_completeness auto
termination by (relation "measure (\<lambda>(s, d). length s)") (auto dest: duration_segment_decreases)

declare duration_loop.simps [simp del]

text \<open>\<open>time.ParseDuration\<close>.\<close>

definition parse_duration :: "bytes \<Rightarrow> int option" where
  "parse_duration orig =
     (let neg = (orig \<noteq> [] \<and> hd orig = CHR ''-'');
          s = (if orig \<noteq> [] \<and> (hd orig = CHR ''-'' \<or> hd orig = CHR ''+'') then tl orig else orig) in
      if s = ''0'' then Some 0
      else if s = [] then None
      else (case duration_loop s 0 of
              None \<Rightarrow> None
            | Some d \<Rightarrow> if neg then Some (- d) else if max_int64 < d then None else Some d))"

text \<open>
  \<open>Duration.String\<close>. \<open>fmtFrac\<close> prints the last \<open>prec\<close> decimal digits after a point, without the
  zeros at the end.
\<close>

definition format_fraction :: "nat \<Rightarrow> int \<Rightarrow> bytes" where
  "format_fraction prec v =
     (let ds = rev (dropWhile (\<lambda>c. c = CHR ''0'') (rev (pad_int prec (v mod 10 ^ prec))))
      in if ds = [] then [] else CHR ''.'' # ds)"

definition format_scaled :: "nat \<Rightarrow> int \<Rightarrow> bytes" where
  "format_scaled prec v = format_int (v div 10 ^ prec) @ format_fraction prec v"

definition duration_digits :: "int \<Rightarrow> bytes" where
  "duration_digits u =
     (if u = 0 then ''0s''
      else if u < 1000 then format_int u @ ''ns''
      else if u < 1000000 then format_scaled 3 u @ [CHR 0xC2, CHR 0xB5, CHR ''s'']
      else if u < 1000000000 then format_scaled 6 u @ ''ms''
      else
        (let secs = u div 1000000000; mins = secs div 60; hours = mins div 60 in
         (if 0 < hours then format_int hours @ ''h'' else []) @
         (if 0 < mins then format_int (mins mod 60) @ ''m'' else []) @
         format_int (secs mod 60) @ format_fraction 9 u @ ''s''))"

definition duration_string :: "int \<Rightarrow> bytes" where
  "duration_string d = (if d < 0 then CHR ''-'' # duration_digits \<bar>d\<bar> else duration_digits \<bar>d\<bar>)"

section \<open>Flags\<close>

text \<open>
  A flag has a name, may be a boolean flag, which needs no argument, and sets its variable from
  a text; the variables of a command are one record.
\<close>

record 'c flag_def =
  flag_name :: bytes
  flag_is_bool :: bool
  flag_set :: "bytes \<Rightarrow> 'c \<Rightarrow> 'c option"

datatype flag_err = FlagHelp | FlagSyntax bytes | FlagUndefined bytes | FlagNeedsArgument bytes | FlagBadValue bytes bytes

definition find_flag :: "'c flag_def list \<Rightarrow> bytes \<Rightarrow> 'c flag_def option" where
  "find_flag fs name = List.find (\<lambda>f. flag_name f = name) fs"

text \<open>The name of a flag argument, and the value after an equals sign, which cannot be its first character.\<close>

definition split_flag :: "bytes \<Rightarrow> bytes \<times> bytes option" where
  "split_flag name =
     (case cut (tl name) CHR ''='' of (rest, v, eq) \<Rightarrow> (hd name # rest, if eq then Some v else None))"

text \<open>\<open>parseOne\<close>: whether a flag was seen, the arguments left, and the variables.\<close>

definition parse_one :: "'c flag_def list \<Rightarrow> bytes list \<Rightarrow> 'c \<Rightarrow> flag_err + bool \<times> bytes list \<times> 'c" where
  "parse_one fs args c =
     (case args of
        [] \<Rightarrow> Inr (False, [], c)
      | s # rest \<Rightarrow>
          if length s < 2 \<or> hd s \<noteq> CHR ''-'' then Inr (False, args, c)
          else if s = ''--'' then Inr (False, rest, c)
          else
            (let name0 = (if hd (tl s) = CHR ''-'' then drop 2 s else drop 1 s) in
             if name0 = [] \<or> hd name0 = CHR ''-'' \<or> hd name0 = CHR ''='' then Inl (FlagSyntax s)
             else (case split_flag name0 of (name, val) \<Rightarrow>
               (case find_flag fs name of
                  None \<Rightarrow> Inl (if name = ''help'' \<or> name = ''h'' then FlagHelp else FlagUndefined name)
                | Some f \<Rightarrow>
                    let set = (\<lambda>v args'. case flag_set f v c of
                          None \<Rightarrow> Inl (FlagBadValue name v) | Some c' \<Rightarrow> Inr (True, args', c')) in
                    (case val of
                       Some v \<Rightarrow> set v rest
                     | None \<Rightarrow>
                         if flag_is_bool f then set ''true'' rest
                         else (case rest of [] \<Rightarrow> Inl (FlagNeedsArgument name) | v # rest' \<Rightarrow> set v rest'))))))"

lemma parse_one_decreases: "parse_one fs args c = Inr (True, args', c') \<Longrightarrow> length args' < length args"
  by (auto simp: parse_one_def Let_def split: list.splits if_splits prod.splits option.splits)

text \<open>\<open>FlagSet.Parse\<close>: the variables and the arguments after the flags.\<close>

function parse_flags :: "'c flag_def list \<Rightarrow> bytes list \<Rightarrow> 'c \<Rightarrow> flag_err + 'c \<times> bytes list" where
  "parse_flags fs args c =
     (case parse_one fs args c of
        Inl e \<Rightarrow> Inl e
      | Inr (seen, args', c') \<Rightarrow> if seen then parse_flags fs args' c' else Inr (c', args'))"
  by pat_completeness auto
termination by (relation "measure (\<lambda>(fs, args, c). length args)") (auto dest: parse_one_decreases)

declare parse_flags.simps [simp del]

text \<open>
  \<open>flag.Parse\<close> of the process: a command line in error ends it with status 2, a request for
  help with status 0.
\<close>

definition command_line :: "'c flag_def list \<Rightarrow> 'c \<Rightarrow> bytes list \<Rightarrow> int + 'c" where
  "command_line fs defaults args =
     (case parse_flags fs args defaults of
        Inl e \<Rightarrow> Inl (if e = FlagHelp then 0 else 2)
      | Inr (c, _) \<Rightarrow> Inr c)"

text \<open>The constructors of flags, over the update function of a record field.\<close>

definition string_flag :: "bytes \<Rightarrow> ((bytes \<Rightarrow> bytes) \<Rightarrow> 'c \<Rightarrow> 'c) \<Rightarrow> 'c flag_def" where
  "string_flag name upd = \<lparr>flag_name = name, flag_is_bool = False, flag_set = (\<lambda>v c. Some (upd (\<lambda>_. v) c))\<rparr>"

definition int_flag :: "bytes \<Rightarrow> ((int \<Rightarrow> int) \<Rightarrow> 'c \<Rightarrow> 'c) \<Rightarrow> 'c flag_def" where
  "int_flag name upd = \<lparr>flag_name = name, flag_is_bool = False,
     flag_set = (\<lambda>v c. map_option (\<lambda>i. upd (\<lambda>_. i) c) (parse_int_base0 v))\<rparr>"

definition duration_flag :: "bytes \<Rightarrow> ((int \<Rightarrow> int) \<Rightarrow> 'c \<Rightarrow> 'c) \<Rightarrow> 'c flag_def" where
  "duration_flag name upd = \<lparr>flag_name = name, flag_is_bool = False,
     flag_set = (\<lambda>v c. map_option (\<lambda>i. upd (\<lambda>_. i) c) (parse_duration v))\<rparr>"

definition bool_flag :: "bytes \<Rightarrow> ((bool \<Rightarrow> bool) \<Rightarrow> 'c \<Rightarrow> 'c) \<Rightarrow> 'c flag_def" where
  "bool_flag name upd = \<lparr>flag_name = name, flag_is_bool = True,
     flag_set = (\<lambda>v c. map_option (\<lambda>i. upd (\<lambda>_. i) c) (parse_bool v))\<rparr>"

section \<open>Examples\<close>

lemma parse_int_examples:
  "parse_int_base0 ''0x1_F'' = Some 31" "parse_int_base0 ''-017'' = Some (- 15)"
  "parse_int_base0 ''1__0'' = None" "parse_int_base0 ''08'' = None" "parse_int_base0 ''0'' = Some 0"
  by code_simp+

lemma parse_duration_examples:
  "parse_duration ''1m30s'' = Some 90000000000" "parse_duration ''-2h'' = Some (- 7200000000000)"
  "parse_duration ''10'' = None" "parse_duration [] = None"
  by code_simp+

lemma duration_string_examples:
  "duration_string 0 = ''0s''" "duration_string 90000000000 = ''1m30s''" "duration_string 1500000 = ''1.5ms''"
  "duration_string (- 3600000000000) = ''-1h0m0s''" "duration_string 1020003000 = ''1.020003s''"
  by (simp_all add: duration_string_def duration_digits_def format_scaled_def format_fraction_def format_int_def pad_int_def
      nat_dec.simps dec_digit_def Let_def char_of_def bit_0)

end
