(* ===== verification/Command.thy ===== *)
theory Command
  imports Handler Tcp_Server Go_Flag
begin

text \<open>
  The server command (cmd/wbsv/main.go): its flags with their defaults, the TCP server and the
  HTTP handler that it builds from them, and how the process ends. Listening on the address is
  a parameter; waiting for a signal is the cancellation of the context in theory \<open>Tcp_Server\<close>.
\<close>

section \<open>Flags\<close>

definition wbsv_defaults :: main_flags where
  "wbsv_defaults = \<lparr>
     fl_addr = ''127.0.0.1:8080'',
     fl_read_timeout = 30 * 1000000000,
     fl_write_timeout = 30 * 1000000000,
     fl_graceful_timeout = 5 * 1000000000,
     fl_handler_workers = 0,
     fl_max_active_conns = 0,
     fl_max_line = 8192,
     fl_max_headers = 100,
     fl_max_body = 2 ^ 20,
     fl_auth_token = [],
     fl_rate_limit = 0,
     fl_rate_window = 60 * 1000000000,
     fl_cors_allow_origin = [],
     fl_cors_allow_methods = ''GET, POST, PUT, PATCH, DELETE, OPTIONS'',
     fl_cors_allow_headers = [],
     fl_cors_allow_credentials = False,
     fl_cors_max_age = 0\<rparr>"

definition wbsv_flags :: "main_flags flag_def list" where
  "wbsv_flags = [
     string_flag ''addr'' fl_addr_update,
     duration_flag ''read-timeout'' fl_read_timeout_update,
     duration_flag ''write-timeout'' fl_write_timeout_update,
     duration_flag ''graceful-timeout'' fl_graceful_timeout_update,
     int_flag ''handler-workers'' fl_handler_workers_update,
     int_flag ''max-active-conns'' fl_max_active_conns_update,
     int_flag ''max-line'' fl_max_line_update,
     int_flag ''max-headers'' fl_max_headers_update,
     int_flag ''max-body'' fl_max_body_update,
     string_flag ''auth-token'' fl_auth_token_update,
     int_flag ''rate-limit'' fl_rate_limit_update,
     duration_flag ''rate-window'' fl_rate_window_update,
     string_flag ''cors-allow-origin'' fl_cors_allow_origin_update,
     string_flag ''cors-allow-methods'' fl_cors_allow_methods_update,
     string_flag ''cors-allow-headers'' fl_cors_allow_headers_update,
     bool_flag ''cors-allow-credentials'' fl_cors_allow_credentials_update,
     int_flag ''cors-max-age'' fl_cors_max_age_update]"

section \<open>The process\<close>

definition main_server :: "main_flags \<Rightarrow> tcp_config" where
  "main_server f = \<lparr>tcp_addr = fl_addr f, tcp_read_timeout = fl_read_timeout f, tcp_write_timeout = fl_write_timeout f,
     graceful_timeout = fl_graceful_timeout f, handler_workers = fl_handler_workers f,
     max_active_conns = fl_max_active_conns f\<rparr>"

text \<open>\<open>main\<close> up to \<open>Serve\<close>: the status with which the process ends, or what it serves with.\<close>

definition wbsv_start ::
  "gzip_writer \<Rightarrow> (bytes \<Rightarrow> bool) \<Rightarrow> bytes list \<Rightarrow> int + tcp_config \<times> handler_config" where
  "wbsv_start gz listens args =
     (case command_line wbsv_flags wbsv_defaults args of
        Inl status \<Rightarrow> Inl status
      | Inr f \<Rightarrow>
          (case listen_and_serve listens (main_server f) of
             Some r \<Rightarrow> Inl (exit_status r)
           | None \<Rightarrow> Inr (main_server f, main_handler gz f)))"

end
