(* ===== verification/Main_Facts.thy ===== *)
theory Main_Facts
  imports Handler_Facts
begin

text \<open>
  What the configuration that the server command builds (cmd/wbsv/main.go) guarantees, and
  what it does not.
\<close>

section \<open>Chains\<close>

lemma apply_middlewares_append:
  "apply_middlewares (ms @ ns) h s = (case apply_middlewares ns h s of (h1, s1) \<Rightarrow> apply_middlewares ms h1 s1)"
  by (induction ms) (auto split: prod.split)

section \<open>No panic reaches the connection\<close>

definition returning :: "handler \<Rightarrow> bool" where
  "returning h \<longleftrightarrow> (\<forall>w r s. fst (h w r s) = Returned)"

definition keeps_returning :: "middleware \<Rightarrow> bool" where
  "keeps_returning m \<longleftrightarrow> (\<forall>h s. returning h \<longrightarrow> returning (fst (m h s)))"

named_theorems keeps_returning

lemma returningD: "returning h \<Longrightarrow> h w r s = (oc, w', s') \<Longrightarrow> oc = Returned"
  unfolding returning_def by (metis fst_conv)

lemma keeps_returningI:
  "(\<And>h s0 w r s. returning h \<Longrightarrow> fst (fst (m h s0) w r s) = Returned) \<Longrightarrow> keeps_returning m"
  by (simp add: keeps_returning_def returning_def[of "fst _"])

lemma request_id_keeps [keeps_returning]: "keeps_returning request_id_middleware"
  by (rule keeps_returningI)
    (auto simp: request_id_middleware_def Let_def dest: returningD split: prod.splits outcome.splits)

lemma logging_keeps [keeps_returning]: "keeps_returning (logging_middleware l)"
  by (rule keeps_returningI)
    (auto simp: logging_middleware_def Let_def dest: returningD split: prod.splits outcome.splits)

lemma cors_keeps [keeps_returning]: "keeps_returning (cors_middleware o')"
  by (rule keeps_returningI) (simp add: cors_middleware_def Let_def returning_def)

lemma gzip_keeps [keeps_returning]: "keeps_returning (gzip_compression_middleware gz n)"
  by (rule keeps_returningI)
    (auto simp: gzip_compression_middleware_def Let_def dest: returningD split: prod.splits outcome.splits)

lemma recovery_returns: "returning (fst (recovery_middleware l h s))"
  by (auto simp: returning_def recovery_middleware_def Let_def split: prod.splits outcome.splits)

lemma chain_returns:
  "\<forall>m. Some m \<in> set ms \<longrightarrow> keeps_returning m \<Longrightarrow> returning (fst (apply_middlewares (ms @ Some (recovery_middleware l) # ns) h s))"
proof (induction ms)
  case Nil
  then show ?case by (simp add: recovery_returns split: prod.split)
next
  case (Cons m ms)
  obtain h1 s1 where a: "apply_middlewares (ms @ Some (recovery_middleware l) # ns) h s = (h1, s1)" by fastforce
  with Cons have "returning h1" by simp
  with Cons.prems a show ?case by (auto simp: keeps_returning_def split: option.split)
qed

lemma main_handler_returns: "returning (fst (app_handler (main_handler gz f\<lparr>app := a\<rparr>) s))"
proof -
  let ?pre = "[Some request_id_middleware, Some (logging_middleware True)] @
     (if fl_cors_allow_origin f \<noteq> [] then
        [Some (cors_middleware \<lparr>allow_origins = split_comma_list (fl_cors_allow_origin f),
           allow_methods = split_comma_list (fl_cors_allow_methods f),
           allow_headers = split_comma_list (fl_cors_allow_headers f), expose_headers = [],
           allow_credentials = fl_cors_allow_credentials f, cors_max_age = fl_cors_max_age f\<rparr>)] else []) @
     [Some (gzip_compression_middleware gz 1)]"
  obtain ns where ns: "main_middlewares gz f = ?pre @ Some (recovery_middleware True) # ns"
    by (simp add: main_middlewares_def)
  have "\<forall>m. Some m \<in> set ?pre \<longrightarrow> keeps_returning m" by (simp add: keeps_returning)
  from chain_returns[OF this] show ?thesis
    unfolding app_handler_def chain_def main_handler_def ns[symmetric] by (simp add: ns)
qed

lemma returning_response:
  assumes "returning (fst (app_handler h s))"
  shows "\<exists>resp cl s'. response_for_request h ctx (Inr req) s = (Inr (resp, cl), s')"
proof -
  obtain hd' s1 where a: "app_handler h s = (hd', s1)" by fastforce
  obtain oc w s2 where b: "hd' (Buffered new_buffered_writer) \<lparr>req_context = ctx, req_http = req, req_params = None\<rparr> s1 = (oc, w, s2)"
    by (metis prod_cases3)
  have "oc = Returned" using assms returningD[of hd', OF _ b] by (simp add: a)
  with a b show ?thesis by (simp add: response_for_request_def)
qed

lemma serve_turn_returns:
  assumes "\<And>s. returning (fst (app_handler h s))" "serve_turn h ctx c s = Some (Inl (r, c', s'))"
  shows "r = ConnDone"
proof -
  have "fst (response_for_request h ctx res s0) \<noteq> Inl v" for res s0 v
  proof (cases res)
    case (Inr req)
    obtain resp cl s1 where "response_for_request h ctx (Inr req) s0 = (Inr (resp, cl), s1)"
      using returning_response[OF assms(1)] by blast
    with Inr show ?thesis by simp
  qed (simp add: refused_response)
  then have no_panic: "response_for_request h ctx res s0 = (Inl v, s1) \<Longrightarrow> False" for res s0 v s1 by (metis fst_conv)
  show ?thesis
    using assms(2)
    by (auto simp: serve_turn_def Let_def dest: no_panic split: prod.splits if_splits option.splits sum.splits)
qed

text \<open>The result of the loop is the result of some turn.\<close>

lemma serve_loop_result:
  assumes "serve_loop h ctx c s = Some x" "\<And>c s y. serve_turn h ctx c s = Some (Inl y) \<Longrightarrow> P (fst y)"
  shows "P (fst x)"
proof -
  have "(\<forall>c s y. serve_turn h ctx c s = Some (Inl y) \<longrightarrow> P (fst y)) \<longrightarrow> P (fst x)"
  proof (rule serve_loop.raw_induct[OF _ assms(1)], intro impI)
    fix loop h ctx c s x
    assume IH: "\<And>h ctx c s x. loop h ctx c s = Some x \<Longrightarrow>
        (\<forall>c s y. serve_turn h ctx c s = Some (Inl y) \<longrightarrow> P (fst y)) \<longrightarrow> P (fst x)"
      and x: "(case serve_turn h ctx c s of None \<Rightarrow> None | Some (Inl r) \<Rightarrow> Some r | Some (Inr (c', s')) \<Rightarrow> loop h ctx c' s') = Some x"
      and turns: "\<forall>c s y. serve_turn h ctx c s = Some (Inl y) \<longrightarrow> P (fst y)"
    show "P (fst x)"
    proof (cases "serve_turn h ctx c s")
      case (Some t)
      show ?thesis
      proof (cases t)
        case (Inl y)
        then have "P (fst y)" "x = y" using Some turns x by (blast, simp)
        then show ?thesis by simp
      next
        case (Inr b)
        then show ?thesis using Some turns x IH by (cases b) simp
      qed
    qed (use x in simp)
  qed
  with assms(2) show ?thesis by blast
qed

text \<open>
  Whatever the application does, a connection served with the configuration of the server
  command never ends in a panic, which would take the process down: every middleware outside
  the recovery middleware returns when what it wraps returns.
\<close>

theorem main_conn_never_panics:
  assumes "serve_conn (main_handler gz f\<lparr>app := a\<rparr>) ctx src out ds s = Some (r, c', s')"
  shows "r = ConnDone"
  using assms serve_loop_result[where P = "\<lambda>r. r = ConnDone"] serve_turn_returns[OF main_handler_returns]
  unfolding serve_conn_def by (metis fst_conv prod_cases3)

definition sample_flags :: main_flags where
  "sample_flags = \<lparr>fl_addr = [], fl_read_timeout = 0, fl_write_timeout = 0,
     fl_graceful_timeout = 0, fl_handler_workers = 0, fl_max_active_conns = 0, fl_max_line = 0, fl_max_headers = 0, fl_max_body = 0,
     fl_auth_token = [], fl_rate_limit = 1, fl_rate_window = 60000000000, fl_cors_allow_origin = [],
     fl_cors_allow_methods = [], fl_cors_allow_headers = [], fl_cors_allow_credentials = False, fl_cors_max_age = 0\<rparr>"

theorem main_conn_never_panics_witness:
  "\<exists>c' s'. serve_conn (main_handler store_only sample_flags\<lparr>app := Some (\<lambda>w r s. (Panicked ''boom'', w, s))\<rparr>) None
     \<lparr>segs = [render_request (get_root [])], src_err = IoEOF, src_eager = False\<rparr> \<lparr>sink_sent = [], sink_room = None\<rparr> []
     quiet_world = Some (ConnDone, c', s')"
proof -
  let ?h = "main_handler store_only sample_flags\<lparr>app := Some (\<lambda>w r s. (Panicked ''boom'', w, s))\<rparr>"
  let ?src = "\<lparr>segs = [render_request (get_root [])], src_err = IoEOF, src_eager = False\<rparr>"
  obtain r c' s' where "serve_conn ?h None ?src \<lparr>sink_sent = [], sink_room = None\<rparr> [] quiet_world = Some (r, c', s')"
    using serve_loop_same[OF same_open[of ?src ?src]] unfolding serve_conn_def by fastforce
  with main_conn_never_panics[OF this] show ?thesis by blast
qed

section \<open>The rate limit of the server command\<close>

text \<open>
  Two handlers that answer alike while a limiter is fresh, in worlds with the same request-ID
  counter (the only part of the world that a response of the command can depend on).
\<close>

definition fresh_limiter :: "nat \<Rightarrow> int \<Rightarrow> int \<Rightarrow> world \<Rightarrow> bool" where
  "fresh_limiter i limit window s \<longleftrightarrow> i < length (limiters s) \<and> limiters s ! i = new_limiter limit window"

definition alike :: "(world \<Rightarrow> bool) \<Rightarrow> handler \<Rightarrow> handler \<Rightarrow> bool" where
  "alike F h1 h2 \<longleftrightarrow> (\<forall>w r s t oc w' s'. F s \<longrightarrow> request_id_counter s = request_id_counter t \<longrightarrow> h1 w r s = (oc, w', s') \<longrightarrow>
     (\<exists>t'. h2 w r t = (oc, w', t') \<and> request_id_counter s' = request_id_counter t'))"

text \<open>The part of the world that the outer middlewares change before they call the inner handler.\<close>

definition clock_stable :: "(world \<Rightarrow> bool) \<Rightarrow> bool" where
  "clock_stable F \<longleftrightarrow> (\<forall>s n k. F s \<longrightarrow> F (s\<lparr>clock_reads := n\<rparr>) \<and> F (s\<lparr>request_id_counter := k\<rparr>))"

lemma fresh_stable: "clock_stable (fresh_limiter i limit window)"
  by (simp add: clock_stable_def fresh_limiter_def)

lemma alikeD: "alike F h1 h2 \<Longrightarrow> F s \<Longrightarrow> request_id_counter s = request_id_counter t \<Longrightarrow> h1 w r s = (oc, w', s') \<Longrightarrow>
    \<exists>t'. h2 w r t = (oc, w', t') \<and> request_id_counter s' = request_id_counter t'"
  unfolding alike_def by blast

definition keeps_alike :: "middleware \<Rightarrow> bool" where
  "keeps_alike m \<longleftrightarrow> (\<forall>F h1 h2 s t. clock_stable F \<longrightarrow> alike F h1 h2 \<longrightarrow>
     alike F (fst (m h1 s)) (fst (m h2 t)) \<and> snd (m h1 s) = s)"

named_theorems keeps_alike

lemma keeps_alikeI:
  assumes "\<And>h s. snd (m h s) = s"
    and "\<And>F h1 h2 s0 t0 w r s t oc w' s'. clock_stable F \<Longrightarrow> alike F h1 h2 \<Longrightarrow> F s \<Longrightarrow>
      request_id_counter s = request_id_counter t \<Longrightarrow> fst (m h1 s0) w r s = (oc, w', s') \<Longrightarrow>
      \<exists>t'. fst (m h2 t0) w r t = (oc, w', t') \<and> request_id_counter s' = request_id_counter t'"
  shows "keeps_alike m"
  unfolding keeps_alike_def alike_def[of _ "fst _"] using assms by blast

lemma request_id_alike [keeps_alike]: "keeps_alike request_id_middleware"
proof (rule keeps_alikeI)
  fix F h1 h2 s0 t0 w r and s t :: world and oc w' s'
  assume F: "clock_stable F" "alike F h1 h2" "F s" "request_id_counter s = request_id_counter t"
    and run: "fst (request_id_middleware h1 s0) w r s = (oc, w', s')"
  let ?hid = "request_id_from_headers (http_headers r)"
  define s1 where "s1 = (if ?hid = [] then s\<lparr>request_id_counter := request_id_counter s + 1\<rparr> else s)"
  define t1 where "t1 = (if ?hid = [] then t\<lparr>request_id_counter := request_id_counter t + 1\<rparr> else t)"
  define i where "i = (if ?hid = [] then ''wbsv-'' @ format_int (uint (request_id_counter t + 1)) else ?hid)"
  let ?r = "r\<lparr>req_context := Some (RequestIdCtx i (case req_context r of None \<Rightarrow> BackgroundCtx | Some c \<Rightarrow> c))\<rparr>"
  have eq: "F s1" "request_id_counter s1 = request_id_counter t1"
    using F(1, 3, 4) by (simp_all add: s1_def t1_def clock_stable_def)
  have id1: "(if ?hid = [] then next_request_id s else (?hid, s)) = (i, s1)"
    and id2: "(if ?hid = [] then next_request_id t else (?hid, t)) = (i, t1)"
    using F(4) by (simp_all add: next_request_id_def Let_def i_def s1_def t1_def)
  obtain oc1 w1 s2 where h1: "h1 w ?r s1 = (oc1, w1, s2)" by (metis prod_cases3)
  obtain t2 where h2: "h2 w ?r t1 = (oc1, w1, t2)" "request_id_counter s2 = request_id_counter t2"
    using alikeD[OF F(2) eq h1] by blast
  show "\<exists>t'. fst (request_id_middleware h2 t0) w r t = (oc, w', t') \<and> request_id_counter s' = request_id_counter t'"
    using run h1 h2 by (cases oc1) (auto simp: request_id_middleware_def Let_def id1 id2)
qed (simp add: request_id_middleware_def)

lemma logging_alike [keeps_alike]: "keeps_alike (logging_middleware l)"
proof (rule keeps_alikeI)
  fix F h1 h2 s0 t0 w r and s t :: world and oc w' s'
  assume F: "clock_stable F" "alike F h1 h2" "F s" "request_id_counter s = request_id_counter t"
    and run: "fst (logging_middleware l h1 s0) w r s = (oc, w', s')"
  let ?s1 = "s\<lparr>clock_reads := Suc (clock_reads s)\<rparr>" and ?t1 = "t\<lparr>clock_reads := Suc (clock_reads t)\<rparr>"
  obtain oc1 w1 s2 where h1: "h1 (Logging w 0 0) r ?s1 = (oc1, w1, s2)" by (metis prod_cases3)
  have "F ?s1" "request_id_counter ?s1 = request_id_counter ?t1"
    using F(1, 3, 4) by (simp_all add: clock_stable_def)
  from alikeD[OF F(2) this h1] obtain t2 where
    h2: "h2 (Logging w 0 0) r ?t1 = (oc1, w1, t2)" "request_id_counter s2 = request_id_counter t2" by blast
  show "\<exists>t'. fst (logging_middleware l h2 t0) w r t = (oc, w', t') \<and> request_id_counter s' = request_id_counter t'"
    using run h1 h2
    by (cases oc1) (auto simp: logging_middleware_def time_now_def log_printf_def split: prod.splits if_splits)
qed (simp add: logging_middleware_def)

lemma cors_alike [keeps_alike]: "keeps_alike (cors_middleware o')"
  by (rule keeps_alikeI) (auto simp: cors_middleware_def Let_def dest: alikeD split: if_splits)

lemma gzip_alike [keeps_alike]: "keeps_alike (gzip_compression_middleware gz n)"
proof (rule keeps_alikeI)
  fix F h1 h2 s0 t0 w r and s t :: world and oc w' s'
  assume F: "alike F h1 h2" "F s" "request_id_counter s = request_id_counter t"
    and run: "fst (gzip_compression_middleware gz n h1 s0) w r s = (oc, w', s')"
  obtain oc1 w1 s2 where h1: "h1 (Buffered new_buffered_writer) r s = (oc1, w1, s2)" by (metis prod_cases3)
  from alikeD[OF F h1] run h1
  show "\<exists>t'. fst (gzip_compression_middleware gz n h2 t0) w r t = (oc, w', t') \<and> request_id_counter s' = request_id_counter t'"
    by (cases oc1) (auto simp: gzip_compression_middleware_def Let_def)
qed (simp add: gzip_compression_middleware_def)

lemma recovery_alike [keeps_alike]: "keeps_alike (recovery_middleware l)"
proof (rule keeps_alikeI)
  fix F h1 h2 s0 t0 w r and s t :: world and oc w' s'
  assume F: "alike F h1 h2" "F s" "request_id_counter s = request_id_counter t"
    and run: "fst (recovery_middleware l h1 s0) w r s = (oc, w', s')"
  obtain oc1 w1 s2 where h1: "h1 w r s = (oc1, w1, s2)" by (metis prod_cases3)
  from alikeD[OF F h1] run h1
  show "\<exists>t'. fst (recovery_middleware l h2 t0) w r t = (oc, w', t') \<and> request_id_counter s' = request_id_counter t'"
    by (cases oc1) (auto simp: recovery_middleware_def Let_def log_printf_def)
qed (simp add: recovery_middleware_def)

lemma bearer_alike [keeps_alike]: "keeps_alike (bearer_auth_middleware tok)"
  by (rule keeps_alikeI) (auto simp: bearer_auth_middleware_def Let_def dest: alikeD split: if_splits)

lemma apply_alike:
  assumes "\<forall>m. Some m \<in> set ms \<longrightarrow> keeps_alike m" "clock_stable F" "alike F h1 h2"
  shows "alike F (fst (apply_middlewares ms h1 s)) (fst (apply_middlewares ms h2 t)) \<and>
    snd (apply_middlewares ms h1 s) = s \<and> snd (apply_middlewares ms h2 t) = t"
  using assms(1)
proof (induction ms)
  case (Cons m ms)
  obtain g1 s1 where g1: "apply_middlewares ms h1 s = (g1, s1)" by fastforce
  obtain g2 t1 where g2: "apply_middlewares ms h2 t = (g2, t1)" by fastforce
  have IH: "alike F g1 g2" "s1 = s" "t1 = t" using Cons g1 g2 by simp_all
  show ?case
  proof (cases m)
    case (Some mw)
    then have "keeps_alike mw" using Cons.prems by simp
    moreover have "alike (\<lambda>_. False) g2 g2" "clock_stable (\<lambda>_. False)"
      by (simp_all add: alike_def clock_stable_def)
    ultimately show ?thesis
      using IH Some assms(2) unfolding keeps_alike_def by (simp add: g1 g2)
  qed (simp add: g1 g2 IH)
qed (simp add: assms(3))

text \<open>A fresh limiter admits.\<close>

lemma fresh_admits:
  assumes "0 < limit"
  shows "alike (fresh_limiter i limit window) (rate_limited_handler i default_app_handler) default_app_handler"
proof -
  have fresh: "\<exists>l. allow (new_limiter limit window) now = ((True, 0), l)" for now
    using assms by (simp add: allow_def new_limiter_def time_is_zero_def Let_def)
  show ?thesis
    unfolding alike_def
  proof (intro allI impI)
    fix w r and s t :: world and oc w' s'
    assume F: "fresh_limiter i limit window s" "request_id_counter s = request_id_counter t"
      and run: "rate_limited_handler i default_app_handler w r s = (oc, w', s')"
    obtain now s1 where now: "time_now s = (now, s1)" by fastforce
    then have s1: "limiters s1 = limiters s" "request_id_counter s1 = request_id_counter s"
      by (auto simp: time_now_def)
    obtain l where l: "allow (new_limiter limit window) now = ((True, 0), l)" using fresh by blast
    show "\<exists>t'. default_app_handler w r t = (oc, w', t') \<and> request_id_counter s' = request_id_counter t'"
      using run F s1 l
      by (auto simp: rate_limited_handler_def now fresh_limiter_def default_app_handler_call Let_def)
  qed
qed

lemma limited_like_unlimited:
  assumes "0 < fl_rate_limit f" "0 < fl_rate_window f"
  shows "fst (response_for_request (main_handler gz f) ctx (Inr req) s) =
    fst (response_for_request (main_handler gz (f\<lparr>fl_rate_limit := 0\<rparr>)) ctx (Inr req) s)"
proof -
  let ?rl = "Some (fixed_window_rate_limit_middleware (fl_rate_limit f) (fl_rate_window f))"
  define ms where "ms = main_middlewares gz (f\<lparr>fl_rate_limit := 0\<rparr>)"
  have with_rl: "main_middlewares gz f = ms @ [?rl]" using assms(1) by (simp add: ms_def main_middlewares_def)
  let ?i = "length (limiters s)" and ?F = "fresh_limiter (length (limiters s)) (fl_rate_limit f) (fl_rate_window f)"
  let ?s = "s\<lparr>limiters := limiters s @ [new_limiter (fl_rate_limit f) (fl_rate_window f)]\<rparr>"
  let ?g = "rate_limited_handler ?i default_app_handler"
  have "\<forall>m. Some m \<in> set ms \<longrightarrow> keeps_alike m"
    by (auto simp: ms_def main_middlewares_def keeps_alike)
  from apply_alike[OF this fresh_stable fresh_admits[OF assms(1)], of ?i "fl_rate_window f" ?s s]
  have al: "alike ?F (fst (apply_middlewares ms ?g ?s)) (fst (apply_middlewares ms default_app_handler s))"
    and w: "snd (apply_middlewares ms ?g ?s) = ?s" "snd (apply_middlewares ms default_app_handler s) = s" by simp_all
  have h1: "app_handler (main_handler gz f) s = apply_middlewares ms ?g ?s"
    using assms by (simp add: app_handler_def chain_def main_handler_def with_rl apply_middlewares_append
        fixed_window_rate_limit_middleware_def)
  have h2: "app_handler (main_handler gz (f\<lparr>fl_rate_limit := 0\<rparr>)) s = apply_middlewares ms default_app_handler s"
    by (simp add: app_handler_def chain_def main_handler_def ms_def)
  obtain g1 where g1: "apply_middlewares ms ?g ?s = (g1, ?s)" using w(1) by (metis prod.collapse)
  obtain g2 where g2: "apply_middlewares ms default_app_handler s = (g2, s)" using w(2) by (metis prod.collapse)
  let ?r = "\<lparr>req_context = ctx, req_http = req, req_params = None\<rparr>"
  obtain oc w' s' where run: "g1 (Buffered new_buffered_writer) ?r ?s = (oc, w', s')" by (metis prod_cases3)
  have "?F ?s" "request_id_counter ?s = request_id_counter s" by (simp_all add: fresh_limiter_def)
  from alikeD[OF al[unfolded g1 g2 fst_conv] this run] obtain t' where
    "g2 (Buffered new_buffered_writer) ?r s = (oc, w', t')" by blast
  with run show ?thesis by (cases oc) (simp_all add: response_for_request_def h1 h2 g1 g2 Let_def)
qed

text \<open>
  C18. The rate limit of the server command never takes effect. The handler builds its chain of
  middlewares anew for every request, and with it a new limiter, whose window starts with the
  request itself: every response is the one that the command would give without the flag.
\<close>

theorem rate_limit_flag_ineffective:
  "fst (response_for_request (main_handler gz f) ctx (Inr req) s) =
     fst (response_for_request (main_handler gz (f\<lparr>fl_rate_limit := 0\<rparr>)) ctx (Inr req) s)"
proof (cases "0 < fl_rate_limit f \<and> 0 < fl_rate_window f")
  case True
  then show ?thesis using limited_like_unlimited by blast
next
  case False
  let ?h = "main_handler gz f" and ?g = "main_handler gz (f\<lparr>fl_rate_limit := 0\<rparr>)"
  have eq: "app_handler ?h s = app_handler ?g s"
    using False by (auto simp: app_handler_def chain_def main_handler_def main_middlewares_def apply_middlewares_append
        fixed_window_rate_limit_middleware_def split: prod.split)
  show ?thesis unfolding response_for_request_def sum.case by (simp only: eq)
qed

end
