(* ===== verification/Tcp_Facts.thy ===== *)
theory Tcp_Facts
  imports Tcp_Server
begin

text \<open>
  Invariants of the TCP server over all interleavings, what holds when \<open>Serve\<close> has returned, and
  why a shutdown comes to its end; and the echo loop.
\<close>

section \<open>The invariant\<close>

text \<open>The connections of the tasks that are in one of some phases.\<close>

definition live :: "task set \<Rightarrow> (nat \<rightharpoonup> task) \<Rightarrow> nat set" where
  "live P f = {c. \<exists>t\<in>P. f c = Some t}"

lemma live_upd [simp]: "live P (f(c \<mapsto> t)) = (if t \<in> P then insert c (live P f) else live P f - {c})"
  by (auto simp: live_def)

lemma live_none [simp]: "live P (f(c := None)) = live P f - {c}"
  by (auto simp: live_def)

lemma in_live [simp]: "c \<in> live P f \<longleftrightarrow> (\<exists>t\<in>P. f c = Some t)"
  by (simp add: live_def)

lemma live_empty [simp]: "live P (\<lambda>_. None) = {}"
  by (simp add: live_def)

lemma live_dom: "live P f \<subseteq> dom f"
  by (auto simp: live_def)

abbreviation tracked_phases :: "task set" where
  "tracked_phases \<equiv> {TaskStarted, TaskServing, TaskHandled, TaskClosed}"

abbreviation open_phases :: "task set" where
  "open_phases \<equiv> {TaskStarted, TaskServing, TaskHandled}"

abbreviation counted_phases :: "task set" where
  "counted_phases \<equiv> {TaskStarted, TaskServing, TaskHandled, TaskClosed, TaskDeleted}"

text \<open>The connection the accepting goroutine holds: any, tracked, counted in the wait group, not closed.\<close>

fun grasped :: "acceptor \<Rightarrow> nat set" where
  "grasped (HasConn c) = {c}" | "grasped (Rejecting c) = {c}" | "grasped (LateConn c) = {c}"
| "grasped (HandOff c) = {c}" | "grasped (Cancelled c) = {c}" | "grasped (CancelledDeleted c) = {c}"
| "grasped _ = {}"

fun held_tracked :: "acceptor \<Rightarrow> nat set" where
  "held_tracked (HandOff c) = {c}" | "held_tracked (Cancelled c) = {c}" | "held_tracked _ = {}"

fun held_counted :: "acceptor \<Rightarrow> nat set" where
  "held_counted (HandOff c) = {c}" | "held_counted (Cancelled c) = {c}" | "held_counted (CancelledDeleted c) = {c}"
| "held_counted _ = {}"

fun held_open :: "acceptor \<Rightarrow> nat set" where
  "held_open (HasConn c) = {c}" | "held_open (Rejecting c) = {c}" | "held_open (LateConn c) = {c}"
| "held_open (HandOff c) = {c}" | "held_open _ = {}"

definition counted :: "server_state \<Rightarrow> nat set" where
  "counted s = held_counted (acceptor s) \<union> live counted_phases (tasks s)"

definition ids_inv :: "server_state \<Rightarrow> bool" where
  "ids_inv s \<longleftrightarrow> (\<forall>c\<in>dom (tasks s) \<union> grasped (acceptor s) \<union> closed_conns s. c < next_conn s) \<and>
     (\<forall>c\<in>grasped (acceptor s). tasks s c = None) \<and> (\<forall>ds. shutdown s = ShClosing ds \<longrightarrow> (\<forall>d\<in>set ds. d < next_conn s))"

definition active_inv :: "server_state \<Rightarrow> bool" where
  "active_inv s \<longleftrightarrow> active_conns s = held_tracked (acceptor s) \<union> live tracked_phases (tasks s)"

definition wg_inv :: "server_state \<Rightarrow> bool" where
  "wg_inv s \<longleftrightarrow> wg s = int (card (counted s))"

definition closed_inv :: "server_state \<Rightarrow> bool" where
  "closed_inv s \<longleftrightarrow> (\<forall>c < next_conn s. c \<in> closed_conns s \<union> held_open (acceptor s) \<union> live open_phases (tasks s))"

definition limits_inv :: "tcp_config \<Rightarrow> server_state \<Rightarrow> bool" where
  "limits_inv cfg s \<longleftrightarrow>
     (0 < max_active_conns cfg \<longrightarrow> int (card (active_conns s)) \<le> max_active_conns cfg) \<and>
     (if 0 < handler_workers cfg then int (card (dom (tasks s))) \<le> handler_workers cfg
      else held_counted (acceptor s) = {})"

definition shutdown_inv :: "server_state \<Rightarrow> bool" where
  "shutdown_inv s \<longleftrightarrow> (shutting_down s \<longleftrightarrow> shutdown s \<noteq> ShIdle) \<and>
     (listener_closed s \<longleftrightarrow> shutdown s \<notin> {ShIdle, ShBegun}) \<and>
     (shutdown s = ShDone \<longrightarrow> counted s = {})"

text \<open>How \<open>Serve\<close> ends, and that only a cancelled context can make it return nil.\<close>

definition end_inv :: "tcp_config \<Rightarrow> server_state \<Rightarrow> bool" where
  "end_inv cfg s \<longleftrightarrow>
     (case acceptor s of
        Draining r \<Rightarrow> shutdown s = ShDone \<and> (r = ServeNil \<longrightarrow> ctx_done s)
      | ServeReturned r \<Rightarrow> shutdown s = ShDone \<and> (r = ServeNil \<longrightarrow> ctx_done s) \<and>
          (0 < handler_workers cfg \<longrightarrow> tasks s = (\<lambda>_. None))
      | Deferred r \<Rightarrow> r = ServeNil \<longrightarrow> ctx_done s
      | Cancelled c \<Rightarrow> ctx_done s
      | CancelledDeleted c \<Rightarrow> ctx_done s
      | LateConn c \<Rightarrow> ctx_done s
      | _ \<Rightarrow> shutting_down s \<longrightarrow> ctx_done s)"

definition server_inv :: "tcp_config \<Rightarrow> server_state \<Rightarrow> bool" where
  "server_inv cfg s \<longleftrightarrow> ids_inv s \<and> active_inv s \<and> wg_inv s \<and> closed_inv s \<and> limits_inv cfg s \<and>
     shutdown_inv s \<and> end_inv cfg s"

lemmas shutdown_defs = shutdown_step_def wait_for_conns_def close_active_conns_def

lemmas step_defs = exec_event_def acceptor_step_def task_step_def shutdown_defs track_conn_def
  untrack_delete_def untrack_done_def close_conn_def begin_shutdown_def

text \<open>The steps as rules: what the state was, and what it becomes.\<close>

inductive transition :: "tcp_config \<Rightarrow> server_state \<Rightarrow> server_state \<Rightarrow> bool" for cfg s where
  cancel: "\<not> ctx_done s \<Longrightarrow>
     transition cfg s (s\<lparr>ctx_done := True\<rparr>)"
| accept: "acceptor s = AtAccept \<Longrightarrow> \<not> listener_closed s \<Longrightarrow>
     transition cfg s (s\<lparr>acceptor := HasConn (next_conn s), next_conn := Suc (next_conn s)\<rparr>)"
| accept_cancelled: "acceptor s = AtAccept \<Longrightarrow> ctx_done s \<Longrightarrow>
     transition cfg s (s\<lparr>acceptor := Deferred ServeNil\<rparr>)"
| accept_error: "acceptor s = AtAccept \<Longrightarrow> \<not> ctx_done s \<Longrightarrow>
     transition cfg s (s\<lparr>acceptor := Deferred ServeErr\<rparr>)"
| late: "acceptor s = HasConn c \<Longrightarrow> shutting_down s \<Longrightarrow>
     transition cfg s (s\<lparr>acceptor := LateConn c\<rparr>)"
| reject: "acceptor s = HasConn c \<Longrightarrow> \<not> shutting_down s \<Longrightarrow>
     transition cfg s (s\<lparr>rejected_conns := rejected_conns s + 1, acceptor := Rejecting c\<rparr>)"
| track_hand: "acceptor s = HasConn c \<Longrightarrow> \<not> shutting_down s \<Longrightarrow> 0 < handler_workers cfg \<Longrightarrow>
     (0 < max_active_conns cfg \<longrightarrow> int (card (active_conns s)) < max_active_conns cfg) \<Longrightarrow>
     transition cfg s (s\<lparr>wg := wg s + 1, active_conns := insert c (active_conns s), acceptor := HandOff c\<rparr>)"
| track_go: "acceptor s = HasConn c \<Longrightarrow> \<not> shutting_down s \<Longrightarrow> \<not> 0 < handler_workers cfg \<Longrightarrow>
     (0 < max_active_conns cfg \<longrightarrow> int (card (active_conns s)) < max_active_conns cfg) \<Longrightarrow>
     transition cfg s (s\<lparr>wg := wg s + 1, active_conns := insert c (active_conns s), tasks := (tasks s)(c \<mapsto> TaskStarted),
         acceptor := AtAccept\<rparr>)"
| rejected: "acceptor s = Rejecting c \<Longrightarrow>
     transition cfg s (s\<lparr>closed_conns := insert c (closed_conns s), acceptor := AtAccept\<rparr>)"
| late_closed: "acceptor s = LateConn c \<Longrightarrow>
     transition cfg s (s\<lparr>closed_conns := insert c (closed_conns s), acceptor := Deferred ServeNil\<rparr>)"
| cancelled: "acceptor s = Cancelled c \<Longrightarrow>
     transition cfg s (s\<lparr>active_conns := active_conns s - {c}, acceptor := CancelledDeleted c\<rparr>)"
| cancelled_done: "acceptor s = CancelledDeleted c \<Longrightarrow>
     transition cfg s (s\<lparr>wg := wg s - 1, acceptor := Deferred ServeNil\<rparr>)"
| drain: "acceptor s = Deferred r \<Longrightarrow> shutdown s = ShDone \<Longrightarrow>
     transition cfg s (s\<lparr>acceptor := Draining r\<rparr>)"
| return: "acceptor s = Draining r \<Longrightarrow> (0 < handler_workers cfg \<longrightarrow> tasks s = (\<lambda>_. None)) \<Longrightarrow>
     transition cfg s (s\<lparr>acceptor := ServeReturned r\<rparr>)"
| hand_off: "acceptor s = HandOff c \<Longrightarrow> int (card (dom (tasks s))) < handler_workers cfg \<Longrightarrow>
     transition cfg s (s\<lparr>tasks := (tasks s)(c \<mapsto> TaskStarted), acceptor := AtAccept\<rparr>)"
| hand_off_cancel: "acceptor s = HandOff c \<Longrightarrow> ctx_done s \<Longrightarrow>
     transition cfg s (s\<lparr>closed_conns := insert c (closed_conns s), acceptor := Cancelled c\<rparr>)"
| started: "tasks s c = Some TaskStarted \<Longrightarrow>
     transition cfg s (s\<lparr>tasks := (tasks s)(c \<mapsto> TaskServing)\<rparr>)"
| handled: "tasks s c = Some TaskServing \<Longrightarrow>
     transition cfg s (s\<lparr>tasks := (tasks s)(c \<mapsto> TaskHandled)\<rparr>)"
| closed: "tasks s c = Some TaskHandled \<Longrightarrow>
     transition cfg s (s\<lparr>closed_conns := insert c (closed_conns s), tasks := (tasks s)(c \<mapsto> TaskClosed)\<rparr>)"
| deleted: "tasks s c = Some TaskClosed \<Longrightarrow>
     transition cfg s (s\<lparr>active_conns := active_conns s - {c}, tasks := (tasks s)(c \<mapsto> TaskDeleted)\<rparr>)"
| uncounted: "tasks s c = Some TaskDeleted \<Longrightarrow>
     transition cfg s (s\<lparr>wg := wg s - 1, tasks := (tasks s)(c \<mapsto> TaskTail)\<rparr>)"
| gone: "tasks s c = Some TaskTail \<Longrightarrow>
     transition cfg s (s\<lparr>tasks := (tasks s)(c := None)\<rparr>)"
| begin_watcher: "ctx_done s \<Longrightarrow> shutdown s = ShIdle \<Longrightarrow>
     transition cfg s (s\<lparr>shutting_down := True, shutdown := ShBegun\<rparr>)"
| begin_serve: "acceptor s = Deferred r \<Longrightarrow> shutdown s = ShIdle \<Longrightarrow>
     transition cfg s (s\<lparr>shutting_down := True, shutdown := ShBegun\<rparr>)"
| listener: "shutdown s = ShBegun \<Longrightarrow>
     transition cfg s (s\<lparr>listener_closed := True, shutdown := ShWaiting\<rparr>)"
| expired: "shutdown s = ShWaiting \<Longrightarrow>
     transition cfg s (s\<lparr>shutdown := ShSnapshot\<rparr>)"
| idle: "(shutdown s = ShWaiting \<or> shutdown s = ShWaitAll) \<Longrightarrow> wg s = 0 \<Longrightarrow>
     transition cfg s (s\<lparr>shutdown := ShDone\<rparr>)"
| snapshot: "shutdown s = ShSnapshot \<Longrightarrow> distinct cs \<Longrightarrow> set cs = active_conns s \<Longrightarrow>
     transition cfg s (s\<lparr>shutting_down := True, shutdown := ShClosing cs\<rparr>)"
| force: "shutdown s = ShClosing (d # ds) \<Longrightarrow>
     transition cfg s (s\<lparr>closed_conns := insert d (closed_conns s), shutdown := ShClosing ds\<rparr>)"
| forced: "shutdown s = ShClosing [] \<Longrightarrow>
     transition cfg s (s\<lparr>shutdown := ShWaitAll\<rparr>)"

lemma acceptor_transition: "acceptor_step cfg s = Some s' \<Longrightarrow> transition cfg s s'"
  by (cases "acceptor s") (auto simp: step_defs not_less not_le intro: transition.intros split: if_splits)

lemma task_transition: "task_step c s = Some s' \<Longrightarrow> transition cfg s s'"
  by (cases "tasks s c"; cases "the (tasks s c)") (auto simp: step_defs intro: transition.intros)

lemma shutdown_transition: "shutdown_step x cs s = Some s' \<Longrightarrow> transition cfg s s'"
proof (cases "shutdown s")
  case (ShClosing ds)
  then show "shutdown_step x cs s = Some s' \<Longrightarrow> transition cfg s s'"
    by (cases ds) (auto simp: step_defs intro: transition.intros)
qed (auto simp: step_defs intro: transition.intros split: if_splits)

lemma exec_transition: "exec_event cfg e s = Some s' \<Longrightarrow> transition cfg s s'"
proof (cases e)
  case EvHandOff
  then show "exec_event cfg e s = Some s' \<Longrightarrow> transition cfg s s'"
    by (cases "acceptor s") (auto simp: exec_event_def intro: transition.intros split: if_splits)
next
  case EvHandOffCancel
  then show "exec_event cfg e s = Some s' \<Longrightarrow> transition cfg s s'"
    by (cases "acceptor s") (auto simp: exec_event_def close_conn_def intro: transition.intros split: if_splits)
next
  case EvShutdownByServe
  then show "exec_event cfg e s = Some s' \<Longrightarrow> transition cfg s s'"
    by (cases "acceptor s") (auto simp: exec_event_def begin_shutdown_def intro: transition.intros split: if_splits)
qed (auto simp: exec_event_def begin_shutdown_def acceptor_transition task_transition shutdown_transition
    intro: transition.intros split: if_splits)

section \<open>Preservation\<close>

lemma held_grasped: "c \<in> held_tracked a \<Longrightarrow> c \<in> grasped a" "c \<in> held_counted a \<Longrightarrow> c \<in> grasped a"
  "c \<in> held_open a \<Longrightarrow> c \<in> grasped a"
  by (cases a; simp)+

lemma active_ids: "ids_inv s \<Longrightarrow> active_inv s \<Longrightarrow> c \<in> active_conns s \<Longrightarrow> c < next_conn s"
  by (auto simp: ids_inv_def active_inv_def dest: held_grasped)

lemma ids_kept:
  assumes "transition cfg s s'" "ids_inv s" "active_inv s"
  shows "ids_inv s'"
  using assms(1) active_ids[OF assms(2, 3)] assms(2) by cases (auto simp: ids_inv_def less_Suc_eq domIff)

lemma active_kept: "transition cfg s s' \<Longrightarrow> ids_inv s \<Longrightarrow> active_inv s \<Longrightarrow> active_inv s'"
  by (cases rule: transition.cases, assumption) (auto simp: active_inv_def ids_inv_def dest: held_grasped)

lemma closed_kept: "transition cfg s s' \<Longrightarrow> closed_inv s \<Longrightarrow> closed_inv s'"
  by (cases rule: transition.cases, assumption) (auto simp: closed_inv_def less_Suc_eq)

lemma counted_finite: "ids_inv s \<Longrightarrow> finite (dom (tasks s)) \<and> finite (counted s) \<and> (active_inv s \<longrightarrow> finite (active_conns s))"
proof -
  assume ids: "ids_inv s"
  then have "dom (tasks s) \<subseteq> {..<next_conn s}" by (auto simp: ids_inv_def)
  then have fin: "finite (dom (tasks s))" by (rule finite_subset) simp
  have "finite (held_counted (acceptor s))" "finite (held_tracked (acceptor s))" by (cases "acceptor s"; simp)+
  with fin show ?thesis
    using finite_subset[OF live_dom fin] by (auto simp: counted_def active_inv_def)
qed

text \<open>How a step changes the set that the wait group counts.\<close>

lemma counted_kept:
  assumes "transition cfg s s'" "ids_inv s" "wg_inv s"
  shows "wg_inv s'"
proof -
  have fin: "finite (counted s)" using counted_finite[OF assms(2)] by blast
  then have parts: "finite (live counted_phases (tasks s))" by (simp add: counted_def)
  from assms(1) show ?thesis
  proof cases
    case (uncounted c)
    then have "c \<in> counted s" "c \<notin> held_counted (acceptor s)"
      using assms(2) by (auto simp: counted_def ids_inv_def dest: held_grasped)
    then have c: "counted s' = counted s - {c}" "card (counted s) \<noteq> 0" "card (counted s - {c}) = card (counted s) - 1"
      using uncounted fin by (auto simp: counted_def)
    with uncounted assms(3) show ?thesis by (simp add: wg_inv_def)
  qed (use parts fin assms(2, 3) in \<open>auto simp: wg_inv_def counted_def ids_inv_def card_insert_if insert_absorb
      dest: held_grasped\<close>)
qed

lemma limits_kept:
  assumes "transition cfg s s'" "ids_inv s" "active_inv s" "limits_inv cfg s"
  shows "limits_inv cfg s'"
proof -
  have fin: "finite (dom (tasks s))" "finite (active_conns s)" using counted_finite[OF assms(2)] assms(3) by blast+
  have less: "card (active_conns s - {c}) \<le> card (active_conns s)" "card (dom (tasks s) - {c}) \<le> card (dom (tasks s))" for c
    using fin by (auto intro: card_mono)
  have same: "tasks s c = Some t \<Longrightarrow> insert c (dom (tasks s)) = dom (tasks s)" for c t by auto
  from assms(1) show ?thesis
    using assms(4) fin less order_trans[OF of_nat_mono[OF less(1)]] order_trans[OF of_nat_mono[OF less(2)]]
    by cases (auto simp: limits_inv_def card_insert_if same split: if_splits)
qed

lemma shutdown_kept:
  assumes "transition cfg s s'" "ids_inv s" "wg_inv s" "shutdown_inv s"
  shows "shutdown_inv s'"
proof -
  have "finite (counted s)" using counted_finite[OF assms(2)] by blast
  then have zero: "wg s = 0 \<Longrightarrow> counted s = {}" using assms(3) by (simp add: wg_inv_def)
  from assms(1) show ?thesis
    using assms(4) zero by cases (auto simp: shutdown_inv_def counted_def)
qed

lemma end_kept:
  assumes "transition cfg s s'" "shutdown_inv s" "end_inv cfg s"
  shows "end_inv cfg s'"
  using assms
  by cases (auto simp: end_inv_def shutdown_inv_def split: acceptor.splits)

lemma server_inv_kept: "transition cfg s s' \<Longrightarrow> server_inv cfg s \<Longrightarrow> server_inv cfg s'"
  unfolding server_inv_def
  by (blast intro: ids_kept active_kept counted_kept closed_kept limits_kept shutdown_kept end_kept)

lemma server_inv_init: "server_inv cfg initial_server"
  by (simp add: server_inv_def initial_server_def ids_inv_def active_inv_def wg_inv_def closed_inv_def limits_inv_def
      shutdown_inv_def end_inv_def counted_def)

lemma reachable_inv: "reachable cfg s \<Longrightarrow> server_inv cfg s"
  by (induction rule: reachable.induct) (auto intro: server_inv_init server_inv_kept exec_transition)

section \<open>The work that is left in a shutdown\<close>

fun task_rank :: "task \<Rightarrow> nat" where
  "task_rank TaskStarted = 6" | "task_rank TaskServing = 5" | "task_rank TaskHandled = 4"
| "task_rank TaskClosed = 3" | "task_rank TaskDeleted = 2" | "task_rank TaskTail = 1"

definition task_work :: "(nat \<rightharpoonup> task) \<Rightarrow> nat" where
  "task_work f = (\<Sum>c\<in>dom f. task_rank (the (f c)))"

text \<open>A hand-over can still become a task.\<close>

fun acceptor_rank :: "acceptor \<Rightarrow> nat" where
  "acceptor_rank (HandOff c) = 12" | "acceptor_rank (Rejecting c) = 6" | "acceptor_rank AtAccept = 5"
| "acceptor_rank (HasConn c) = 4" | "acceptor_rank (LateConn c) = 3" | "acceptor_rank (Cancelled c) = 4"
| "acceptor_rank (CancelledDeleted c) = 3" | "acceptor_rank (Deferred r) = 2" | "acceptor_rank (Draining r) = 1"
| "acceptor_rank (ServeReturned r) = 0"

fun shutdown_rank :: "nat \<Rightarrow> shutdown_phase \<Rightarrow> nat" where
  "shutdown_rank n ShIdle = 7 + n" | "shutdown_rank n ShBegun = 6 + n" | "shutdown_rank n ShWaiting = 5 + n"
| "shutdown_rank n ShSnapshot = 4 + n" | "shutdown_rank n (ShClosing ds) = 2 + length ds"
| "shutdown_rank n ShWaitAll = 1" | "shutdown_rank n ShDone = 0"

definition remaining :: "server_state \<Rightarrow> nat" where
  "remaining s = acceptor_rank (acceptor s) + task_work (tasks s) +
     shutdown_rank (card (active_conns s)) (shutdown s) + (if ctx_done s then 0 else 1)"

lemma task_work_set:
  assumes "finite (dom f)"
  shows "f c = None \<Longrightarrow> task_work (f(c \<mapsto> t')) = task_work f + task_rank t'"
    and "f c = Some t \<Longrightarrow> task_work (f(c \<mapsto> t')) + task_rank t = task_work f + task_rank t'"
    and "f c = Some t \<Longrightarrow> task_work (f(c := None)) + task_rank t = task_work f"
proof -
  have other: "(\<Sum>d\<in>dom f - {c}. task_rank (the ((f(c := x)) d))) = (\<Sum>d\<in>dom f - {c}. task_rank (the (f d)))" for x
    by (rule sum.cong) auto
  have split: "f c = Some t \<Longrightarrow> task_work f = task_rank t + (\<Sum>d\<in>dom f - {c}. task_rank (the (f d)))" for t
    unfolding task_work_def using assms by (subst sum.remove[of _ c]) auto
  show "f c = None \<Longrightarrow> task_work (f(c \<mapsto> t')) = task_work f + task_rank t'"
    using assms other[of "Some t'"] by (simp add: task_work_def sum.insert_remove del: fun_upd_apply) (simp add: domIff)
  show "f c = Some t \<Longrightarrow> task_work (f(c \<mapsto> t')) + task_rank t = task_work f + task_rank t'"
    using assms other[of "Some t'"] split[of t] by (simp add: task_work_def sum.insert_remove del: fun_upd_apply) simp
  show "f c = Some t \<Longrightarrow> task_work (f(c := None)) + task_rank t = task_work f"
    using other[of None] split[of t] by (simp add: task_work_def)
qed

lemma shutdown_rank_mono: "m \<le> n \<Longrightarrow> shutdown_rank m p \<le> shutdown_rank n p"
  by (cases p) auto

text \<open>Once the shutdown has begun every step of the server is a step towards its end.\<close>

lemma shutdown_progress:
  assumes "transition cfg s s'" "server_inv cfg s" "shutting_down s"
  shows "shutting_down s' \<and> remaining s' < remaining s"
proof -
  have inv: "ids_inv s" "active_inv s" "shutdown_inv s" using assms(2) by (simp_all add: server_inv_def)
  have fin: "finite (dom (tasks s))" "finite (active_conns s)" using counted_finite[OF inv(1)] inv(2) by blast+
  have sh: "shutdown s \<noteq> ShIdle" using inv(3) assms(3) by (simp add: shutdown_inv_def)
  have fewer: "shutdown_rank (card (active_conns s - {c})) p \<le> shutdown_rank (card (active_conns s)) p" for c p
    using fin by (intro shutdown_rank_mono card_mono) auto
  have fresh: "acceptor s = HandOff c \<Longrightarrow> tasks s c = None" for c using inv(1) by (simp add: ids_inv_def)
  from assms(1) show ?thesis
  proof cases
    case (hand_off c)
    with task_work_set(1)[OF fin(1) fresh] assms(3) show ?thesis by (simp add: remaining_def)
  next
    case (snapshot cs)
    then show ?thesis using distinct_card[OF snapshot(3)] assms(3) by (simp add: remaining_def)
  next
    case (started c) then show ?thesis using task_work_set(2)[OF fin(1) started(2), of TaskServing] assms(3) by (simp add: remaining_def)
  next
    case (handled c) then show ?thesis using task_work_set(2)[OF fin(1) handled(2), of TaskHandled] assms(3) by (simp add: remaining_def)
  next
    case (closed c) then show ?thesis using task_work_set(2)[OF fin(1) closed(2), of TaskClosed] assms(3) by (simp add: remaining_def)
  next
    case (deleted c)
    then show ?thesis using task_work_set(2)[OF fin(1) deleted(2), of TaskDeleted] fewer[of c "shutdown s"] assms(3)
      by (simp add: remaining_def)
  next
    case (uncounted c) then show ?thesis using task_work_set(2)[OF fin(1) uncounted(2), of TaskTail] assms(3) by (simp add: remaining_def)
  next
    case (gone c) then show ?thesis using task_work_set(3)[OF fin(1) gone(2)] assms(3) by (simp add: remaining_def)
  next
    case (cancelled c) then show ?thesis using fewer[of c "shutdown s"] assms(3) by (simp add: remaining_def)
  qed (use assms(3) sh in \<open>auto simp: remaining_def\<close>)
qed

text \<open>A server in shutdown that cannot move has returned from \<open>Serve\<close>.\<close>

lemma shutdown_not_stuck:
  assumes inv: "server_inv cfg s" and "shutting_down s" and stuck: "\<And>e. exec_event cfg e s = None"
  shows "(\<exists>r. acceptor s = ServeReturned r) \<and> tasks s = (\<lambda>_. None) \<and> active_conns s = {}"
proof -
  have i: "ids_inv s" "active_inv s" "wg_inv s" "limits_inv cfg s" "shutdown_inv s" using inv by (simp_all add: server_inv_def)
  have tasks: "tasks s = (\<lambda>_. None)"
  proof
    fix c show "tasks s c = None"
    proof (cases "tasks s c")
      case (Some t)
      with stuck[of "EvTask c"] show ?thesis by (cases t) (simp_all add: exec_event_def task_step_def)
    qed
  qed
  have acc: "acceptor_step cfg s = None" "acceptor s \<noteq> AtAccept"
    using stuck[of EvAcceptor] stuck[of EvAcceptError] by (auto simp: exec_event_def)
  have no_hold: "held_counted (acceptor s) = {}"
  proof (cases "acceptor s")
    case (HandOff c)
    then have "0 < handler_workers cfg" using i(4) by (auto simp: limits_inv_def split: if_splits)
    with stuck[of EvHandOff] HandOff tasks show ?thesis by (simp add: exec_event_def)
  qed (use acc in \<open>simp_all add: acceptor_step_def\<close>)
  have "wg s = 0" using i(3) no_hold tasks by (simp add: wg_inv_def counted_def)
  have "finite (active_conns s)" using counted_finite[OF i(1)] i(2) by blast
  then obtain cs where cs: "distinct cs" "set cs = active_conns s" using finite_distinct_list by blast
  have step: "shutdown_step x ds s = None" for x ds using stuck[of "EvShutdown x ds"] by (simp add: exec_event_def)
  have ended: "shutdown s = ShDone"
  proof (cases "shutdown s")
    case ShIdle then show ?thesis using i(5) assms(2) by (simp add: shutdown_inv_def)
  next
    case ShBegun then show ?thesis using step[of True "[]"] by (simp add: shutdown_defs)
  next
    case ShWaiting then show ?thesis using step[of True "[]"] by (simp add: shutdown_defs)
  next
    case ShSnapshot then show ?thesis using step[of True cs] cs by (simp add: shutdown_defs)
  next
    case (ShClosing ds) then show ?thesis using step[of True "[]"] by (cases ds) (simp_all add: shutdown_defs)
  next
    case ShWaitAll then show ?thesis using step[of True "[]"] \<open>wg s = 0\<close> by (simp add: shutdown_defs)
  qed
  have "\<exists>r. acceptor s = ServeReturned r"
    using acc no_hold ended tasks
    by (cases "acceptor s") (auto simp: acceptor_step_def track_conn_def split: if_splits)
  moreover have "active_conns s = {}" using i(2) tasks calculation by (auto simp: active_inv_def)
  ultimately show ?thesis using tasks by blast
qed

lemma run_reachable: "reachable cfg s \<Longrightarrow> run_events cfg es s = Some s' \<Longrightarrow> reachable cfg s'"
  by (induction es arbitrary: s) (auto simp: bind_eq_Some_conv intro: reach_step)

lemma run_remaining:
  "server_inv cfg s \<Longrightarrow> shutting_down s \<Longrightarrow> run_events cfg es s = Some s' \<Longrightarrow>
     server_inv cfg s' \<and> shutting_down s' \<and> length es + remaining s' \<le> remaining s"
proof (induction es arbitrary: s)
  case (Cons e es)
  obtain t where t: "exec_event cfg e s = Some t" "run_events cfg es t = Some s'"
    using Cons.prems(3) by (auto simp: bind_eq_Some_conv)
  have tr: "transition cfg s t" using exec_transition[OF t(1)] .
  have "server_inv cfg t" "shutting_down t" "remaining t < remaining s"
    using server_inv_kept[OF tr Cons.prems(1)] shutdown_progress[OF tr Cons.prems(1, 2)] by blast+
  with Cons.IH[OF _ _ t(2)] show ?case by fastforce
qed simp

section \<open>Properties\<close>

text \<open>
  C20. Limits and counters, in every reachable state: no more connections are tracked than
  MaxActiveConns, no more are served at once than there are workers, and the wait group counts
  the connections that are not yet done with, so that it never goes negative (which would be a
  panic) and is at least the number of tracked connections. After the shutdown has begun nothing
  is added to the set or to the wait group.
\<close>

theorem server_limits:
  assumes "reachable cfg s"
  shows "(0 < max_active_conns cfg \<longrightarrow> int (card (active_conns s)) \<le> max_active_conns cfg) \<and>
    (0 < handler_workers cfg \<longrightarrow> int (card (dom (tasks s))) \<le> handler_workers cfg) \<and>
    int (card (active_conns s)) \<le> wg s \<and>
    (\<forall>e s'. shutting_down s \<and> exec_event cfg e s = Some s' \<longrightarrow> active_conns s' \<subseteq> active_conns s \<and> wg s' \<le> wg s)"
proof -
  have inv: "server_inv cfg s" using reachable_inv[OF assms] .
  then have i: "ids_inv s" "active_inv s" "wg_inv s" "limits_inv cfg s" by (simp_all add: server_inv_def)
  have "finite (counted s)" using counted_finite[OF i(1)] by blast
  moreover have "active_conns s \<subseteq> counted s"
    using i(2) by (cases "acceptor s") (auto simp: active_inv_def counted_def)
  ultimately have "card (active_conns s) \<le> card (counted s)" by (rule card_mono)
  moreover have "active_conns s' \<subseteq> active_conns s \<and> wg s' \<le> wg s" if "shutting_down s" "exec_event cfg e s = Some s'" for e s'
    using exec_transition[OF that(2)] that(1) by cases auto
  ultimately show ?thesis using i(3, 4) by (auto simp: limits_inv_def wg_inv_def split: if_splits)
qed

text \<open>A server with room for one connection, two clients, and a shutdown.\<close>

definition one_conn :: tcp_config where
  "one_conn = \<lparr>tcp_addr = [], tcp_read_timeout = 0, tcp_write_timeout = 0, graceful_timeout = 0, handler_workers = 0, max_active_conns = 1\<rparr>"

definition busy_events :: "server_event list" where
  "busy_events = [EvAccept, EvAcceptor, EvAccept, EvAcceptor, EvAcceptor, EvTask 0, EvCancel, EvShutdownByWatcher]"

definition busy_server :: server_state where
  "busy_server = initial_server\<lparr>active_conns := {0}, wg := 1, rejected_conns := 1, shutting_down := True, ctx_done := True,
     closed_conns := {1}, next_conn := 2, tasks := [0 \<mapsto> TaskServing], shutdown := ShBegun\<rparr>"

definition closing_events :: "server_event list" where
  "closing_events = [EvShutdown False [], EvAcceptError, EvShutdown True [], EvShutdown True [0], EvShutdown True [],
     EvShutdown True [], EvTask 0, EvTask 0, EvTask 0, EvTask 0, EvShutdown False [], EvAcceptor, EvAcceptor, EvTask 0]"

definition closed_server :: server_state where
  "closed_server = initial_server\<lparr>rejected_conns := 1, shutting_down := True, ctx_done := True, listener_closed := True,
     closed_conns := {0, 1}, next_conn := 2, acceptor := ServeReturned ServeNil, shutdown := ShDone\<rparr>"

lemma busy_run: "run_events one_conn busy_events initial_server = Some busy_server"
  by (simp add: busy_events_def busy_server_def one_conn_def initial_server_def step_defs)

lemma closing_run: "run_events one_conn closing_events busy_server = Some closed_server"
  by (simp add: closing_events_def closed_server_def busy_server_def one_conn_def initial_server_def step_defs insert_commute
      fun_eq_iff)

lemma busy_reachable: "reachable one_conn busy_server"
  using run_reachable[OF reach_init busy_run] .

lemma closed_reachable: "reachable one_conn closed_server"
  using run_reachable[OF busy_reachable closing_run] .

theorem server_limits_witness: "card (active_conns busy_server) = 1 \<and> int (card (active_conns busy_server)) \<le> wg busy_server"
  using server_limits[OF busy_reachable] by (simp add: busy_server_def)

text \<open>
  C19. No connection outlives \<open>Serve\<close>: when it has returned, for whatever reason, every connection it
  ever accepted is closed, none is tracked, the wait group is at zero and the listener is
  closed; with workers none is still running. It returns nil only if the context was cancelled.
\<close>

theorem serve_returns_clean:
  assumes "reachable cfg s" "acceptor s = ServeReturned r"
  shows "(\<forall>c < next_conn s. c \<in> closed_conns s) \<and> active_conns s = {} \<and> wg s = 0 \<and> listener_closed s \<and>
    (0 < handler_workers cfg \<longrightarrow> tasks s = (\<lambda>_. None)) \<and> (r = ServeNil \<longrightarrow> ctx_done s)"
proof -
  have inv: "server_inv cfg s" using reachable_inv[OF assms(1)] .
  then have i: "active_inv s" "wg_inv s" "closed_inv s" "shutdown_inv s" "end_inv cfg s" by (simp_all add: server_inv_def)
  have e: "shutdown s = ShDone" "0 < handler_workers cfg \<longrightarrow> tasks s = (\<lambda>_. None)" "r = ServeNil \<longrightarrow> ctx_done s"
    using i(5) assms(2) by (simp_all add: end_inv_def)
  then have "counted s = {}" using i(4) by (simp add: shutdown_inv_def)
  then have "live counted_phases (tasks s) = {}" by (simp add: counted_def)
  then have "live tracked_phases (tasks s) = {}" "live open_phases (tasks s) = {}" by (auto simp: live_def)
  with i(1-4) e assms(2) \<open>counted s = {}\<close> show ?thesis
    by (auto simp: active_inv_def wg_inv_def closed_inv_def shutdown_inv_def)
qed

theorem serve_returns_clean_witness:
  "0 \<in> closed_conns closed_server \<and> 1 \<in> closed_conns closed_server \<and> wg closed_server = 0"
proof -
  have r: "acceptor closed_server = ServeReturned ServeNil" "next_conn closed_server = 2" by (simp_all add: closed_server_def)
  from serve_returns_clean[OF closed_reachable r(1)] r(2) show ?thesis by simp
qed

text \<open>
  Shutdown completes: once it has begun, by a cancelled context or a failed listener, only
  boundedly many steps remain, whatever the interleaving, including those of the handlers (each
  of which is taken to return); and a server that cannot take a step has returned from \<open>Serve\<close>
  and finished with every connection. There is no deadlock with workers that are all busy, with
  a hand-over in progress, or between the two callers of the shutdown function.
\<close>

theorem shutdown_completes:
  assumes "reachable cfg s" "shutting_down s"
  shows "\<exists>n. \<forall>es s'. run_events cfg es s = Some s' \<longrightarrow> length es \<le> n \<and>
    ((\<forall>e. exec_event cfg e s' = None) \<longrightarrow>
       (\<exists>r. acceptor s' = ServeReturned r) \<and> tasks s' = (\<lambda>_. None) \<and> active_conns s' = {})"
proof (intro exI[of _ "remaining s"] allI impI)
  fix es s'
  assume run: "run_events cfg es s = Some s'"
  from run_remaining[OF reachable_inv[OF assms(1)] assms(2) run]
  show "length es \<le> remaining s \<and> ((\<forall>e. exec_event cfg e s' = None) \<longrightarrow>
       (\<exists>r. acceptor s' = ServeReturned r) \<and> tasks s' = (\<lambda>_. None) \<and> active_conns s' = {})"
    using shutdown_not_stuck by fastforce
qed

theorem shutdown_completes_witness:
  "\<exists>n. \<forall>es s'. run_events one_conn es busy_server = Some s' \<longrightarrow> length es \<le> n"
proof -
  have "shutting_down busy_server" by (simp add: busy_server_def)
  from shutdown_completes[OF busy_reachable this] show ?thesis by blast
qed

section \<open>The echo loop\<close>

lemma echo_prefix: "\<exists>p. sink_sent (snd (echo_loop cfg ds src out)) = sink_sent out @ p \<and> prefix p (src_bytes src)"
proof (induction cfg ds src out rule: echo_loop.induct)
  case (1 cfg ds src out)
  obtain ok1 ds1 where d1: "take_deadline (tcp_read_timeout cfg) ds = (ok1, ds1)" by fastforce
  obtain got err src' where r: "src_read buffer_size src = (got, err, src')" by (metis prod_cases3)
  obtain ok2 ds2 where d2: "take_deadline (tcp_write_timeout cfg) ds1 = (ok2, ds2)" by fastforce
  obtain out' werr where w: "sink_write got out = (out', werr)" by fastforce
  have b: "src_bytes src = got @ src_bytes src'" using src_read_pending[OF r] by (simp add: buffer_size_def)
  obtain q where q: "sink_sent out' = sink_sent out @ q" "prefix q got" "werr = None \<longrightarrow> q = got"
    using conn.write_all[of got out out'] conn.write_fail[of got out out'] w
    by (cases werr) (auto simp: strict_prefix_def)
  note IH = 1(1)[OF d1[symmetric] _ r[symmetric] refl] 1(2)[OF d1[symmetric] _ r[symmetric] refl]
  show ?case
  proof (cases "ok1 \<and> got \<noteq> [] \<and> ok2 \<and> werr = None \<and> err = None")
    case True
    with IH(1)[OF _ _ d2[symmetric] _ w[symmetric]] obtain p where
      "sink_sent (snd (echo_loop cfg ds2 src' out')) = sink_sent out' @ p" "prefix p (src_bytes src')" by auto
    with True q b show ?thesis
      by (intro exI[of _ "got @ p"]) (simp add: echo_loop.simps[of cfg ds src out] d1 d2 r w)
  next
    case no: False
    show ?thesis
    proof (cases "ok1 \<and> got = [] \<and> err = None")
      case True
      with IH(2) b show ?thesis by (auto simp: echo_loop.simps[of cfg ds src out] d1 r)
    next
      case False
      with no q b show ?thesis
        by (auto simp: echo_loop.simps[of cfg ds src out] d1 d2 r w prefix_def)
    qed
  qed
qed

text \<open>
  C21. The default handler is an echo: on any connection it sends back a prefix of what it reads,
  and if no call fails, everything, in order, whatever the segmentation.
\<close>

theorem echo_exact:
  "(\<exists>p. sink_sent (snd (echo_loop cfg ds src out)) = sink_sent out @ p \<and> prefix p (src_bytes src)) \<and>
   (sink_room out = None \<longrightarrow> (\<forall>ok\<in>set ds. ok) \<longrightarrow>
      sink_sent (snd (echo_loop cfg ds src out)) = sink_sent out @ src_bytes src)"
proof (rule conjI[OF echo_prefix], intro impI)
  have tk: "\<forall>ok\<in>set ds. ok \<Longrightarrow> \<exists>ds'. take_deadline t ds = (True, ds') \<and> (\<forall>ok\<in>set ds'. ok)" for t ds
    by (cases ds) (auto simp: take_deadline_def)
  show "sink_sent (snd (echo_loop cfg ds src out)) = sink_sent out @ src_bytes src"
    if "sink_room out = None" "\<forall>ok\<in>set ds. ok"
    using that
  proof (induction "length (src_bytes src)" arbitrary: ds src out rule: less_induct)
    case less
    obtain ds1 where d1: "take_deadline (tcp_read_timeout cfg) ds = (True, ds1)" "\<forall>ok\<in>set ds1. ok" using tk[OF less.prems(2)] by blast
    obtain ds2 where d2: "take_deadline (tcp_write_timeout cfg) ds1 = (True, ds2)" "\<forall>ok\<in>set ds2. ok" using tk[OF d1(2)] by blast
    obtain got err src' where r: "src_read buffer_size src = (got, err, src')" by (metis prod_cases3)
    have b: "src_bytes src = got @ src_bytes src'" using src_read_pending[OF r] by (simp add: buffer_size_def)
    let ?out = "out\<lparr>sink_sent := sink_sent out @ got\<rparr>"
    have w: "sink_write got out = (?out, None)" using less.prems(1) by (simp add: sink_write_def)
    show ?case
    proof (cases err)
      case None
      then have "got \<noteq> []" "length (src_bytes src') < length (src_bytes src)"
        using src_read_decreases[of _ src got src'] r by (auto simp: buffer_size_def)
      with less.hyps[of src' ?out ds2] less.prems(1) d1(1) d2 r w b None show ?thesis
        by (simp add: echo_loop.simps[of cfg ds src out])
    next
      case (Some e)
      then have "src_bytes src' = []"
        using r src_read_some[of src buffer_size] src_read_empty[of src buffer_size]
        by (cases "src_bytes src = []") (auto simp: buffer_size_def src_bytes_def split: if_splits)
      with Some d1(1) d2(1) r w b show ?thesis
        by (simp add: echo_loop.simps[of cfg ds src out])
    qed
  qed
qed

theorem echo_exact_witness:
  "sink_sent (snd (echo_loop one_conn [] \<lparr>segs = [''ab'', ''c''], src_err = IoEOF, src_eager = False\<rparr>
     \<lparr>sink_sent = [], sink_room = None\<rparr>)) = ''abc''"
  using echo_exact[of one_conn "[]" "\<lparr>segs = [''ab'', ''c''], src_err = IoEOF, src_eager = False\<rparr>"
      "\<lparr>sink_sent = [], sink_room = None\<rparr>"]
  by (simp add: src_bytes_def)

end
