(* ===== verification/Go_Flag_Facts.thy ===== *)
theory Go_Flag_Facts
  imports Go_Flag
begin

text \<open>
  What the standard library's readers of command lines make of what its writers print:
  integers, booleans and durations are read back; and a command line of well-formed
  assignments sets exactly these.
\<close>

section \<open>Integers and booleans\<close>

lemma nat_dec_hd_zero: "hd (nat_dec n) = CHR ''0'' \<Longrightarrow> n = 0"
proof (induction n rule: nat_dec.induct)
  case (1 n)
  show ?case
  proof (cases "n < 10")
    case True
    then have "of_char (hd (nat_dec n)) = (48 + n :: nat)" by (simp add: nat_dec.simps of_char_dec_digit)
    with 1(2) show ?thesis by simp
  next
    case False
    then have "hd (nat_dec n) = hd (nat_dec (n div 10))" by (simp add: nat_dec.simps[of n])
    with 1 False show ?thesis by simp
  qed
qed

lemma digit_val_less: "is_digit c \<Longrightarrow> digit_val c < 10"
  unfolding is_digit_def digit_val_def by linarith

lemma base_digits_decimal:
  "list_all is_digit ds \<Longrightarrow> base_digits 10 ds n = Some (foldl (\<lambda>a c. 10 * a + digit_val c) n ds)"
proof (induction ds arbitrary: n)
  case (Cons c ds)
  then have "c \<noteq> CHR ''_''" "digit_val c < 10" by (auto simp: digit_val_less) (simp add: is_digit_def)
  with Cons show ?case by (simp add: any_digit_def mult.commute)
qed simp

lemma parse_uint_nat_dec: "parse_uint_base0 (nat_dec n) = Some n"
proof (cases "n = 0")
  case True
  have "parse_uint_base0 (nat_dec 0) = Some 0" by code_simp
  with True show ?thesis by simp
next
  case False
  have digits: "list_all is_digit (nat_dec n)" by simp
  have "hd (nat_dec n) \<noteq> CHR ''0''" using False nat_dec_hd_zero by blast
  then have "base_prefix (nat_dec n) = (10, nat_dec n)"
    by (auto simp: base_prefix_def split: list.split)
  moreover have "base_digits 10 (nat_dec n) 0 = Some n"
    by (simp add: base_digits_decimal dec_val_def[symmetric])
  moreover have "CHR ''_'' \<notin> set (nat_dec n)" by (auto dest!: nat_dec_set simp: is_digit_def)
  ultimately show ?thesis by (simp add: parse_uint_base0_def)
qed

lemma parse_int_base0_format:
  assumes "min_int64 \<le> i" "i \<le> max_int64"
  shows "parse_int_base0 (format_int i) = Some i"
proof (cases "i < 0")
  case True
  with assms show ?thesis by (simp add: parse_int_base0_def format_int_def parse_uint_nat_dec)
next
  case False
  obtain c r where cr: "nat_dec (nat i) = c # r" using nat_dec_ne by (meson neq_Nil_conv)
  then have "c \<noteq> CHR ''-''" "c \<noteq> CHR ''+''" using nat_dec_set[of c "nat i"] by (auto dest: is_digit_not_sign)
  then have "parse_int_base0 (c # r) =
      (case parse_uint_base0 (c # r) of None \<Rightarrow> None | Some n \<Rightarrow> if int n \<le> max_int64 then Some (int n) else None)"
    by (simp add: parse_int_base0_def Let_def split: option.splits)
  with False assms show ?thesis
    by (simp add: format_int_def cr[symmetric] parse_uint_nat_dec)
qed

definition format_bool :: "bool \<Rightarrow> bytes" where
  "format_bool b = (if b then ''true'' else ''false'')"

lemma parse_bool_format: "parse_bool (format_bool b) = Some b"
  by (cases b) (simp_all add: parse_bool_def format_bool_def)

section \<open>Durations\<close>

lemma digits_span:
  assumes "list_all is_digit ds" "r = [] \<or> \<not> is_digit (hd r)"
  shows "takeWhile is_digit (ds @ r) = ds" "dropWhile is_digit (ds @ r) = r"
  using assms by (induction ds; cases r; auto)+

lemma leading_fraction_digits:
  assumes "list_all is_digit ds" "(a + 1) * 10 ^ length ds \<le> (9223372036854775808 :: nat)"
  shows "leading_fraction ds (int a) sc False = (int (foldl (\<lambda>a c. 10 * a + digit_val c) a ds), sc * 10 ^ length ds)"
  using assms
proof (induction ds arbitrary: a sc)
  case (Cons c ds)
  have d: "digit_val c < 10" using Cons.prems(1) by (simp add: digit_val_less)
  have b: "(a + 1) * 10 * 10 ^ length ds \<le> (9223372036854775808 :: nat)" using Cons.prems(2) by (simp add: algebra_simps)
  have "(a + 1) * 10 * 1 \<le> (a + 1) * 10 * 10 ^ length ds" by (intro mult_le_mono2) simp
  with b have a10: "(a + 1) * 10 \<le> (9223372036854775808 :: nat)" by linarith
  have "(10 * a + digit_val c + 1) * 10 ^ length ds \<le> (a + 1) * 10 * 10 ^ length ds"
    using d by (intro mult_le_mono1) simp
  with b have "(10 * a + digit_val c + 1) * 10 ^ length ds \<le> (9223372036854775808 :: nat)" by linarith
  from Cons.IH[OF _ this, of "sc * 10"] Cons.prems(1) a10 d show ?case
    by (simp add: Let_def mult.commute)
qed simp

lemma duration_unit_plain:
  "map_of duration_units u = Some unit \<Longrightarrow> u \<noteq> [] \<and> (\<forall>c\<in>set u. c \<noteq> CHR ''.'' \<and> \<not> is_digit c) \<and> 0 < unit"
  by (auto simp: duration_units_def is_digit_def split: if_splits)

lemma unit_span:
  assumes "\<forall>c\<in>set u. c \<noteq> CHR ''.'' \<and> \<not> is_digit c" "rest = [] \<or> is_digit (hd rest)"
  shows "takeWhile (\<lambda>c. c \<noteq> CHR ''.'' \<and> \<not> is_digit c) (u @ rest) = u"
  using assms by (induction u; cases rest; auto)

lemma duration_segment_unit:
  assumes unit: "map_of duration_units u = Some unit" and rest: "rest = [] \<or> is_digit (hd rest)"
    and fs: "list_all is_digit fs"
    and frac: "(case leading_fraction fs 0 1 False of (f, scale) \<Rightarrow> if 0 < f then scale_fraction f unit scale else 0) = w"
    and w: "0 \<le> w" and bound: "int n * unit + w \<le> 9223372036854775808"
  shows "duration_segment (nat_dec n @ (if fs = [] then [] else CHR ''.'' # fs) @ u @ rest) = Some (int n * unit + w, rest)"
proof -
  note u = duration_unit_plain[OF unit]
  have unit_text: "takeWhile (\<lambda>c. c \<noteq> CHR ''.'' \<and> \<not> is_digit c) (u @ rest) = u"
    using u rest by (intro unit_span) auto
  have hd: "\<not> is_digit (hd (u @ rest))" "hd (u @ rest) \<noteq> CHR ''.''" using u by (auto simp: hd_append)
  let ?t = "(if fs = [] then [] else CHR ''.'' # fs) @ u @ rest"
  have "\<not> is_digit CHR ''.''" by (simp add: is_digit_def)
  with hd u have "?t = [] \<or> \<not> is_digit (hd ?t)" by simp
  from digits_span[OF nat_dec_digits[of n] this]
  have s: "takeWhile is_digit (nat_dec n @ ?t) = nat_dec n" "dropWhile is_digit (nat_dec n @ ?t) = ?t" by simp_all
  have f: "takeWhile is_digit (fs @ u @ rest) = fs" "dropWhile is_digit (fs @ u @ rest) = u @ rest"
    using digits_span[OF fs, of "u @ rest"] hd by simp_all
  have n: "int n \<le> int n * unit" using u mult_left_mono[of 1 unit "int n"] by simp
  moreover have "int n \<le> 9223372036854775808 div unit"
    using zdiv_mono1[of "int n * unit" 9223372036854775808 unit] bound w u by simp
  ultimately have "\<not> 9223372036854775808 < int n" "\<not> 9223372036854775808 div unit < int n"
    using bound w by linarith+
  then show ?thesis
    unfolding duration_segment_def s Let_def using u f hd unit_text frac bound unit w
    by (cases "fs = []") (auto simp: case_prod_beta)
qed

text \<open>The fraction that \<open>fmtFrac\<close> prints, read back in float64 without an error.\<close>

lemma strip_zeros: "\<exists>k. s = rev (dropWhile (\<lambda>c. c = CHR ''0'') (rev s)) @ replicate k CHR ''0''"
proof -
  have "set (takeWhile (\<lambda>c. c = CHR ''0'') (rev s)) \<subseteq> {CHR ''0''}" by (auto dest: set_takeWhileD)
  then have "takeWhile (\<lambda>c. c = CHR ''0'') (rev s) = replicate (length (takeWhile (\<lambda>c. c = CHR ''0'') (rev s))) CHR ''0''"
    by (intro replicate_eqI) auto
  then have "rev (takeWhile (\<lambda>c. c = CHR ''0'') (rev s)) =
      replicate (length (takeWhile (\<lambda>c. c = CHR ''0'') (rev s))) CHR ''0''"
    by (metis rev_replicate)
  moreover have "s = rev (dropWhile (\<lambda>c. c = CHR ''0'') (rev s)) @ rev (takeWhile (\<lambda>c. c = CHR ''0'') (rev s))"
    by (metis rev_append rev_rev_ident takeWhile_dropWhile_id)
  ultimately show ?thesis by metis
qed

lemma dec_val_append_zeros: "dec_val (s @ replicate k CHR ''0'') = dec_val s * 10 ^ k"
proof (induction k)
  case (Suc k)
  have "dec_val (s @ replicate (Suc k) CHR ''0'') = dec_val ((s @ replicate k CHR ''0'') @ [CHR ''0''])"
    by (simp add: replicate_append_same)
  with Suc show ?case by (simp only: dec_val_snoc) (simp add: digit_val_def)
qed simp

lemma format_fraction_value:
  assumes v: "0 < prec" "prec \<le> 9"
  obtains fs where "format_fraction prec v = (if fs = [] then [] else CHR ''.'' # fs)" "list_all is_digit fs"
    "(case leading_fraction fs 0 1 False of (f, scale) \<Rightarrow> if 0 < f then scale_fraction f (10 ^ prec) scale else 0)
      = v mod 10 ^ prec"
proof -
  define m where "m = v mod 10 ^ prec"
  have m: "0 \<le> m" "m < 10 ^ prec" by (simp_all add: m_def)
  define fs where "fs = rev (dropWhile (\<lambda>c. c = CHR ''0'') (rev (pad_int prec m)))"
  obtain k where k: "pad_int prec m = fs @ replicate k CHR ''0''" using strip_zeros fs_def by blast
  note pad = pad_int_digits[OF m v(1)]
  have digits: "list_all is_digit fs" and len: "length fs + k = prec" using pad by (simp_all add: k)
  have val: "m = int (dec_val fs) * 10 ^ k"
    using pad m unfolding k dec_val_append_zeros by (metis conjunct2 int_nat_eq of_nat_mult of_nat_numeral of_nat_power)
  have "(10 :: nat) ^ length fs \<le> 10 ^ 9" using len v by (intro power_increasing) auto
  then have "leading_fraction fs (int 0) 1 False = (int (foldl (\<lambda>a c. 10 * a + digit_val c) 0 fs), 1 * 10 ^ length fs)"
    using digits by (intro leading_fraction_digits) auto
  then have lead: "leading_fraction fs 0 1 False = (int (dec_val fs), 10 ^ length fs)" by (simp add: dec_val_def)
  have "scale_fraction (int (dec_val fs)) (10 ^ k * 10 ^ length fs) (10 ^ length fs) = int (dec_val fs) * 10 ^ k"
    if "0 < dec_val fs"
  proof (rule scale_fraction_exact)
    have "(10 :: int) ^ prec \<le> 10 ^ 9" using v by (intro power_increasing) auto
    then show "int (dec_val fs) * 10 ^ k < 2 ^ 53" using m val by simp
  qed (use that in auto)
  then have "(case leading_fraction fs 0 1 False of (f, scale) \<Rightarrow> if 0 < f then scale_fraction f (10 ^ prec) scale else 0) = m"
    unfolding lead using val len[symmetric] by (auto simp: power_add mult.commute)
  moreover have "format_fraction prec v = (if fs = [] then [] else CHR ''.'' # fs)"
    by (simp add: format_fraction_def m_def[symmetric] fs_def Let_def)
  ultimately show thesis using digits that by (simp add: m_def)
qed

lemma duration_segment_Nil [simp]: "duration_segment [] = None"
  by code_simp

lemma duration_loop_step:
  "duration_segment s = Some (v, rest) \<Longrightarrow> d + v \<le> 9223372036854775808 \<Longrightarrow>
     duration_loop s d = duration_loop rest (d + v)"
  by (cases "s = []") (auto simp: duration_loop.simps[of s])

lemma duration_segment_whole:
  assumes "map_of duration_units u = Some unit" "rest = [] \<or> is_digit (hd rest)" "0 \<le> a" "a * unit \<le> 9223372036854775808"
  shows "duration_segment (format_int a @ u @ rest) = Some (a * unit, rest)"
  using duration_segment_unit[OF assms(1,2), of "[]" 0 "nat a"] assms(3,4) by (simp add: format_int_def)

lemma duration_segment_scaled:
  assumes "map_of duration_units u = Some (10 ^ prec)" "0 < prec" "prec \<le> 9" "0 \<le> a"
    and "a * 10 ^ prec + v mod 10 ^ prec \<le> 9223372036854775808"
  shows "duration_segment (format_int a @ format_fraction prec v @ u) = Some (a * 10 ^ prec + v mod 10 ^ prec, [])"
proof -
  obtain fs where fs: "format_fraction prec v = (if fs = [] then [] else CHR ''.'' # fs)" "list_all is_digit fs"
    "(case leading_fraction fs 0 1 False of (f, scale) \<Rightarrow> if 0 < f then scale_fraction f (10 ^ prec) scale else 0)
      = v mod 10 ^ prec"
    using format_fraction_value[OF assms(2,3)] .
  show ?thesis
    using duration_segment_unit[OF assms(1) _ fs(2,3), of "[]" "nat a"] assms(4,5) fs(1) by (simp add: format_int_def)
qed

lemma duration_units_values:
  "map_of duration_units ''ns'' = Some 1" "map_of duration_units [CHR 0xC2, CHR 0xB5, CHR ''s''] = Some (10 ^ 3)"
  "map_of duration_units ''ms'' = Some (10 ^ 6)" "map_of duration_units ''s'' = Some (10 ^ 9)"
  "map_of duration_units ''m'' = Some 60000000000" "map_of duration_units ''h'' = Some 3600000000000"
  by (simp_all add: duration_units_def)

lemma format_int_hd: "0 \<le> a \<Longrightarrow> is_digit (hd (format_int a @ s))"
  using nat_dec_set[of "hd (nat_dec (nat a))" "nat a"] by (simp add: format_int_def)

lemma duration_loop_whole:
  assumes "map_of duration_units u = Some unit" "0 \<le> a" "0 \<le> d" "d + a * unit \<le> 9223372036854775808"
    and "t = [] \<or> is_digit (hd t)"
  shows "duration_loop (format_int a @ u @ t) d = duration_loop t (d + a * unit)"
  using assms by (intro duration_loop_step duration_segment_whole) auto

lemma duration_loop_scaled:
  assumes "map_of duration_units u = Some (10 ^ prec)" "0 < prec" "prec \<le> 9" "0 \<le> a" "0 \<le> d"
    and "d + (a * 10 ^ prec + v mod 10 ^ prec) \<le> 9223372036854775808"
  shows "duration_loop (format_int a @ format_fraction prec v @ u) d = Some (d + (a * 10 ^ prec + v mod 10 ^ prec))"
  using assms by (subst duration_loop_step[OF duration_segment_scaled]) (auto simp: duration_loop.simps)

lemma duration_loop_clock:
  assumes u: "0 \<le> u" "u \<le> 9223372036854775808"
  defines "secs \<equiv> u div 1000000000"
  defines "mins \<equiv> secs div 60"
  defines "hours \<equiv> mins div 60"
  shows "duration_loop ((if 0 < hours then format_int hours @ ''h'' else []) @
      (if 0 < mins then format_int (mins mod 60) @ ''m'' else []) @
      format_int (secs mod 60) @ format_fraction 9 u @ ''s'') 0 = Some u"
proof -
  have parts: "u = secs * 1000000000 + u mod 1000000000" "secs = mins * 60 + secs mod 60"
      "mins = hours * 60 + mins mod 60" "0 \<le> u mod 1000000000" "0 \<le> secs mod 60" "0 \<le> mins mod 60"
    by (simp_all add: secs_def mins_def hours_def div_mult_mod_eq)
  have pos: "0 \<le> mins" "0 \<le> hours"
    using u by (simp_all add: secs_def mins_def hours_def pos_imp_zdiv_nonneg_iff)
  define s where "s = format_int (secs mod 60) @ format_fraction 9 u @ ''s''"
  define m where "m = (if 0 < mins then format_int (mins mod 60) @ ''m'' @ s else s)"
  have hd: "is_digit (hd s)" "is_digit (hd m)" using parts by (simp_all add: s_def m_def format_int_hd)
  have s: "duration_loop s (hours * 3600000000000 + mins mod 60 * 60000000000) = Some u"
    unfolding s_def using parts pos u duration_units_values
    by (subst duration_loop_scaled) auto
  have "duration_loop m (hours * 3600000000000) = Some u"
  proof (cases "0 < mins")
    case True
    then show ?thesis
      unfolding m_def using s parts pos u hd duration_units_values
      by (simp add: duration_loop_whole[of "''m''", simplified])
  next
    case False
    with pos have "mins = 0" by simp
    with s show ?thesis by (simp add: m_def hours_def)
  qed
  moreover have "duration_loop (format_int hours @ ''h'' @ m) 0 = duration_loop m (0 + hours * 3600000000000)"
    using parts pos u hd duration_units_values by (intro duration_loop_whole) auto
  ultimately have "duration_loop (if 0 < hours then format_int hours @ ''h'' @ m else m) 0 = Some u"
    using pos by (cases "hours = 0") auto
  then show ?thesis by (simp add: m_def s_def if_distrib[of "\<lambda>x. x @ _"] cong: if_cong)
qed

lemma duration_loop_digits:
  assumes u: "0 \<le> u" "u \<le> 9223372036854775808"
  shows "duration_loop (duration_digits u) 0 = Some u"
proof -
  consider "u = 0" | "0 < u" "u < 1000" | "1000 \<le> u" "u < 1000000" | "1000000 \<le> u" "u < 1000000000" | "1000000000 \<le> u"
    using u by linarith
  then show ?thesis
  proof cases
    case 1
    have "duration_loop ''0s'' 0 = Some 0" by code_simp
    with 1 show ?thesis by (simp add: duration_digits_def)
  next
    case 2
    then show ?thesis
      using duration_loop_whole[OF duration_units_values(1), of u 0 "[]"]
      by (simp add: duration_digits_def duration_loop.simps)
  next
    case 3
    then show ?thesis
      using duration_loop_scaled[OF duration_units_values(2), of "u div 1000" 0 u]
      by (simp add: duration_digits_def format_scaled_def div_mult_mod_eq)
  next
    case 4
    then show ?thesis
      using duration_loop_scaled[OF duration_units_values(3), of "u div 1000000" 0 u]
      by (simp add: duration_digits_def format_scaled_def div_mult_mod_eq)
  next
    case 5
    then show ?thesis using duration_loop_clock[OF u] by (simp add: duration_digits_def Let_def)
  qed
qed

lemma duration_digits_start:
  assumes "0 \<le> u"
  shows "is_digit (hd (duration_digits u)) \<and> 2 \<le> length (duration_digits u)"
proof -
  have "format_int i \<noteq> []" for i by (simp add: format_int_def)
  then have "Suc 0 \<le> length (format_int i)" for i by (cases "format_int i") auto
  then have one: "Suc 0 \<le> length (format_int i) + n" for i n by (simp add: trans_le_add1)
  then have len: "2 \<le> length (format_int i @ s)" if "s \<noteq> []" for i s
    using that by (cases s) auto
  have "0 \<le> u div 1000000000" using assms by (simp add: pos_imp_zdiv_nonneg_iff)
  then show ?thesis
    using assms len one format_int_hd
    by (auto simp: duration_digits_def format_scaled_def Let_def is_digit_def[of "CHR ''0''"] pos_imp_zdiv_nonneg_iff)
qed

theorem parse_duration_string:
  assumes "min_int64 \<le> d" "d \<le> max_int64"
  shows "parse_duration (duration_string d) = Some d"
proof -
  have loop: "duration_loop (duration_digits \<bar>d\<bar>) 0 = Some \<bar>d\<bar>" using assms by (intro duration_loop_digits) auto
  obtain c r where c: "duration_digits \<bar>d\<bar> = c # r" "is_digit c" "r \<noteq> []"
    using duration_digits_start[of "\<bar>d\<bar>"]
    by (cases "duration_digits \<bar>d\<bar>"; cases "tl (duration_digits \<bar>d\<bar>)") auto
  then have "c \<noteq> CHR ''-''" "c \<noteq> CHR ''+''" by (auto dest: is_digit_not_sign)
  then show ?thesis using loop c assms by (auto simp: parse_duration_def duration_string_def Let_def)
qed

section \<open>Command lines\<close>

text \<open>
  The ways to write one setting on a command line, and what a sequence of settings comes to.
\<close>

definition spellings :: "'c flag_def \<Rightarrow> bytes \<Rightarrow> bytes list list" where
  "spellings f v =
     (let n = flag_name f in
      [[''-'' @ n @ ''='' @ v], [''--'' @ n @ ''='' @ v]] @
      (if flag_is_bool f then (if v = ''true'' then [[''-'' @ n], [''--'' @ n]] else [])
       else [[''-'' @ n, v], [''--'' @ n, v]]))"

definition plain_flag_name :: "bytes \<Rightarrow> bool" where
  "plain_flag_name n \<longleftrightarrow> n \<noteq> [] \<and> hd n \<noteq> CHR ''-'' \<and> CHR ''='' \<notin> set n"

fun apply_settings :: "'c flag_def list \<Rightarrow> (bytes \<times> bytes) list \<Rightarrow> 'c \<Rightarrow> 'c option" where
  "apply_settings fs [] c = Some c"
| "apply_settings fs ((n, v) # ss) c =
     (case find_flag fs n of
        None \<Rightarrow> None
      | Some f \<Rightarrow> Option.bind (flag_set f v c) (apply_settings fs ss))"

definition spells :: "'c flag_def list \<Rightarrow> bytes \<times> bytes \<Rightarrow> bytes list \<Rightarrow> bool" where
  "spells fs s args \<longleftrightarrow> (\<exists>f. find_flag fs (fst s) = Some f \<and> args \<in> set (spellings f (snd s)))"

text \<open>An argument that ends the flags, and the arguments that are left after it.\<close>

definition ends_flags :: "bytes list \<Rightarrow> bool" where
  "ends_flags args \<longleftrightarrow> args = [] \<or> length (hd args) < 2 \<or> hd (hd args) \<noteq> CHR ''-'' \<or> hd args = ''--''"

definition after_flags :: "bytes list \<Rightarrow> bytes list" where
  "after_flags args = (if args \<noteq> [] \<and> hd args = ''--'' then tl args else args)"

lemma find_flag_Cons: "find_flag (f # fs) n = (if flag_name f = n then Some f else find_flag fs n)"
  by (simp add: find_flag_def)

lemma flag_names [simp]:
  "flag_name (string_flag n u) = n" "flag_name (duration_flag n v) = n" "flag_name (int_flag n v) = n"
  "flag_name (bool_flag n w) = n"
  by (simp_all add: string_flag_def duration_flag_def int_flag_def bool_flag_def)

lemma find_flag_name: "find_flag fs n = Some f \<Longrightarrow> flag_name f = n"
  by (auto simp: find_flag_def find_Some_iff)

lemma split_flag_equals: "n \<noteq> [] \<Longrightarrow> CHR ''='' \<notin> set n \<Longrightarrow> split_flag (n @ ''='' @ v) = (n, Some v)"
  by (cases n) (simp_all add: split_flag_def)

lemma split_flag_bare: "n \<noteq> [] \<Longrightarrow> CHR ''='' \<notin> set n \<Longrightarrow> split_flag n = (n, None)"
  by (cases n) (auto simp: split_flag_def cut_def)

lemma parse_one_spelling:
  assumes n: "plain_flag_name n" and f: "find_flag fs n = Some f" and v: "flag_set f v c = Some c'"
    and sp: "as \<in> set (spellings f v)"
  shows "parse_one fs (as @ rest) c = Inr (True, rest, c')"
proof -
  obtain x xs where x: "n = x # xs" "x \<noteq> CHR ''-''" "x \<noteq> CHR ''=''" "CHR ''='' \<notin> set n"
    using n by (cases n) (auto simp: plain_flag_name_def)
  have eq: "split_flag (x # xs @ ''='' @ v) = (n, Some v)" and bare: "split_flag (x # xs) = (n, None)"
    using split_flag_equals[of n v] split_flag_bare[of n] x by simp_all
  from sp show ?thesis
    using x f v eq bare find_flag_name[OF f]
    by (auto simp: spellings_def parse_one_def Let_def split: if_splits)
qed

lemma parse_one_end: "ends_flags args \<Longrightarrow> parse_one fs args c = Inr (False, after_flags args, c)"
  by (cases args) (auto simp: ends_flags_def after_flags_def parse_one_def)

lemma parse_flags_settings:
  assumes "list_all (\<lambda>f. plain_flag_name (flag_name f)) fs" "list_all2 (spells fs) ss argss"
    and "apply_settings fs ss c = Some c'"
  shows "parse_flags fs (concat argss @ rest) c = parse_flags fs rest c'"
  using assms(2,3)
proof (induction ss argss arbitrary: c rule: list_all2_induct)
  case (Cons s ss as argss)
  obtain f where f: "find_flag fs (fst s) = Some f" "as \<in> set (spellings f (snd s))"
    using Cons.hyps(1) by (auto simp: spells_def)
  with Cons.prems obtain c1 where c1: "flag_set f (snd s) c = Some c1" "apply_settings fs ss c1 = Some c'"
    by (cases s) (auto split: option.splits bind_splits)
  have "plain_flag_name (fst s)"
    using assms(1) f(1) by (auto simp: find_flag_def find_Some_iff list_all_length)
  from parse_one_spelling[OF this f(1) c1(1) f(2), of "concat argss @ rest"] Cons.IH[OF c1(2)] show ?case
    by (simp add: parse_flags.simps[of fs "as @ concat argss @ rest"])
qed simp

lemma parse_flags_end: "ends_flags rest \<Longrightarrow> parse_flags fs rest c = Inr (c, after_flags rest)"
  using parse_one_end[of rest fs c] by (simp add: parse_flags.simps[of fs rest])

text \<open>A flag that is not defined stops the command line; so does a request for help.\<close>

lemma parse_flags_undefined:
  assumes n: "plain_flag_name n" "find_flag fs n = None"
    and bad: "bad \<in> {''-'' @ n, ''--'' @ n, ''-'' @ n @ ''='' @ v, ''--'' @ n @ ''='' @ v}"
  shows "parse_flags fs (bad # rest) c = Inl (if n \<in> {''help'', ''h''} then FlagHelp else FlagUndefined n)"
proof -
  obtain x xs where x: "n = x # xs" "x \<noteq> CHR ''-''" "x \<noteq> CHR ''=''"
    using n(1) by (cases n) (auto simp: plain_flag_name_def)
  have "split_flag (x # xs @ ''='' @ v) = (n, Some v)" and "split_flag (x # xs) = (n, None)"
    using split_flag_equals[of n v] split_flag_bare[of n] x n(1) by (simp_all add: plain_flag_name_def)
  moreover have "find_flag fs (x # xs) = None" using n x by auto
  ultimately have "parse_one fs (bad # rest) c = Inl (if n \<in> {''help'', ''h''} then FlagHelp else FlagUndefined n)"
    using bad x unfolding insert_iff empty_iff
    by (elim disjE) (simp_all add: parse_one_def Let_def)
  then show ?thesis by (simp add: parse_flags.simps)
qed

end
