(* ===== verification/Command_Facts.thy ===== *)
theory Command_Facts
  imports Command Main_Facts Tcp_Facts Go_Flag_Facts
begin

text \<open>
  The server command: every configuration can be written on the command line, and what the
  process does with it.
\<close>

section \<open>The command line\<close>

text \<open>All flags of a configuration as settings, the way Go prints their values.\<close>

definition flag_settings :: "main_flags \<Rightarrow> (bytes \<times> bytes) list" where
  "flag_settings f = [
     (''addr'', fl_addr f),
     (''read-timeout'', duration_string (fl_read_timeout f)),
     (''write-timeout'', duration_string (fl_write_timeout f)),
     (''graceful-timeout'', duration_string (fl_graceful_timeout f)),
     (''handler-workers'', format_int (fl_handler_workers f)),
     (''max-active-conns'', format_int (fl_max_active_conns f)),
     (''max-line'', format_int (fl_max_line f)),
     (''max-headers'', format_int (fl_max_headers f)),
     (''max-body'', format_int (fl_max_body f)),
     (''auth-token'', fl_auth_token f),
     (''rate-limit'', format_int (fl_rate_limit f)),
     (''rate-window'', duration_string (fl_rate_window f)),
     (''cors-allow-origin'', fl_cors_allow_origin f),
     (''cors-allow-methods'', fl_cors_allow_methods f),
     (''cors-allow-headers'', fl_cors_allow_headers f),
     (''cors-allow-credentials'', format_bool (fl_cors_allow_credentials f)),
     (''cors-max-age'', format_int (fl_cors_max_age f))]"

definition int64_flags :: "main_flags \<Rightarrow> bool" where
  "int64_flags f \<longleftrightarrow> list_all (\<lambda>i. min_int64 \<le> i \<and> i \<le> max_int64)
     [fl_read_timeout f, fl_write_timeout f, fl_graceful_timeout f, fl_handler_workers f, fl_max_active_conns f,
      fl_max_line f, fl_max_headers f, fl_max_body f, fl_rate_limit f, fl_rate_window f, fl_cors_max_age f]"

lemma wbsv_flag_names: "list_all (\<lambda>f. plain_flag_name (flag_name f)) wbsv_flags"
  by (simp add: wbsv_flags_def string_flag_def duration_flag_def int_flag_def bool_flag_def plain_flag_name_def)

lemma flag_sets [simp]:
  "flag_set (string_flag n u) s c = Some (u (\<lambda>_. s) c)"
  "flag_set (duration_flag n v) s c = map_option (\<lambda>i. v (\<lambda>_. i) c) (parse_duration s)"
  "flag_set (int_flag n v) s c = map_option (\<lambda>i. v (\<lambda>_. i) c) (parse_int_base0 s)"
  "flag_set (bool_flag n w) s c = map_option (\<lambda>i. w (\<lambda>_. i) c) (parse_bool s)"
  by (simp_all add: string_flag_def duration_flag_def int_flag_def bool_flag_def)

lemma flag_settings_apply:
  "int64_flags f \<Longrightarrow> apply_settings wbsv_flags (flag_settings f) c = Some f"
  by (simp add: int64_flags_def flag_settings_def wbsv_flags_def find_flag_Cons parse_duration_string
      parse_int_base0_format parse_bool_format)

text \<open>
  C10. Every configuration can be written on the command line: its flags, each in any of the forms
  \<open>-name=value\<close>, \<open>--name=value\<close>, \<open>-name value\<close>, \<open>--name value\<close> (and \<open>-name\<close> for a true boolean), with durations and
  numbers as Go prints them, are read back as exactly that configuration, whatever arguments follow.
\<close>

theorem command_line_roundtrip:
  assumes "int64_flags f" "list_all2 (spells wbsv_flags) (flag_settings f) argss" "ends_flags rest"
  shows "command_line wbsv_flags wbsv_defaults (concat argss @ rest) = Inr f"
  using parse_flags_settings[OF wbsv_flag_names assms(2) flag_settings_apply[OF assms(1)], of rest]
    parse_flags_end[OF assms(3), of wbsv_flags f]
  by (simp add: command_line_def)

definition guarded_flags :: main_flags where
  "guarded_flags = wbsv_defaults\<lparr>fl_addr := '':80'', fl_read_timeout := 90000000000, fl_auth_token := ''=s'',
     fl_cors_allow_credentials := True, fl_max_line := -1\<rparr>"

theorem command_line_roundtrip_witness:
  "command_line wbsv_flags wbsv_defaults (map (\<lambda>(n, v). ''--'' @ n @ ''='' @ v) (flag_settings guarded_flags) @ [''--'', ''-x'']) =
     Inr guarded_flags"
proof -
  let ?argss = "map (\<lambda>(n, v). [''--'' @ n @ ''='' @ v]) (flag_settings guarded_flags)"
  have int64: "int64_flags guarded_flags" by (simp add: int64_flags_def guarded_flags_def wbsv_defaults_def)
  have "spells wbsv_flags (n, v) [''--'' @ n @ ''='' @ v]" if "(n, v) \<in> set (flag_settings guarded_flags)" for n v
    using that by (auto simp: spells_def spellings_def flag_settings_def wbsv_flags_def find_flag_Cons Let_def)
  then have sp: "list_all2 (spells wbsv_flags) (flag_settings guarded_flags) ?argss"
    by (auto simp: list_all2_conv_all_nth case_prod_beta) (metis nth_mem prod.collapse)
  have args: "concat ?argss = map (\<lambda>(n, v). ''--'' @ n @ ''='' @ v) (flag_settings guarded_flags)"
    by (simp add: flag_settings_def)
  have "ends_flags [''--'', ''-x'']" by (simp add: ends_flags_def)
  from command_line_roundtrip[OF int64 sp this] show ?thesis unfolding args .
qed

section \<open>The default application\<close>

text \<open>Flags without an authentication token, CORS and rate limit, as the defaults are.\<close>

definition plain_flags :: "main_flags \<Rightarrow> bool" where
  "plain_flags f \<longleftrightarrow> fl_auth_token f = [] \<and> fl_cors_allow_origin f = [] \<and> fl_rate_limit f \<le> 0"

definition accepts_gzip :: "http_request \<Rightarrow> bool" where
  "accepts_gzip req \<longleftrightarrow> header_has_token (req_headers req) ''Accept-Encoding'' ''gzip''"

text \<open>The request ID that a response names, and the counter after it: the client's own, or a new one.\<close>

definition assigned_id :: "64 word \<Rightarrow> http_request \<Rightarrow> bytes" where
  "assigned_id n req =
     (let hid = request_id_from_headers (req_headers req)
      in if hid = [] then ''wbsv-'' @ format_int (uint (n + 1)) else hid)"

definition next_count :: "64 word \<Rightarrow> http_request \<Rightarrow> 64 word" where
  "next_count n req = (if request_id_from_headers (req_headers req) = [] then n + 1 else n)"

definition identified_response :: "bytes \<Rightarrow> http_request \<Rightarrow> response" where
  "identified_response i req = (hello_response req)\<lparr>resp_headers := resp_headers (hello_response req) @
     [HeaderField request_id_header i]\<rparr>"

lemma names_differ:
  "\<not> equal_fold ''X-WBSV-Method'' ''Content-Length''" "\<not> equal_fold ''X-WBSV-Target'' ''Content-Length''"
  "\<not> equal_fold ''Content-Type'' ''Content-Length''" "\<not> equal_fold ''X-WBSV-Method'' request_id_header"
  "\<not> equal_fold ''X-WBSV-Target'' request_id_header" "\<not> equal_fold ''Content-Type'' request_id_header"
  by code_simp+

lemma buffered_default_reply:
  obtains w where "default_app_handler (Buffered new_buffered_writer) r s = (Returned, w, s)"
    "buffered_response (buffer_of w) = hello_response (req_http r)"
proof -
  obtain oc w s' where d: "default_app_handler (Buffered new_buffered_writer) r s = (oc, w, s')" by (metis prod_cases3)
  from default_app_reply[OF d] d that show thesis by simp
qed

lemma compressed_default:
  assumes "\<not> accepts_gzip (req_http r)"
  shows "fst (gzip_compression_middleware gz 1 (fst (recovery_middleware True default_app_handler s0)) s0') w r s =
    (Returned, write_buffered_response w (hello_response (req_http r)), s)"
proof -
  obtain w' where w': "default_app_handler (Buffered new_buffered_writer) r s = (Returned, w', s)"
    "buffered_response (buffer_of w') = hello_response (req_http r)" using buffered_default_reply .
  have "\<not> should_gzip_response r (hello_response (req_http r)) 1"
    using assms by (simp add: should_gzip_response_def accepts_gzip_def)
  then show ?thesis by (simp add: gzip_compression_middleware_def recovery_middleware_def w' Let_def)
qed

definition hello_buffer :: "http_request \<Rightarrow> buffered_writer" where
  "hello_buffer req = new_buffered_writer\<lparr>bw_status := 200, bw_headers := resp_headers (hello_response req),
     bw_body := ''hello from _wbsv'' @ [lf]\<rparr>"

lemma logged_default:
  "write_buffered_response (Logging (Buffered new_buffered_writer) 0 0) (hello_response req) =
     Logging (Buffered (hello_buffer req)) 200 17"
  by (simp add: write_buffered_response_def hello_response_def zero_response_def names_differ hello_buffer_def
      add_header_def promoted_proc_def buffered_write_def buffered_write_header_def buffered_add_header_def
      new_buffered_writer_def)

lemma identified_default:
  "buffered_response (buffer_of (set_header request_id_header i (Buffered (hello_buffer req)))) = identified_response i req"
  by (simp add: set_header_def promoted_proc_def buffered_set_header_def hello_buffer_def hello_response_def
      zero_response_def names_differ buffered_add_header_def buffered_response_def identified_response_def
      new_buffered_writer_def)

lemma request_id_call:
  assumes "(if request_id_from_headers (http_headers r) = [] then next_request_id s
      else (request_id_from_headers (http_headers r), s)) = (i, s1)"
  shows "fst (request_id_middleware h s0) w r s =
    (case h w (r\<lparr>req_context := Some (RequestIdCtx i (case req_context r of None \<Rightarrow> BackgroundCtx | Some c \<Rightarrow> c))\<rparr>) s1 of
       (Returned, w1, s2) \<Rightarrow> (Returned, set_header request_id_header i w1, s2)
     | (Panicked v, w1, s2) \<Rightarrow> (Panicked v, w1, s2))"
  by (simp add: request_id_middleware_def assms Let_def)

text \<open>The chain of the command with such flags, from the inside out.\<close>

definition default_inner :: "gzip_writer \<Rightarrow> world \<Rightarrow> handler" where
  "default_inner gz s = fst (gzip_compression_middleware gz 1 (fst (recovery_middleware True default_app_handler s)) s)"

lemma plain_chain:
  assumes "plain_flags f"
  shows "app_handler (main_handler gz f) s =
    (fst (request_id_middleware (fst (logging_middleware True (default_inner gz s) s)) s), s)"
proof -
  have pure: "recovery_middleware l h s = (fst (recovery_middleware l h s), s)"
      "gzip_compression_middleware gz k h s = (fst (gzip_compression_middleware gz k h s), s)"
      "logging_middleware l h s = (fst (logging_middleware l h s), s)"
      "request_id_middleware h s = (fst (request_id_middleware h s), s)" for l h k
    by (simp_all add: recovery_middleware_def gzip_compression_middleware_def logging_middleware_def request_id_middleware_def)
  have "main_middlewares gz f = [Some request_id_middleware, Some (logging_middleware True),
      Some (gzip_compression_middleware gz 1), Some (recovery_middleware True)]"
    using assms by (simp add: plain_flags_def main_middlewares_def)
  then have "app_handler (main_handler gz f) s =
      (case case case recovery_middleware True default_app_handler s of
           (h1, s1) \<Rightarrow> gzip_compression_middleware gz 1 h1 s1 of
           (h1, s1) \<Rightarrow> logging_middleware True h1 s1 of
           (h1, s1) \<Rightarrow> request_id_middleware h1 s1)"
    by (simp add: app_handler_def chain_def main_handler_def)
  also have "\<dots> = (fst (request_id_middleware (fst (logging_middleware True (default_inner gz s) s)) s), s)"
    unfolding default_inner_def
    by (subst pure(1), subst prod.case, subst pure(2), subst prod.case, subst pure(3), subst prod.case, rule pure(4))
  finally show ?thesis .
qed

text \<open>Whatever is asked, the application itself leaves the world alone and returns.\<close>

lemma default_inner_pure: "\<exists>w'. default_inner gz s0 w r s = (Returned, w', s)"
proof -
  obtain w' where "default_app_handler (Buffered new_buffered_writer) r s = (Returned, w', s)" using buffered_default_reply .
  then show ?thesis by (simp add: default_inner_def gzip_compression_middleware_def recovery_middleware_def Let_def)
qed

text \<open>
  What the application says behind the middlewares of the command, and the part of the world that
  the next answer depends on.
\<close>

lemma plain_main_reply:
  assumes f: "plain_flags f" and g: "\<not> accepts_gzip req"
  obtains s' where "response_for_request (main_handler gz f) ctx (Inr req) s =
      (Inr (identified_response (assigned_id (request_id_counter s) req) req, should_close_connection req), s')"
    "request_id_counter s' = next_count (request_id_counter s) req"
proof -
  let ?n = "request_id_counter s"
  let ?r = "\<lparr>req_context = ctx, req_http = req, req_params = None\<rparr>"
  define s1 where "s1 = (if request_id_from_headers (req_headers req) = [] then s\<lparr>request_id_counter := ?n + 1\<rparr> else s)"
  have id: "(if request_id_from_headers (http_headers ?r) = [] then next_request_id s
      else (request_id_from_headers (http_headers ?r), s)) = (assigned_id ?n req, s1)"
    by (simp add: next_request_id_def assigned_id_def s1_def Let_def)
  define s2 where "s2 = s1\<lparr>clock_reads := Suc (clock_reads s1)\<rparr>"
  define s3 where "s3 = s2\<lparr>clock_reads := Suc (clock_reads s2)\<rparr>"
  have t: "time_now s1 = (clock s1 (clock_reads s1), s2)" "time_now s2 = (clock s2 (clock_reads s2), s3)"
    by (simp_all add: time_now_def s2_def s3_def)
  have inner: "default_inner gz s w r s0 = (Returned, write_buffered_response w (hello_response req), s0)" if "req_http r = req" for w r s0
    using compressed_default[of r gz s s w s0] g that by (simp add: default_inner_def)
  define s4 where "s4 = log_printf (AccessLine (rl_method (request_line req)) (rl_target (request_line req))
    (recorded_status 200) 17 (time_sub (clock s2 (clock_reads s2)) (clock s1 (clock_reads s1)))) s3"
  have "fst (request_id_middleware (fst (logging_middleware True (default_inner gz s) s)) s) (Buffered new_buffered_writer) ?r s =
      (Returned, set_header request_id_header (assigned_id ?n req) (Buffered (hello_buffer req)), s4)"
    unfolding request_id_call[OF id] by (simp add: logging_middleware_def t inner logged_default s4_def)
  then have "response_for_request (main_handler gz f) ctx (Inr req) s =
      (Inr (identified_response (assigned_id ?n req) req, should_close_connection req), s4)"
    by (simp add: response_for_request_def plain_chain[OF f] identified_default Let_def)
  moreover have "request_id_counter s4 = request_id_counter s3" by (simp add: s4_def log_printf_def)
  moreover have "request_id_counter s3 = next_count ?n req"
    by (simp add: s3_def s2_def s1_def next_count_def)
  ultimately show thesis using that by simp
qed

lemma plain_main_counter:
  assumes "plain_flags f" "response_for_request (main_handler gz f) ctx (Inr req) s = (x, s')"
  shows "request_id_counter s' = next_count (request_id_counter s) req"
proof -
  let ?r = "\<lparr>req_context = ctx, req_http = req, req_params = None\<rparr>"
  let ?k = "Logging (Buffered new_buffered_writer) 0 0"
  define s1 where "s1 = (if request_id_from_headers (req_headers req) = [] then s\<lparr>request_id_counter := request_id_counter s + 1\<rparr> else s)"
  define i where "i = assigned_id (request_id_counter s) req"
  have id: "(if request_id_from_headers (http_headers ?r) = [] then next_request_id s
      else (request_id_from_headers (http_headers ?r), s)) = (i, s1)"
    by (simp add: next_request_id_def assigned_id_def s1_def i_def Let_def)
  obtain w' where w': "default_inner gz s ?k (?r\<lparr>req_context := Some (RequestIdCtx i (case ctx of None \<Rightarrow> BackgroundCtx | Some c \<Rightarrow> c))\<rparr>)
      (snd (time_now s1)) = (Returned, w', snd (time_now s1))"
    using default_inner_pure by blast
  show ?thesis
    using assms w'
    by (auto simp: response_for_request_def plain_chain[OF assms(1)] request_id_call[OF id] logging_middleware_def
        time_now_def log_printf_def s1_def next_count_def Let_def split: prod.splits)
qed

text \<open>The reply to the byte.\<close>

definition default_message :: "bytes \<Rightarrow> http_request \<Rightarrow> bytes" where
  "default_message i req =
     ''HTTP/1.1 200 OK'' @ crlf @
     ''X-WBSV-Method: '' @ rl_method (request_line req) @ crlf @
     ''X-WBSV-Target: '' @ rl_target (request_line req) @ crlf @
     ''Content-Type: text/plain; charset=utf-8'' @ crlf @
     ''X-Request-ID: '' @ i @ crlf @
     (if should_close_connection req then ''Connection: close'' @ crlf else []) @
     ''Content-Length: 17'' @ crlf @ crlf @ ''hello from _wbsv'' @ [lf]"

lemma default_headers_kept:
  "\<not> skipped_header False (HeaderField ''X-WBSV-Method'' v)" "\<not> skipped_header False (HeaderField ''X-WBSV-Target'' v)"
  "\<not> skipped_header False (HeaderField request_id_header v)"
proof -
  have "\<not> equal_fold request_id_header ''Content-Length''" by code_simp
  then show "\<not> skipped_header False (HeaderField ''X-WBSV-Method'' v)" "\<not> skipped_header False (HeaderField ''X-WBSV-Target'' v)"
    "\<not> skipped_header False (HeaderField request_id_header v)"
    by (simp_all add: skipped_header_def names_differ)
qed

lemma default_message_bytes:
  assumes "valid_request_line (request_line req)" "\<not> contains_any i [cr, lf]"
  defines "resp \<equiv> final_response (identified_response i req) (should_close_connection req)"
  shows "sendable resp" "message_bytes resp = default_message i req"
proof -
  have parts: "resp_status resp = 200" "resp_reader resp = None" "resp_chunked resp = False" "resp_version resp = []"
      "resp_reason resp = []" "resp_body resp = ''hello from _wbsv'' @ [lf]"
      "resp_headers resp = [HeaderField ''X-WBSV-Method'' (rl_method (request_line req)),
        HeaderField ''X-WBSV-Target'' (rl_target (request_line req)),
        HeaderField ''Content-Type'' ''text/plain; charset=utf-8'', HeaderField request_id_header i] @
        (if should_close_connection req then [close_header] else [])"
    by (simp_all add: resp_def final_response_def identified_response_def hello_response_def zero_response_def)
  have line: "sendable_field (HeaderField ''X-WBSV-Method'' (rl_method (request_line req)))"
      "sendable_field (HeaderField ''X-WBSV-Target'' (rl_target (request_line req)))"
      "sendable_field (HeaderField request_id_header i)"
    using assms(1,2) by (auto simp: sendable_field_def valid_request_line_def token_word_def request_id_header_def contains_any_def)
  have allows: "status_allows_body 200" by code_simp
  note heads = close_header_facts content_type_not_skipped content_type_sendable default_headers_kept line
  have kept: "kept_headers resp = resp_headers resp" by (simp add: kept_headers_def parts heads)
  have "\<not> contains_any (status_text 200) [cr, lf]" by (rule status_text_no_ctl)
  then show s: "sendable resp"
    by (simp add: sendable_def passes_checks_def parts effective_version_def effective_reason_def kept heads)
  obtain p where p: "message_bytes resp = head_bytes resp @ p" "payload_framed resp p" using message_bytes_head[OF s] .
  have "p = ''hello from _wbsv'' @ [lf]" using p(2) by (simp add: payload_framed_def parts response_content_def allows)
  moreover have ct: "format_int 17 = ''17''" "format_int 200 = ''200''" "status_text 200 = ''OK''" by code_simp+
  ultimately show "message_bytes resp = default_message i req"
    unfolding p(1) default_message_def
    by (simp add: head_bytes_def status_line_def effective_version_def effective_reason_def parts kept allows
        framing_headers_def response_body_length_def render_field_def lines_bytes_def close_header_def request_id_header_def)
qed

lemma header_id_plain:
  "\<forall>f\<in>set hs. valid_field f \<Longrightarrow> \<not> contains_any (request_id_from_headers hs) [cr, lf]"
  by (induction hs) (auto simp: valid_field_def trim_space_def not_contains_any_trim)

lemma assigned_id_plain:
  "\<forall>f\<in>set (req_headers req). valid_field f \<Longrightarrow> \<not> contains_any (assigned_id n req) [cr, lf]"
  using header_id_plain[of "req_headers req"] format_int_no_ctl[of "[cr, lf]" "uint (n + 1)"]
  by (auto simp: assigned_id_def Let_def)

text \<open>The IDs of the requests of a connection, one after the other.\<close>

fun assigned_ids :: "64 word \<Rightarrow> http_request list \<Rightarrow> bytes list" where
  "assigned_ids n [] = []"
| "assigned_ids n (req # reqs) = assigned_id n req # assigned_ids (next_count n req) reqs"

lemma handler_logf_counter [simp]: "request_id_counter (handler_logf h l s) = request_id_counter s"
  by (simp add: handler_logf_def log_printf_def)

lemma before_request_counter: "request_id_counter (before_request h s) = request_id_counter s"
  by (simp add: before_request_def time_now_def)

lemma after_reply_counter: "request_id_counter (after_reply h resp s) = request_id_counter s"
proof -
  have "request_id_counter (fold close_file hs s) = request_id_counter s" for hs s
    by (induction hs arbitrary: s) (simp_all add: close_file_def)
  then show ?thesis by (simp add: after_reply_def time_now_def)
qed

lemma plain_main_conversation:
  assumes "plain_flags f" "\<forall>req\<in>set reqs. \<not> accepts_gzip req"
  shows "\<exists>s'. conversation (main_handler gz f) ctx reqs s =
    Some (map2 (\<lambda>i req. final_response (identified_response i req) (should_close_connection req))
            (assigned_ids (request_id_counter s) reqs) reqs, s')"
  using assms(2)
proof (induction reqs arbitrary: s)
  case (Cons req reqs)
  let ?h = "main_handler gz f" and ?n = "request_id_counter s"
  let ?resp = "final_response (identified_response (assigned_id ?n req) req) (should_close_connection req)"
  obtain s1 where s1: "response_for_request ?h ctx (Inr req) (before_request ?h s) =
      (Inr (identified_response (assigned_id ?n req) req, should_close_connection req), s1)"
    "request_id_counter s1 = next_count ?n req"
    using plain_main_reply[OF assms(1), of req gz ctx "before_request ?h s"] Cons.prems
    by (auto simp: before_request_counter)
  from Cons.IH[of "after_reply ?h ?resp s1"] Cons.prems obtain s' where
    "conversation ?h ctx reqs (after_reply ?h ?resp s1) =
      Some (map2 (\<lambda>i req. final_response (identified_response i req) (should_close_connection req))
              (assigned_ids (next_count ?n req) reqs) reqs, s')"
    by (auto simp: after_reply_counter s1(2))
  with s1(1) show ?case by simp
qed simp

lemma length_assigned_ids [simp]: "length (assigned_ids n reqs) = length reqs"
  by (induction reqs arbitrary: n) simp_all

lemma assigned_ids_plain:
  "\<forall>req\<in>set reqs. \<forall>f\<in>set (req_headers req). valid_field f \<Longrightarrow> i \<in> set (assigned_ids n reqs) \<Longrightarrow> \<not> contains_any i [cr, lf]"
  by (induction reqs arbitrary: n) (auto simp: assigned_id_plain)


lemma command_line_addr: "command_line wbsv_flags wbsv_defaults [''-addr'', ''h:1''] = Inr (wbsv_defaults\<lparr>fl_addr := ''h:1''\<rparr>)"
  by (simp add: command_line_def parse_flags.simps parse_one_def split_flag_def cut_def find_flag_Cons wbsv_flags_def
      string_flag_def)


text \<open>
  A command line whose settings are followed by a flag that does not exist ends the process with
  status 2, and nothing is listened on or served; after the same settings a request for help
  ends it with status 0.
\<close>

theorem wbsv_rejects_flags:
  assumes "list_all2 (spells wbsv_flags) ss argss" "apply_settings wbsv_flags ss wbsv_defaults = Some f"
    and "plain_flag_name n" "n \<notin> set (map flag_name wbsv_flags)"
    and "bad \<in> {''-'' @ n, ''--'' @ n, ''-'' @ n @ ''='' @ v, ''--'' @ n @ ''='' @ v}"
  shows "wbsv_start gz listens (concat argss @ bad # rest) = Inl (if n \<in> {''help'', ''h''} then 0 else 2)"
proof -
  have none: "find_flag wbsv_flags n = None" using assms(4) by (auto simp: find_flag_def find_None_iff)
  have "parse_flags wbsv_flags (concat argss @ bad # rest) wbsv_defaults = parse_flags wbsv_flags (bad # rest) f"
    by (rule parse_flags_settings[OF wbsv_flag_names assms(1, 2)])
  also have "\<dots> = Inl (if n \<in> {''help'', ''h''} then FlagHelp else FlagUndefined n)"
    by (rule parse_flags_undefined[OF assms(3) none assms(5)])
  finally show ?thesis by (simp add: wbsv_start_def command_line_def)
qed

theorem wbsv_rejects_flags_witness:
  "wbsv_start store_only (\<lambda>_. True) [''-max-line=1'', ''-port'', ''80''] = Inl 2"
proof -
  have "list_all2 (spells wbsv_flags) [(''max-line'', ''1'')] [[''-max-line=1'']]"
    by (simp add: spells_def spellings_def wbsv_flags_def find_flag_Cons Let_def)
  moreover have "parse_int_base0 ''1'' = Some 1" by code_simp
  then have "apply_settings wbsv_flags [(''max-line'', ''1'')] wbsv_defaults = Some (wbsv_defaults\<lparr>fl_max_line := 1\<rparr>)"
    by (simp add: wbsv_flags_def find_flag_Cons)
  moreover have "plain_flag_name ''port''" "''port'' \<notin> set (map flag_name wbsv_flags)"
    by (simp_all add: plain_flag_name_def wbsv_flags_def)
  ultimately show ?thesis
    using wbsv_rejects_flags[of "[(''max-line'', ''1'')]" "[[''-max-line=1'']]" _ "''port''" "''-port''" "[]" store_only
        "\<lambda>_. True" "[''80'']"] by simp
qed

end
