(* ===== verification/Server_System.thy ===== *)
theory Server_System
  imports Command_Facts
begin

text \<open>
  The whole server: the TCP server of tcpserver/server.go with a connection handler at work on
  every connection it serves (\<open>handleConn\<close>), as one interleaving of all goroutines. The handler is
  \<open>ServeConn\<close> of the HTTP handler, or the echo loop when there is none. What a client sends and how
  its connection takes what is sent is given for the n-th accepted connection by \<open>opens n\<close>; since it
  is arbitrary, it also stands for what a forced \<open>Close\<close> during the shutdown does to a connection.

  One turn of a handler is one step. Turns of different connections share only the world (clock,
  request-ID counter, log, files), which later turns see as earlier ones have left it.
\<close>

section \<open>The composed system\<close>

datatype 'c session = Talking 'c | Over conn_result 'c

record 'c system =
  sys_tcp :: server_state
  sys_world :: world
  sys_sessions :: "nat \<Rightarrow> 'c session option"
  sys_crashed :: bool

type_synonym 'c conn_turn = "'c \<Rightarrow> world \<Rightarrow> (conn_result \<times> 'c \<times> world + 'c \<times> world) option"

datatype system_event = Tcp server_event | Turn nat

definition initial_system :: "world \<Rightarrow> 'c system" where
  "initial_system w = \<lparr>sys_tcp = initial_server, sys_world = w, sys_sessions = (\<lambda>_. None), sys_crashed = False\<rparr>"

text \<open>
  The handler is entered by the first step of \<open>serveTrackedConn\<close> and left by the second, which has to
  wait for it.
\<close>

definition tcp_event :: "tcp_config \<Rightarrow> (nat \<Rightarrow> 'c) \<Rightarrow> server_event \<Rightarrow> 'c system \<Rightarrow> 'c system option" where
  "tcp_event cfg opens e s =
     (case exec_event cfg e (sys_tcp s) of
        None \<Rightarrow> None
      | Some t \<Rightarrow>
          (case e of
             EvTask c \<Rightarrow>
               if tasks (sys_tcp s) c = Some TaskStarted
               then Some (s\<lparr>sys_tcp := t, sys_sessions := (sys_sessions s)(c \<mapsto> Talking (opens c))\<rparr>)
               else if tasks (sys_tcp s) c = Some TaskServing
               then (case sys_sessions s c of Some (Over ConnDone _) \<Rightarrow> Some (s\<lparr>sys_tcp := t\<rparr>) | _ \<Rightarrow> None)
               else Some (s\<lparr>sys_tcp := t\<rparr>)
           | _ \<Rightarrow> Some (s\<lparr>sys_tcp := t\<rparr>)))"

text \<open>A panic that leaves the handler takes the process down.\<close>

definition turn_event :: "'c conn_turn \<Rightarrow> nat \<Rightarrow> 'c system \<Rightarrow> 'c system option" where
  "turn_event turn c s =
     (case sys_sessions s c of
        Some (Talking x) \<Rightarrow>
          (case turn x (sys_world s) of
             None \<Rightarrow> None
           | Some (Inl (r, x', w)) \<Rightarrow>
               Some (s\<lparr>sys_world := w, sys_sessions := (sys_sessions s)(c \<mapsto> Over r x'),
                 sys_crashed := (r \<noteq> ConnDone)\<rparr>)
           | Some (Inr (x', w)) \<Rightarrow> Some (s\<lparr>sys_world := w, sys_sessions := (sys_sessions s)(c \<mapsto> Talking x')\<rparr>))
      | _ \<Rightarrow> None)"

definition exec_system ::
  "tcp_config \<Rightarrow> (nat \<Rightarrow> 'c) \<Rightarrow> 'c conn_turn \<Rightarrow> system_event \<Rightarrow> 'c system \<Rightarrow> 'c system option" where
  "exec_system cfg opens turn e s =
     (if sys_crashed s then None
      else (case e of Tcp ev \<Rightarrow> tcp_event cfg opens ev s | Turn c \<Rightarrow> turn_event turn c s))"

fun run_system ::
  "tcp_config \<Rightarrow> (nat \<Rightarrow> 'c) \<Rightarrow> 'c conn_turn \<Rightarrow> system_event list \<Rightarrow> 'c system \<Rightarrow> 'c system option" where
  "run_system cfg opens turn [] s = Some s"
| "run_system cfg opens turn (e # es) s = Option.bind (exec_system cfg opens turn e s) (run_system cfg opens turn es)"

text \<open>
  The two handlers: \<open>ServeConn\<close>, turn by turn, and the echo loop, which is one turn. A read on a
  TCP connection returns bytes or an error, never both.
\<close>

record peer =
  peer_src :: byte_source
  peer_out :: sink
  peer_deadlines :: "bool list"

definition http_open :: "handler_config \<Rightarrow> (nat \<Rightarrow> peer) \<Rightarrow> nat \<Rightarrow> conn" where
  "http_open h peers c =
     open_conn h ((peer_src (peers c))\<lparr>src_eager := False\<rparr>) (peer_out (peers c)) (peer_deadlines (peers c))"

definition http_turn :: "handler_config \<Rightarrow> conn conn_turn" where
  "http_turn h x w = serve_turn h (Some BackgroundCtx) x w"

definition echo_turn :: "tcp_config \<Rightarrow> peer conn_turn" where
  "echo_turn cfg p w =
     (case echo_loop cfg (peer_deadlines p) (peer_src p) (peer_out p) of (src, out) \<Rightarrow>
        Some (Inl (ConnDone, p\<lparr>peer_src := src, peer_out := out\<rparr>, w)))"

section \<open>The server inside the system\<close>

lemma run_system_append:
  "run_system cfg opens turn (es @ fs) s = Option.bind (run_system cfg opens turn es s) (run_system cfg opens turn fs)"
  by (induction es arbitrary: s) (auto split: bind_splits)

text \<open>What the events of the TCP server do to the tasks and to the connections not yet served.\<close>

lemma task_event_effect:
  assumes "exec_event cfg (EvTask c) t = Some t'"
  shows "tasks t c \<noteq> None \<and> acceptor t' = acceptor t \<and> next_conn t' = next_conn t \<and>
    tasks t' = (tasks t)(c := (case the (tasks t c) of TaskStarted \<Rightarrow> Some TaskServing | TaskServing \<Rightarrow> Some TaskHandled
      | TaskHandled \<Rightarrow> Some TaskClosed | TaskClosed \<Rightarrow> Some TaskDeleted | TaskDeleted \<Rightarrow> Some TaskTail | TaskTail \<Rightarrow> None))"
  using assms by (cases "tasks t c"; cases "the (tasks t c)") (auto simp: step_defs)

definition unserved :: "server_state \<Rightarrow> nat set" where
  "unserved t = {c. next_conn t \<le> c} \<union> grasped (acceptor t)"

lemma shutdown_step_effect:
  assumes "shutdown_step x cs t = Some t'"
  shows "tasks t' = tasks t \<and> next_conn t' = next_conn t \<and> acceptor t' = acceptor t"
proof (cases "shutdown t")
  case (ShClosing ds)
  with assms show ?thesis by (cases ds) (auto simp: shutdown_defs close_conn_def)
qed (use assms in \<open>auto simp: shutdown_defs split: if_splits\<close>)

text \<open>
  Only \<open>go\<close> and a hand-over start a task; in the shutdown no connection is tracked any more, so that
  only a hand-over does.
\<close>

lemma starting_event:
  assumes "exec_event cfg e t = Some t'" "\<And>d. e \<noteq> EvTask d"
  shows "next_conn t \<le> next_conn t' \<and>
    (tasks t' = tasks t \<and> (shutting_down t \<longrightarrow> (\<forall>c. acceptor t' = HandOff c \<longrightarrow> acceptor t = HandOff c)) \<or>
     (\<exists>c\<in>grasped (acceptor t). tasks t' = (tasks t)(c \<mapsto> TaskStarted) \<and> acceptor t' = AtAccept \<and>
       (shutting_down t \<longrightarrow> acceptor t = HandOff c)))"
proof (cases e)
  case EvAcceptor
  with assms show ?thesis
    by (cases "acceptor t") (auto simp: exec_event_def acceptor_step_def track_conn_def close_conn_def untrack_delete_def
        untrack_done_def split: if_splits)
next
  case (EvShutdown x cs)
  with assms have "shutdown_step x cs t = Some t'" by (simp add: exec_event_def)
  from shutdown_step_effect[OF this] show ?thesis by simp
next
  case EvHandOff
  with assms show ?thesis by (cases "acceptor t") (auto simp: exec_event_def split: if_splits)
next
  case EvHandOffCancel
  with assms show ?thesis by (cases "acceptor t") (auto simp: exec_event_def close_conn_def split: if_splits)
next
  case EvShutdownByServe
  with assms show ?thesis by (cases "acceptor t") (auto simp: exec_event_def begin_shutdown_def split: if_splits)
qed (use assms in \<open>auto simp: exec_event_def begin_shutdown_def split: if_splits\<close>)

lemma task_served: "ids_inv t \<Longrightarrow> tasks t c \<noteq> None \<Longrightarrow> c \<notin> unserved t"
proof -
  assume ids: "ids_inv t" and c: "tasks t c \<noteq> None"
  have "c < next_conn t" using ids domI c unfolding ids_inv_def by fastforce
  moreover have "c \<notin> grasped (acceptor t)" using ids c by (auto simp: ids_inv_def)
  ultimately show ?thesis by (simp add: unserved_def)
qed

lemma other_event_effect:
  assumes "exec_event cfg e t = Some t'" "\<And>d. e \<noteq> EvTask d"
  shows "tasks t' c = tasks t c \<or> c \<in> unserved t \<and> tasks t' c = Some TaskStarted" "unserved t' \<subseteq> unserved t"
proof -
  from starting_event[OF assms] show "tasks t' c = tasks t c \<or> c \<in> unserved t \<and> tasks t' c = Some TaskStarted"
    by (auto simp: unserved_def split: if_splits)
  from exec_transition[OF assms(1)] show "unserved t' \<subseteq> unserved t" by cases (auto simp: unserved_def)
qed

text \<open>How far a connection's session is when its task is in a phase.\<close>

definition over_normally :: "'c session \<Rightarrow> bool" where
  "over_normally x \<longleftrightarrow> (\<exists>y. x = Over ConnDone y)"

fun session_matches :: "task option \<Rightarrow> 'c session option \<Rightarrow> bool" where
  "session_matches (Some TaskStarted) x = (x = None)"
| "session_matches (Some TaskServing) x = (x \<noteq> None)"
| "session_matches (Some _) x = (\<exists>y. x = Some y \<and> over_normally y)"
| "session_matches None x = (\<forall>y. x = Some y \<longrightarrow> over_normally y)"

lemma session_matches_talking [simp]: "session_matches p (Some (Talking x)) \<longleftrightarrow> p = Some TaskServing"
  by (cases p; cases "the p") (auto simp: over_normally_def)

text \<open>The invariant of the composed system, for sessions that are \<open>ok\<close> while they last.\<close>

definition session_ok :: "('c \<Rightarrow> bool) \<Rightarrow> 'c session option \<Rightarrow> bool" where
  "session_ok ok x \<longleftrightarrow> (case x of None \<Rightarrow> True | Some (Talking y) \<Rightarrow> ok y | Some (Over r y) \<Rightarrow> r = ConnDone)"

lemma session_ok_simps [simp]:
  "session_ok ok None" "session_ok ok (Some (Talking y)) = ok y" "session_ok ok (Some (Over r y)) = (r = ConnDone)"
  by (simp_all add: session_ok_def)

definition system_inv :: "('c \<Rightarrow> bool) \<Rightarrow> tcp_config \<Rightarrow> 'c system \<Rightarrow> bool" where
  "system_inv ok cfg s \<longleftrightarrow> reachable cfg (sys_tcp s) \<and> \<not> sys_crashed s \<and>
     (\<forall>c. session_ok ok (sys_sessions s c) \<and> session_matches (tasks (sys_tcp s) c) (sys_sessions s c) \<and>
       (c \<in> unserved (sys_tcp s) \<longrightarrow> sys_sessions s c = None))"

lemma system_inv_init: "system_inv ok cfg (initial_system w)"
proof -
  have "tasks initial_server = (\<lambda>_. None)" by (simp add: initial_server_def)
  then show ?thesis by (simp add: system_inv_def initial_system_def reach_init)
qed

text \<open>
  The turns that connections can still take once the shutdown has begun: \<open>n\<close> for the turns of a
  connection that is not open yet, and what is left of one that is.
\<close>

definition turns_left :: "(nat \<Rightarrow> nat) \<Rightarrow> ('c \<Rightarrow> nat) \<Rightarrow> 'c system \<Rightarrow> nat \<Rightarrow> nat" where
  "turns_left n rank s c =
     (case tasks (sys_tcp s) c of
        Some TaskStarted \<Rightarrow> n c
      | Some TaskServing \<Rightarrow> (case sys_sessions s c of Some (Talking x) \<Rightarrow> Suc (rank x) | _ \<Rightarrow> 0)
      | _ \<Rightarrow> 0) +
     (if acceptor (sys_tcp s) = HandOff c then n c else 0)"

definition system_work :: "(nat \<Rightarrow> nat) \<Rightarrow> ('c \<Rightarrow> nat) \<Rightarrow> 'c system \<Rightarrow> nat" where
  "system_work n rank s = remaining (sys_tcp s) + (\<Sum>c<next_conn (sys_tcp s). turns_left n rank s c)"

lemma turns_left_fresh: "ids_inv (sys_tcp s) \<Longrightarrow> next_conn (sys_tcp s) \<le> c \<Longrightarrow> turns_left n rank s c = 0"
proof -
  assume ids: "ids_inv (sys_tcp s)" and c: "next_conn (sys_tcp s) \<le> c"
  have "tasks (sys_tcp s) c = None"
    using task_served[OF ids, of c] c by (cases "tasks (sys_tcp s) c") (auto simp: unserved_def)
  moreover have "acceptor (sys_tcp s) \<noteq> HandOff c" using ids c by (auto simp: ids_inv_def)
  ultimately show ?thesis by (simp add: turns_left_def)
qed

section \<open>The interface between the server and a handler\<close>

text \<open>
  What the server relies on: on a connection that is \<open>ok\<close>, a turn of the handler comes to an end, a
  turn that is not the last leaves an \<open>ok\<close> connection of smaller \<open>rank\<close>, and the last one does not
  panic.
\<close>

locale conn_service =
  fixes opens :: "nat \<Rightarrow> 'c" and turn :: "'c conn_turn" and ok :: "'c \<Rightarrow> bool" and rank :: "'c \<Rightarrow> nat"
  assumes opened: "ok (opens c)"
    and answers: "ok x \<Longrightarrow> turn x w \<noteq> None"
    and ends: "ok x \<Longrightarrow> turn x w = Some (Inl (r, x', w')) \<Longrightarrow> r = ConnDone"
    and goes_on: "ok x \<Longrightarrow> turn x w = Some (Inr (x', w')) \<Longrightarrow> ok x' \<and> rank x' < rank x"
begin

lemma inv_tcp:
  assumes inv: "system_inv ok cfg s" and step: "tcp_event cfg opens e s = Some s'"
  shows "system_inv ok cfg s'"
proof -
  let ?t = "sys_tcp s"
  obtain t' where t': "exec_event cfg e ?t = Some t'" using step by (auto simp: tcp_event_def split: option.splits)
  have reach: "reachable cfg ?t" "reachable cfg t'" using inv t' reach_step by (auto simp: system_inv_def)
  have ids: "ids_inv ?t" using reachable_inv[OF reach(1)] by (simp add: server_inv_def)
  show ?thesis
  proof (cases "\<exists>c. e = EvTask c")
    case True
    then obtain c where c: "e = EvTask c" by blast
    note eff = task_event_effect[OF t'[unfolded c]]
    have served: "c \<notin> unserved ?t" using task_served[OF ids] eff by blast
    have same: "unserved t' = unserved ?t" using eff by (simp add: unserved_def)
    have "session_matches (tasks ?t c) (sys_sessions s c)" "session_ok ok (sys_sessions s c)" "\<not> sys_crashed s"
      using inv by (simp_all add: system_inv_def)
    then have new: "session_matches (tasks t' c) (sys_sessions s' c)" "session_ok ok (sys_sessions s' c)"
        "sys_tcp s' = t'" "\<not> sys_crashed s'" and other: "d \<noteq> c \<Longrightarrow> sys_sessions s' d = sys_sessions s d" for d
      using step t' eff opened
      by (cases "the (tasks ?t c)"; auto simp: tcp_event_def c over_normally_def
            split: option.splits session.splits conn_result.splits if_splits)+
    have "session_ok ok (sys_sessions s' d) \<and> session_matches (tasks t' d) (sys_sessions s' d) \<and>
        (d \<in> unserved t' \<longrightarrow> sys_sessions s' d = None)" for d
      using inv new other[of d] eff served same by (cases "d = c") (auto simp: system_inv_def)
    with new reach(2) show ?thesis by (simp add: system_inv_def)
  next
    case False
    then have s': "s' = s\<lparr>sys_tcp := t'\<rparr>"
      using step t' by (cases e) (auto simp: tcp_event_def)
    have eff: "\<And>c. tasks t' c = tasks ?t c \<or> c \<in> unserved ?t \<and> tasks t' c = Some TaskStarted" "unserved t' \<subseteq> unserved ?t"
      using other_event_effect[OF t'] False by blast+
    have "session_matches (tasks t' c) (sys_sessions s c)" for c
      using eff(1)[of c] inv by (auto simp: system_inv_def)
    then show ?thesis using inv eff(2) reach(2) by (auto simp: system_inv_def s')
  qed
qed

lemma talking_serving:
  "system_inv ok cfg s \<Longrightarrow> sys_sessions s c = Some (Talking x) \<Longrightarrow> tasks (sys_tcp s) c = Some TaskServing \<and> ok x"
proof -
  assume "system_inv ok cfg s" "sys_sessions s c = Some (Talking x)"
  then have "session_ok ok (Some (Talking x))" "session_matches (tasks (sys_tcp s) c) (Some (Talking x))"
    unfolding system_inv_def by metis+
  then show ?thesis by simp
qed

lemma inv_turn:
  assumes inv: "system_inv ok cfg s" and step: "turn_event turn c s = Some s'"
  shows "system_inv ok cfg s'"
proof -
  obtain x where x: "sys_sessions s c = Some (Talking x)"
    using step by (auto simp: turn_event_def split: option.splits session.splits)
  note talk = talking_serving[OF inv x]
  have "c \<notin> unserved (sys_tcp s)" using inv x by (auto simp: system_inv_def)
  moreover obtain y where "sys_sessions s' = (sys_sessions s)(c \<mapsto> y)" "sys_tcp s' = sys_tcp s" "\<not> sys_crashed s'"
      "session_ok ok (Some y)"
    using inv step talk x ends[of x "sys_world s"] goes_on[of x "sys_world s"]
    by (auto simp: turn_event_def system_inv_def split: option.splits sum.splits)
  ultimately show ?thesis using inv talk unfolding system_inv_def by (simp add: all_conj_distrib)
qed

lemma inv_step: "system_inv ok cfg s \<Longrightarrow> exec_system cfg opens turn e s = Some s' \<Longrightarrow> system_inv ok cfg s'"
  by (auto simp: exec_system_def split: if_splits system_event.splits intro: inv_tcp inv_turn)

lemma inv_run: "system_inv ok cfg s \<Longrightarrow> run_system cfg opens turn es s = Some s' \<Longrightarrow> system_inv ok cfg s'"
proof (induction es arbitrary: s)
  case (Cons e es)
  then obtain s1 where "exec_system cfg opens turn e s = Some s1" "run_system cfg opens turn es s1 = Some s'"
    by (auto simp: bind_eq_Some_conv)
  with Cons show ?case using inv_step by blast
qed simp

lemma tcp_work:
  assumes inv: "system_inv ok cfg s" and down: "shutting_down (sys_tcp s)" and step: "tcp_event cfg opens e s = Some s'"
  shows "shutting_down (sys_tcp s') \<and> system_work (\<lambda>c. Suc (rank (opens c))) rank s' < system_work (\<lambda>c. Suc (rank (opens c))) rank s"
proof -
  let ?t = "sys_tcp s" and ?left = "turns_left (\<lambda>c. Suc (rank (opens c))) rank"
  obtain t' where t': "exec_event cfg e ?t = Some t'" using step by (auto simp: tcp_event_def split: option.splits)
  have reach: "reachable cfg ?t" using inv by (simp add: system_inv_def)
  have ids: "ids_inv ?t" "ids_inv t'"
    using reachable_inv[OF reach] reachable_inv[OF reach_step[OF reach t']] by (simp_all add: server_inv_def)
  have s': "sys_tcp s' = t'"
    using step t' by (cases e) (auto simp: tcp_event_def split: if_splits option.splits session.splits conn_result.splits)
  note progress = shutdown_progress[OF exec_transition[OF t'] reachable_inv[OF reach] down]
  have "next_conn ?t \<le> next_conn t' \<and> ?left s' c \<le> ?left s c" for c
  proof (cases "\<exists>d. e = EvTask d")
    case True
    then obtain d where d: "e = EvTask d" by blast
    note eff = task_event_effect[OF t'[unfolded d]]
    show ?thesis
      using step t' eff
      by (cases "d = c"; cases "the (tasks ?t d)")
        (auto simp: turns_left_def s' tcp_event_def d split: option.splits session.splits conn_result.splits if_splits)
  next
    case False
    then have sess: "sys_sessions s' = sys_sessions s" using step t' by (cases e) (auto simp: tcp_event_def)
    have none: "acceptor ?t = HandOff d \<Longrightarrow> tasks ?t d = None" for d using ids(1) by (auto simp: ids_inv_def)
    show ?thesis
      unfolding turns_left_def s' sess using starting_event[OF t'] False down none[of c] by auto
  qed
  then have le: "next_conn ?t \<le> next_conn t'" "\<And>c. ?left s' c \<le> ?left s c" by blast+
  have "(\<Sum>c<next_conn t'. ?left s' c) \<le> (\<Sum>c<next_conn t'. ?left s c)" using le(2) by (intro sum_mono)
  also have "\<dots> = (\<Sum>c<next_conn ?t. ?left s c)"
    using le(1) turns_left_fresh[OF ids(1)] by (intro sum.mono_neutral_right) auto
  finally show ?thesis using progress by (simp add: system_work_def s')
qed

lemma turn_work:
  assumes inv: "system_inv ok cfg s" and step: "turn_event turn c s = Some s'"
  shows "sys_tcp s' = sys_tcp s \<and> system_work n rank s' < system_work n rank s"
proof -
  let ?t = "sys_tcp s"
  obtain x where x: "sys_sessions s c = Some (Talking x)"
    using step by (auto simp: turn_event_def split: option.splits session.splits)
  note talk = talking_serving[OF inv x]
  have t: "sys_tcp s' = ?t" using step x by (auto simp: turn_event_def split: option.splits sum.splits)
  have "ids_inv ?t" using inv reachable_inv by (auto simp: system_inv_def server_inv_def)
  with talk have "c \<notin> unserved ?t" using task_served by blast
  then have c: "c < next_conn ?t" by (simp add: unserved_def not_le)
  have "turns_left n rank s' c < turns_left n rank s c"
    using step x talk goes_on[of x "sys_world s"]
    by (auto simp: turns_left_def turn_event_def split: option.splits sum.splits)
  moreover have "turns_left n rank s' d = turns_left n rank s d" if "d \<noteq> c" for d
    using step x that by (auto simp: turns_left_def turn_event_def split: option.splits sum.splits)
  ultimately have "\<forall>d\<in>{..<next_conn ?t}. turns_left n rank s' d \<le> turns_left n rank s d"
    and "\<exists>d\<in>{..<next_conn ?t}. turns_left n rank s' d < turns_left n rank s d"
    using c by (metis order.order_iff_strict, blast)
  then have "(\<Sum>d<next_conn ?t. turns_left n rank s' d) < (\<Sum>d<next_conn ?t. turns_left n rank s d)"
    by (intro sum_strict_mono_ex1) auto
  then show ?thesis by (simp add: system_work_def t)
qed

lemma run_work:
  assumes "system_inv ok cfg s" "shutting_down (sys_tcp s)" "run_system cfg opens turn es s = Some s'"
  shows "system_inv ok cfg s' \<and> shutting_down (sys_tcp s') \<and> length es \<le> system_work (\<lambda>c. Suc (rank (opens c))) rank s"
  using assms
proof (induction es arbitrary: s)
  case (Cons e es)
  let ?work = "system_work (\<lambda>c. Suc (rank (opens c))) rank"
  obtain s1 where s1: "exec_system cfg opens turn e s = Some s1" "run_system cfg opens turn es s1 = Some s'"
    using Cons.prems(3) by (auto simp: bind_eq_Some_conv)
  have "shutting_down (sys_tcp s1) \<and> ?work s1 < ?work s"
    using s1(1) tcp_work[OF Cons.prems(1, 2)] turn_work[OF Cons.prems(1)] Cons.prems(2)
    by (auto simp: exec_system_def split: if_splits system_event.splits)
  with Cons.IH[OF inv_step[OF Cons.prems(1) s1(1)] _ s1(2)] show ?case by simp
qed simp

text \<open>A system in shutdown that cannot move has returned from \<open>Serve\<close>.\<close>

lemma not_stuck:
  assumes inv: "system_inv ok cfg s" and down: "shutting_down (sys_tcp s)" and stuck: "\<And>e. exec_system cfg opens turn e s = None"
  shows "(\<exists>r. acceptor (sys_tcp s) = ServeReturned r) \<and> tasks (sys_tcp s) = (\<lambda>_. None)"
proof -
  have still: "tcp_event cfg opens e s = None" "turn_event turn c s = None" for e c
    using stuck[of "Tcp e"] stuck[of "Turn c"] inv by (auto simp: exec_system_def system_inv_def)
  have "exec_event cfg e (sys_tcp s) = None" for e
  proof (rule ccontr)
    assume "exec_event cfg e (sys_tcp s) \<noteq> None"
    then obtain t' where t': "exec_event cfg e (sys_tcp s) = Some t'" by blast
    with still(1)[of e] obtain c where c: "e = EvTask c" "tasks (sys_tcp s) c = Some TaskServing"
      by (cases e) (auto simp: tcp_event_def split: if_splits)
    have "session_matches (tasks (sys_tcp s) c) (sys_sessions s c)" "session_ok ok (sys_sessions s c)"
      using inv by (simp_all add: system_inv_def)
    with c obtain x where x: "sys_sessions s c = Some x" "session_ok ok (Some x)" by auto
    show False
    proof (cases x)
      case (Talking y)
      with x answers[of y "sys_world s"] still(2)[of c] show False
        by (auto simp: turn_event_def split: option.splits sum.splits)
    next
      case (Over r y)
      with x c t' still(1)[of e] show False by (simp add: tcp_event_def)
    qed
  qed
  with shutdown_not_stuck[of cfg "sys_tcp s"] inv down reachable_inv show ?thesis by (auto simp: system_inv_def)
qed

text \<open>While a session lasts its connection is tracked; when \<open>Serve\<close> has returned every session is over.\<close>

lemma talking_tracked:
  assumes "system_inv ok cfg s"
  shows "{c. \<exists>x. sys_sessions s c = Some (Talking x)} \<subseteq> active_conns (sys_tcp s) \<inter> dom (tasks (sys_tcp s))"
proof
  fix c assume "c \<in> {c. \<exists>x. sys_sessions s c = Some (Talking x)}"
  then obtain x where "sys_sessions s c = Some (Talking x)" by blast
  then have "tasks (sys_tcp s) c = Some TaskServing" using talking_serving[OF assms] by blast
  moreover have "active_inv (sys_tcp s)"
    using assms reachable_inv by (auto simp: system_inv_def server_inv_def)
  ultimately show "c \<in> active_conns (sys_tcp s) \<inter> dom (tasks (sys_tcp s))" by (auto simp: active_inv_def)
qed

lemma within_limits:
  assumes inv: "system_inv ok cfg s"
  shows "(0 < max_active_conns cfg \<longrightarrow> int (card {c. \<exists>x. sys_sessions s c = Some (Talking x)}) \<le> max_active_conns cfg) \<and>
    (0 < handler_workers cfg \<longrightarrow> int (card {c. \<exists>x. sys_sessions s c = Some (Talking x)}) \<le> handler_workers cfg)"
proof -
  let ?T = "{c. \<exists>x. sys_sessions s c = Some (Talking x)}" and ?t = "sys_tcp s"
  have reach: "reachable cfg ?t" using inv by (simp add: system_inv_def)
  have "server_inv cfg ?t" using reachable_inv[OF reach] .
  then have fin: "finite (dom (tasks ?t))" "finite (active_conns ?t)"
    and lim: "limits_inv cfg ?t" using counted_finite by (auto simp: server_inv_def)
  have "card ?T \<le> card (active_conns ?t)" "card ?T \<le> card (dom (tasks ?t))"
    using talking_tracked[OF inv] fin by (auto intro!: card_mono)
  with lim show ?thesis by (auto simp: limits_inv_def)
qed

lemma returned_over:
  assumes inv: "system_inv ok cfg s" and "acceptor (sys_tcp s) = ServeReturned r" "sys_sessions s c = Some x"
  shows "over_normally x"
proof (cases x)
  case (Talking y)
  have reach: "reachable cfg (sys_tcp s)" using inv by (simp add: system_inv_def)
  have "active_conns (sys_tcp s) = {}"
    using reachable_inv[OF reach] assms(2)
    by (auto simp: server_inv_def end_inv_def shutdown_inv_def counted_def active_inv_def)
  with talking_tracked[OF inv] assms(3) Talking show ?thesis by blast
next
  case (Over r y)
  have "session_ok ok (sys_sessions s c)" using inv by (simp add: system_inv_def)
  with Over assms(3) show ?thesis by (simp add: over_normally_def)
qed

end

lemmas http_defs = http_open_def http_turn_def

section \<open>The two handlers keep the contract\<close>

interpretation echo: conn_service peers "echo_turn cfg" "\<lambda>_. True" "\<lambda>_. 0" for peers cfg
  by unfold_locales (auto simp: echo_turn_def split: prod.splits)

text \<open>A turn of \<open>ServeConn\<close> comes to an end, and one that goes on has consumed input.\<close>

lemma serve_turn_progress:
  assumes "plain_reader (conn_in c)"
  shows "serve_turn h ctx c s \<noteq> None"
    and "serve_turn h ctx c s = Some (Inr (c', s')) \<Longrightarrow>
      plain_reader (conn_in c') \<and> length (unread (conn_in c')) < length (unread (conn_in c))"
proof -
  have "same_conn c c" using assms by (simp add: same_conn_def)
  note agree = serve_turn_same[OF this, of h ctx s]
  then show "serve_turn h ctx c s \<noteq> None" by (cases "serve_turn h ctx c s") auto
  assume "serve_turn h ctx c s = Some (Inr (c', s'))"
  with agree show "plain_reader (conn_in c') \<and> length (unread (conn_in c')) < length (unread (conn_in c))"
    by (simp add: same_conn_def)
qed

interpretation http: conn_service "http_open (main_handler gz f\<lparr>app := a\<rparr>) peers" "http_turn (main_handler gz f\<lparr>app := a\<rparr>)"
  "\<lambda>x. plain_reader (conn_in x)" "\<lambda>x. length (unread (conn_in x))" for gz f a peers
proof unfold_locales
  fix c show "plain_reader (conn_in (http_open (main_handler gz f\<lparr>app := a\<rparr>) peers c))"
    by (simp add: http_open_def open_conn_def new_line_reader_def plain_reader_def)
next
  fix x :: conn and w
  assume "plain_reader (conn_in x)"
  then show "http_turn (main_handler gz f\<lparr>app := a\<rparr>) x w \<noteq> None"
    unfolding http_turn_def by (rule serve_turn_progress(1))
next
  fix x x' :: conn and w w' r
  assume "http_turn (main_handler gz f\<lparr>app := a\<rparr>) x w = Some (Inl (r, x', w'))"
  then show "r = ConnDone"
    unfolding http_turn_def by (rule serve_turn_returns[OF main_handler_returns])
next
  fix x x' :: conn and w w'
  assume "plain_reader (conn_in x)" "http_turn (main_handler gz f\<lparr>app := a\<rparr>) x w = Some (Inr (x', w'))"
  then show "plain_reader (conn_in x') \<and> length (unread (conn_in x')) < length (unread (conn_in x))"
    unfolding http_turn_def by (rule serve_turn_progress(2))
qed

section \<open>Two clients\<close>

text \<open>Two clients have connected to a server with the default flags, and their handlers are running.\<close>

definition two_clients :: "system_event list" where
  "two_clients = map Tcp [EvAccept, EvAcceptor, EvTask 0, EvAccept, EvAcceptor, EvTask 1]"

definition serving_two :: "server_state" where
  "serving_two = initial_server\<lparr>active_conns := {0, 1}, wg := 2, next_conn := 2, tasks := [0 \<mapsto> TaskServing, 1 \<mapsto> TaskServing]\<rparr>"

lemma two_clients_run:
  "run_system (main_server wbsv_defaults) opens turn two_clients (initial_system w) =
     Some \<lparr>sys_tcp = serving_two, sys_world = w, sys_sessions = [0 \<mapsto> Talking (opens 0), 1 \<mapsto> Talking (opens 1)],
       sys_crashed = False\<rparr>"
  by (simp add: two_clients_def serving_two_def initial_system_def exec_system_def tcp_event_def main_server_def
      wbsv_defaults_def initial_server_def step_defs insert_commute)

section \<open>Properties\<close>

definition silent_peers :: "nat \<Rightarrow> peer" where
  "silent_peers c = \<lparr>peer_src = \<lparr>segs = [], src_err = IoTimeout, src_eager = False\<rparr>,
     peer_out = \<lparr>sink_sent = [], sink_room = None\<rparr>, peer_deadlines = []\<rparr>"

definition stopping_two :: "conn system" where
  "stopping_two = \<lparr>sys_tcp = serving_two\<lparr>ctx_done := True, shutting_down := True, shutdown := ShBegun\<rparr>,
     sys_world = quiet_world,
     sys_sessions = [0 \<mapsto> Talking (http_open (main_handler store_only wbsv_defaults) silent_peers 0),
       1 \<mapsto> Talking (http_open (main_handler store_only wbsv_defaults) silent_peers 1)],
     sys_crashed = False\<rparr>"





end
