(* ===== verification/Server_Isolation.thy ===== *)
theory Server_Isolation
  imports Server_System
begin

text \<open>
  Connections of the server command do not disturb each other: what a client that behaves well is
  sent depends on its own requests alone, however the turns of the handlers interleave and
  whatever the other clients do. All that connections share is the request-ID counter, and no
  number is used twice.
\<close>

section \<open>One turn\<close>

text \<open>A turn on any connection takes at most one number from the counter.\<close>

lemma serve_turn_counter:
  assumes f: "plain_flags f" and turn: "serve_turn (main_handler gz f) ctx c s = Some x"
  shows "request_id_counter (case x of Inl (r, c', s') \<Rightarrow> s' | Inr (c', s') \<Rightarrow> s') \<in>
    {request_id_counter s, request_id_counter s + 1}"
proof -
  have files: "request_id_counter (fold close_file hs t) = request_id_counter t" for hs t
    by (induction hs arbitrary: t) (simp_all add: close_file_def)
  have deadline: "set_deadline t d s0 = (ok, d', s1) \<Longrightarrow> request_id_counter s1 = request_id_counter s0" for t d s0 ok d' s1
    by (auto simp: set_deadline_def time_now_def split: if_splits list.splits)
  have reply: "response_for_request (main_handler gz f) ctx res s0 = (y, s1) \<Longrightarrow>
      request_id_counter s1 \<in> {request_id_counter s0, request_id_counter s0 + 1}" for res s0 y s1
  proof (cases res)
    case (Inl err)
    moreover assume "response_for_request (main_handler gz f) ctx res s0 = (y, s1)"
    ultimately show ?thesis by (auto simp: response_for_request_def Let_def split: if_splits)
  next
    case (Inr req)
    moreover assume "response_for_request (main_handler gz f) ctx res s0 = (y, s1)"
    ultimately show ?thesis using plain_main_counter[OF f, of gz ctx req s0 y s1] by (simp add: next_count_def)
  qed
  show ?thesis
    using turn
    by (auto simp: serve_turn_def Let_def files split: prod.splits if_splits option.splits sum.splits
        dest!: deadline reply)
qed

text \<open>A client that behaves: what it still has to ask, and the bytes after that.\<close>

definition polite :: "handler_config \<Rightarrow> http_request list \<Rightarrow> bool" where
  "polite h rs \<longleftrightarrow> rs \<noteq> [] \<and> should_close_connection (last rs) \<and> (\<forall>r\<in>set (butlast rs). \<not> should_close_connection r) \<and>
     (\<forall>r\<in>set rs. well_formed_request (handler_max_line h) (handler_limits h) r \<and> \<not> accepts_gzip r)"

definition healthy :: "handler_config \<Rightarrow> conn \<Rightarrow> http_request list \<Rightarrow> bytes \<Rightarrow> bool" where
  "healthy h x rs rest \<longleftrightarrow> deadline_results x = [] \<and> sink_room (conn_out x) = None \<and> plain_reader (conn_in x) \<and>
     max_line (conn_in x) = handler_max_line h \<and> unread (conn_in x) = concat (map render_request rs) @ rest"

lemma polite_Cons:
  "polite h (r # rs) \<longleftrightarrow> well_formed_request (handler_max_line h) (handler_limits h) r \<and> \<not> accepts_gzip r \<and>
     (if rs = [] then should_close_connection r else \<not> should_close_connection r \<and> polite h rs)"
  by (auto simp: polite_def)

lemma polite_turn:
  assumes f: "plain_flags f" "h = main_handler gz f"
    and p: "polite h (r # rs)" and x: "healthy h x (r # rs) rest"
  shows "\<exists>x' w'. serve_turn h ctx x w = Some (if rs = [] then Inl (ConnDone, x', w') else Inr (x', w')) \<and>
    healthy h x' rs rest \<and> request_id_counter w' = next_count (request_id_counter w) r \<and>
    sink_sent (conn_out x') = sink_sent (conn_out x) @ default_message (assigned_id (request_id_counter w) r) r"
proof -
  let ?i = "assigned_id (request_id_counter w) r" and ?cl = "should_close_connection r"
  let ?resp = "final_response (identified_response ?i r) ?cl"
  have wf: "well_formed_request (handler_max_line h) (handler_limits h) r" and g: "\<not> accepts_gzip r"
    and cl: "?cl \<longleftrightarrow> rs = []" using p by (auto simp: polite_Cons split: if_splits)
  obtain rd where rd: "read_http_request (handler_limits h) (conn_in x) = Some (Inr r, rd)"
      "unread rd = concat (map render_request rs) @ rest" "plain_reader rd" "max_line rd = handler_max_line h"
    using well_formed_read[OF wf, of "conn_in x"] x by (auto simp: healthy_def)
  obtain w1 where w1: "response_for_request h ctx (Inr r) (before_request h w) = (Inr (identified_response ?i r, ?cl), w1)"
      "request_id_counter w1 = next_count (request_id_counter w) r"
    using plain_main_reply[OF f(1) g, of gz ctx "before_request h w"] by (auto simp: f(2) before_request_counter)
  have "valid_request_line (request_line r)" "\<forall>f\<in>set (req_headers r). valid_field f"
    using wf by (auto simp: well_formed_request_def)
  note msg = default_message_bytes[OF this(1) assigned_id_plain[OF this(2)]]
  have "resp_status ?resp \<noteq> 101"
    by (simp add: final_response_def identified_response_def hello_response_def)
  then have "serve_turn h ctx x w = Some (if rs = [] then Inl (ConnDone, after_sending x rd ?resp, after_reply h ?resp w1)
      else Inr (after_sending x rd ?resp, after_reply h ?resp w1))"
    using serve_turn_answers[OF _ _ rd(1) w1(1) msg(1)] x cl by (simp add: healthy_def Let_def)
  moreover have "healthy h (after_sending x rd ?resp) rs rest"
    using x rd by (simp add: healthy_def after_sending_def)
  moreover have "sink_sent (conn_out (after_sending x rd ?resp)) = sink_sent (conn_out x) @ default_message ?i r"
    by (simp add: after_sending_def msg(2))
  ultimately show ?thesis using w1(2) by (metis after_reply_counter)
qed

section \<open>The request IDs of all connections\<close>

definition anonymous :: "http_request \<Rightarrow> bool" where
  "anonymous r \<longleftrightarrow> request_id_from_headers (req_headers r) = []"

definition new_id :: "64 word \<Rightarrow> bytes" where
  "new_id n = ''wbsv-'' @ format_int (uint n)"

lemma assigned_id_cases: "assigned_id n r = (if anonymous r then new_id (n + 1) else request_id_from_headers (req_headers r))"
  by (simp add: assigned_id_def anonymous_def new_id_def Let_def)

lemma new_id_eq [simp]: "new_id m = new_id n \<longleftrightarrow> m = n"
  using format_int_inj[of "uint m" "uint n"] word_uint_eq_iff[of m n] by (auto simp: new_id_def)

text \<open>The place of every answered request that came without an ID.\<close>

definition anonymous_places :: "nat set \<Rightarrow> (nat \<Rightarrow> http_request list) \<Rightarrow> (nat \<Rightarrow> bytes list) \<Rightarrow> (nat \<times> nat) set" where
  "anonymous_places G reqs ids = {(c, k). c \<in> G \<and> k < length (ids c) \<and> anonymous (reqs c ! k)}"

text \<open>
  The IDs after \<open>n\<close> numbers have been taken from a counter that stood at \<open>n0\<close>: a request keeps
  its own, the others have got different ones of these numbers, as long as the counter does not
  wrap around.
\<close>

definition numbered :: "64 word \<Rightarrow> nat \<Rightarrow> nat set \<Rightarrow> (nat \<Rightarrow> http_request list) \<Rightarrow> (nat \<Rightarrow> bytes list) \<Rightarrow> bool" where
  "numbered n0 n G reqs ids \<longleftrightarrow>
     (\<forall>c\<in>G. \<forall>k<length (ids c). \<not> anonymous (reqs c ! k) \<longrightarrow> ids c ! k = request_id_from_headers (req_headers (reqs c ! k))) \<and>
     (\<forall>(c, k)\<in>anonymous_places G reqs ids. \<exists>j<n. ids c ! k = new_id (n0 + of_nat (Suc j))) \<and>
     (n \<le> 2 ^ 64 \<longrightarrow> inj_on (\<lambda>(c, k). ids c ! k) (anonymous_places G reqs ids))"

lemma numbered_Suc: "numbered n0 n G reqs ids \<Longrightarrow> numbered n0 (Suc n) G reqs ids"
  unfolding numbered_def by (auto simp: less_Suc_eq)

lemma later_number: "j < n \<Longrightarrow> Suc n \<le> 2 ^ 64 \<Longrightarrow> n0 + of_nat (Suc j) \<noteq> (n0 + of_nat (Suc n) :: 64 word)"
proof
  assume j: "j < n" "Suc n \<le> 2 ^ 64" and "n0 + of_nat (Suc j) = (n0 + of_nat (Suc n) :: 64 word)"
  then have "(of_nat j :: 64 word) = of_nat n" by simp
  then have "j mod 2 ^ 64 = n mod 2 ^ 64" by (simp add: word_of_nat_eq_iff take_bit_eq_mod)
  then show False using j by simp
qed

text \<open>A new place can only repeat an ID if the counter has wrapped around.\<close>

lemma numbered_inj:
  assumes inj: "inj_on id_at P" and new: "id_at p = new_id (n0 + of_nat (Suc n))" "Suc n \<le> 2 ^ 64"
    and old: "\<And>x. x \<in> P \<Longrightarrow> \<exists>j<n. id_at x = new_id (n0 + of_nat (Suc j))"
  shows "inj_on id_at (insert p P)"
proof -
  have "id_at x \<noteq> id_at p" if "x \<in> P" for x
  proof -
    from old[OF that] obtain j where j: "j < n" "id_at x = new_id (n0 + of_nat (Suc j))" by blast
    show ?thesis unfolding j(2) new(1) new_id_eq by (rule later_number[OF j(1) new(2)])
  qed
  then have "id_at p \<notin> id_at ` P" by force
  then show ?thesis using inj by (auto simp: inj_on_insert)
qed

lemma numbered_append:
  assumes num: "numbered n0 n G reqs ids" and c: "c \<in> G" and r: "reqs c ! length (ids c) = r"
  defines "ids' \<equiv> ids(c := ids c @ [assigned_id (n0 + of_nat n) r])"
  shows "numbered n0 (if anonymous r then Suc n else n) G reqs ids'"
proof -
  let ?P = "anonymous_places G reqs ids" and ?P' = "anonymous_places G reqs ids'" and ?new = "(c, length (ids c))"
  let ?m = "if anonymous r then Suc n else n" and ?id = "\<lambda>(c, k). ids' c ! k"
  have old: "ids' d ! k = ids d ! k" if "k < length (ids d)" for d k
    using that by (auto simp: ids'_def nth_append)
  have new: "ids' c ! length (ids c) = assigned_id (n0 + of_nat n) r" by (simp add: ids'_def)
  have fresh: "?id ?new = new_id (n0 + of_nat (Suc n))" if "anonymous r"
    using new that by (simp add: assigned_id_cases algebra_simps)
  have places: "?P' = (if anonymous r then insert ?new ?P else ?P)"
    using c r by (auto simp: anonymous_places_def ids'_def less_Suc_eq split: if_splits)
  have same: "?id x = (\<lambda>(c, k). ids c ! k) x" if "x \<in> ?P" for x
    using that old by (auto simp: anonymous_places_def)
  have taken: "\<exists>j<n. ?id x = new_id (n0 + of_nat (Suc j))" if "x \<in> ?P" for x
    using num that unfolding same[OF that] by (auto simp: numbered_def)
  have "ids' d ! k = request_id_from_headers (req_headers (reqs d ! k))"
    if k: "d \<in> G" "k < length (ids' d)" "\<not> anonymous (reqs d ! k)" for d k
  proof (cases "k < length (ids d)")
    case True
    with num k old show ?thesis by (simp add: numbered_def)
  next
    case False
    with k have "d = c" "k = length (ids c)" by (auto simp: ids'_def split: if_splits)
    with new k r show ?thesis by (simp add: assigned_id_cases)
  qed
  moreover have "\<exists>j<?m. ?id x = new_id (n0 + of_nat (Suc j))" if "x \<in> ?P'" for x
  proof (cases "x \<in> ?P")
    case True
    from taken[OF this] obtain j where "j < n" "?id x = new_id (n0 + of_nat (Suc j))" by blast
    then show ?thesis by (intro exI[of _ j]) auto
  next
    case False
    with that have "anonymous r" "x = ?new" by (auto simp: places split: if_splits)
    with fresh show ?thesis by (intro exI[of _ n]) simp
  qed
  moreover have "inj_on ?id ?P'" if "?m \<le> 2 ^ 64"
  proof -
    have "inj_on (\<lambda>(c, k). ids c ! k) ?P" using num that by (auto simp: numbered_def split: if_splits)
    with same have "inj_on ?id ?P" by (simp cong: inj_on_cong)
    with numbered_inj[of ?id ?P ?new n0 n] fresh taken that show ?thesis by (auto simp: places)
  qed
  ultimately show ?thesis by (auto simp: numbered_def)
qed

section \<open>The exchanges of the polite clients\<close>

fun session_conn :: "'c session \<Rightarrow> 'c" where
  "session_conn (Talking x) = x"
| "session_conn (Over r x) = x"

definition exchange :: "handler_config \<Rightarrow> peer \<Rightarrow> http_request list \<Rightarrow> bytes \<Rightarrow> bytes list \<Rightarrow> conn session \<Rightarrow> bool" where
  "exchange h p rs rest ids x \<longleftrightarrow>
     sink_sent (conn_out (session_conn x)) = sink_sent (peer_out p) @ concat (map2 default_message ids rs) \<and>
     unread (conn_in (session_conn x)) = concat (map render_request (drop (length ids) rs)) @ rest \<and>
     (case x of Talking y \<Rightarrow> length ids < length rs | Over r y \<Rightarrow> r = ConnDone \<and> length ids = length rs)"

definition polite_peer :: "handler_config \<Rightarrow> peer \<Rightarrow> http_request list \<Rightarrow> bytes \<Rightarrow> bool" where
  "polite_peer h p rs rest \<longleftrightarrow> polite h rs \<and> src_bytes (peer_src p) = concat (map render_request rs) @ rest \<and>
     peer_deadlines p = [] \<and> sink_room (peer_out p) = None"

definition in_exchange :: "handler_config \<Rightarrow> peer \<Rightarrow> http_request list \<Rightarrow> bytes \<Rightarrow> bytes list \<Rightarrow> conn session option \<Rightarrow> bool" where
  "in_exchange h p rs rest ids ox \<longleftrightarrow>
     (case ox of
        None \<Rightarrow> ids = []
      | Some x \<Rightarrow> exchange h p rs rest ids x \<and> healthy h (session_conn x) (drop (length ids) rs) rest)"

lemma in_exchange_simps [simp]:
  "in_exchange h p rs rest ids None \<longleftrightarrow> ids = []"
  "in_exchange h p rs rest ids (Some x) \<longleftrightarrow>
     exchange h p rs rest ids x \<and> healthy h (session_conn x) (drop (length ids) rs) rest"
  by (simp_all add: in_exchange_def)

definition isolated_inv ::
  "handler_config \<Rightarrow> (nat \<Rightarrow> peer) \<Rightarrow> (nat \<Rightarrow> http_request list) \<Rightarrow> (nat \<Rightarrow> bytes) \<Rightarrow> nat set \<Rightarrow> 64 word \<Rightarrow> nat \<Rightarrow>
   (nat \<Rightarrow> bytes list) \<Rightarrow> conn system \<Rightarrow> bool" where
  "isolated_inv h peers reqs rest G n0 n ids s \<longleftrightarrow>
     request_id_counter (sys_world s) = n0 + of_nat n \<and> numbered n0 n G reqs ids \<and>
     (\<forall>c\<in>G. in_exchange h (peers c) (reqs c) (rest c) (ids c) (sys_sessions s c))"

lemma isolated_init: "isolated_inv h peers reqs rest G (request_id_counter w) 0 (\<lambda>_. []) (initial_system w)"
  by (simp add: isolated_inv_def initial_system_def numbered_def anonymous_places_def)

lemma polite_suffix: "polite h rs \<Longrightarrow> k < length rs \<Longrightarrow> polite h (drop k rs)"
proof (induction k)
  case (Suc k)
  then have "drop k rs = rs ! k # drop (Suc k) rs" "polite h (drop k rs)" by (simp_all add: Cons_nth_drop_Suc)
  with Suc.prems(2) show ?case by (simp add: polite_Cons)
qed simp

text \<open>The events of the TCP server: the only thing that can happen to a session is that it starts.\<close>

lemma tcp_event_sessions:
  assumes "system_inv ok cfg s" "tcp_event cfg opens e s = Some s'"
  shows "sys_world s' = sys_world s \<and> (sys_sessions s' = sys_sessions s \<or>
    (\<exists>c. sys_sessions s c = None \<and> sys_sessions s' = (sys_sessions s)(c \<mapsto> Talking (opens c))))"
proof (cases "\<exists>c. e = EvTask c \<and> tasks (sys_tcp s) c = Some TaskStarted")
  case True
  then obtain c where c: "e = EvTask c" "tasks (sys_tcp s) c = Some TaskStarted" by blast
  have "session_matches (tasks (sys_tcp s) c) (sys_sessions s c)" using assms(1) by (simp add: system_inv_def)
  with c assms(2) show ?thesis by (auto simp: tcp_event_def split: option.splits)
next
  case False
  with assms(2) show ?thesis
    by (cases e) (auto simp: tcp_event_def split: option.splits if_splits session.splits conn_result.splits)
qed

lemma http_open_exchange:
  assumes "polite_peer h (peers c) rs rest"
  shows "exchange h (peers c) rs rest [] (Talking (http_open h peers c)) \<and> healthy h (http_open h peers c) rs rest"
  using assms
  by (auto simp: polite_peer_def polite_def exchange_def healthy_def http_open_def open_conn_def new_line_reader_def
      plain_reader_def unread_def src_bytes_def)

lemma isolated_tcp:
  assumes "system_inv ok cfg s" "tcp_event cfg (http_open h peers) e s = Some s'"
    and "\<forall>c\<in>G. polite_peer h (peers c) (reqs c) (rest c)" "isolated_inv h peers reqs rest G n0 n ids s"
  shows "isolated_inv h peers reqs rest G n0 n ids s'"
proof -
  note eff = tcp_event_sessions[OF assms(1, 2)]
  show ?thesis
  proof (cases "sys_sessions s' = sys_sessions s")
    case True
    with eff assms(4) show ?thesis by (simp add: isolated_inv_def)
  next
    case False
    with eff obtain c where c: "sys_sessions s c = None" "sys_sessions s' = (sys_sessions s)(c \<mapsto> Talking (http_open h peers c))"
      by blast
    then have "c \<in> G \<longrightarrow> ids c = []" using assms(4) by (auto simp: isolated_inv_def dest!: bspec)
    with c eff assms(3, 4) http_open_exchange[of h peers c "reqs c" "rest c"] show ?thesis
      by (auto simp: isolated_inv_def)
  qed
qed

lemma isolated_other_turn:
  assumes f: "plain_flags f" "h = main_handler gz f"
    and inv: "isolated_inv h peers reqs rest G n0 n ids s" and step: "turn_event (http_turn h) c s = Some s'" and c: "c \<notin> G"
  shows "\<exists>m\<in>{n, Suc n}. isolated_inv h peers reqs rest G n0 m ids s'"
proof -
  let ?w = "sys_world s"
  obtain x y where y: "serve_turn h (Some BackgroundCtx) x ?w = Some y"
      "sys_world s' = (case y of Inl (r, c', w') \<Rightarrow> w' | Inr (c', w') \<Rightarrow> w')" "\<forall>d. d \<noteq> c \<longrightarrow> sys_sessions s' d = sys_sessions s d"
    using step by (auto simp: turn_event_def http_turn_def split: option.splits session.splits sum.splits)
  then have other: "\<forall>d\<in>G. sys_sessions s' d = sys_sessions s d" using c by metis
  have "request_id_counter (sys_world s') \<in> {n0 + of_nat n, n0 + of_nat n + 1}"
    using serve_turn_counter[OF f(1), of gz "Some BackgroundCtx" x ?w y] y(1, 2) inv by (simp add: f(2) isolated_inv_def)
  then have "\<exists>m\<in>{n, Suc n}. request_id_counter (sys_world s') = n0 + of_nat m" by (auto simp: algebra_simps)
  then show ?thesis using other inv numbered_Suc[of n0 n] by (auto simp: isolated_inv_def)
qed

lemma map2_snoc: "k = length xs \<Longrightarrow> k < length ys \<Longrightarrow> map2 f (xs @ [x]) ys = map2 f xs ys @ [f x (ys ! k)]"
proof (induction xs arbitrary: k ys)
  case Nil
  then show ?case by (cases ys) simp_all
next
  case (Cons a xs)
  then show ?case by (cases ys) auto
qed

lemma isolated_polite_turn:
  assumes f: "plain_flags f" "h = main_handler gz f" and G: "polite_peer h (peers c) (reqs c) (rest c)"
    and inv: "isolated_inv h peers reqs rest G n0 n ids s" and step: "turn_event (http_turn h) c s = Some s'" and c: "c \<in> G"
  shows "\<exists>m\<in>{n, Suc n}. \<exists>ids'. isolated_inv h peers reqs rest G n0 m ids' s'"
proof -
  let ?w = "sys_world s" and ?k = "length (ids c)" and ?rs = "reqs c"
  obtain x where x: "sys_sessions s c = Some (Talking x)"
    using step by (auto simp: turn_event_def split: option.splits session.splits)
  have count: "request_id_counter ?w = n0 + of_nat n" and num: "numbered n0 n G reqs ids"
    and ex: "exchange h (peers c) ?rs (rest c) (ids c) (Talking x)" "healthy h x (drop ?k ?rs) (rest c)"
    using inv x c by (auto simp: isolated_inv_def dest!: bspec[of _ _ c])
  then have k: "?k < length ?rs" by (simp add: exchange_def)
  define r where "r = ?rs ! ?k"
  have more: "drop ?k ?rs = r # drop (Suc ?k) ?rs" using k by (simp add: r_def Cons_nth_drop_Suc)
  have "polite h (r # drop (Suc ?k) ?rs)" using G polite_suffix[of h ?rs ?k] k by (simp add: polite_peer_def more)
  from polite_turn[OF f this ex(2)[unfolded more], of "Some BackgroundCtx" ?w] obtain x' w' where
    x': "serve_turn h (Some BackgroundCtx) x ?w = Some (if drop (Suc ?k) ?rs = [] then Inl (ConnDone, x', w') else Inr (x', w'))"
      "healthy h x' (drop (Suc ?k) ?rs) (rest c)" "request_id_counter w' = next_count (request_id_counter ?w) r"
      "sink_sent (conn_out x') = sink_sent (conn_out x) @ default_message (assigned_id (request_id_counter ?w) r) r"
    by blast
  define y where "y = (if drop (Suc ?k) ?rs = [] then Over ConnDone x' else Talking x')"
  have s': "sys_world s' = w'" "sys_sessions s' = (sys_sessions s)(c \<mapsto> y)"
    using step x x'(1) by (auto simp: turn_event_def http_turn_def y_def split: if_splits)
  let ?ids = "ids(c := ids c @ [assigned_id (n0 + of_nat n) r])" and ?m = "if anonymous r then Suc n else n"
  have "exchange h (peers c) ?rs (rest c) (?ids c) y \<and> healthy h (session_conn y) (drop (length (?ids c)) ?rs) (rest c)"
    using ex(1) x' k by (auto simp: exchange_def y_def map2_snoc[OF refl k] r_def[symmetric] count healthy_def)
  moreover have "request_id_counter w' = n0 + of_nat ?m"
    using x'(3) by (simp add: next_count_def anonymous_def count algebra_simps)
  ultimately have "isolated_inv h peers reqs rest G n0 ?m ?ids s'"
    using inv numbered_append[OF num c r_def[symmetric]] by (auto simp: isolated_inv_def s')
  then show ?thesis by (intro bexI[of _ ?m]) auto
qed

lemma isolated_run:
  assumes f: "plain_flags f" "h = main_handler gz f" and G: "\<forall>c\<in>G. polite_peer h (peers c) (reqs c) (rest c)"
    and "system_inv (\<lambda>x. plain_reader (conn_in x)) cfg s" "isolated_inv h peers reqs rest G n0 n ids s"
    and "run_system cfg (http_open h peers) (http_turn h) es s = Some s'"
  shows "\<exists>m ids'. m \<le> n + length es \<and> isolated_inv h peers reqs rest G n0 m ids' s'"
  using assms(4-6)
proof (induction es arbitrary: s n ids)
  case (Cons e es)
  obtain s1 where s1: "exec_system cfg (http_open h peers) (http_turn h) e s = Some s1"
      "run_system cfg (http_open h peers) (http_turn h) es s1 = Some s'"
    using Cons.prems(3) by (auto simp: bind_eq_Some_conv)
  have h: "h = main_handler gz f\<lparr>app := None\<rparr>" by (simp add: f(2) main_handler_def)
  have inv1: "system_inv (\<lambda>x. plain_reader (conn_in x)) cfg s1"
    using http.inv_step[OF Cons.prems(1)] s1(1) unfolding h by blast
  have "\<exists>m\<in>{n, Suc n}. \<exists>ids'. isolated_inv h peers reqs rest G n0 m ids' s1"
  proof (cases e)
    case (Tcp ev)
    with s1(1) have "tcp_event cfg (http_open h peers) ev s = Some s1" by (simp add: exec_system_def split: if_splits)
    from isolated_tcp[OF Cons.prems(1) this G Cons.prems(2)] show ?thesis by blast
  next
    case (Turn c)
    with s1(1) have "turn_event (http_turn h) c s = Some s1" by (simp add: exec_system_def split: if_splits)
    from isolated_other_turn[OF f Cons.prems(2) this] isolated_polite_turn[OF f _ Cons.prems(2) this] G show ?thesis by blast
  qed
  then obtain m ids' where m: "m \<le> Suc n" "isolated_inv h peers reqs rest G n0 m ids' s1"
    by (metis insertE le_SucI order_refl singletonD)
  from Cons.IH[OF inv1 m(2) s1(2)] obtain k ids'' where
    "k \<le> m + length es" "isolated_inv h peers reqs rest G n0 k ids'' s'" by blast
  with m(1) show ?case by (intro exI[of _ k] exI[of _ ids'']) simp
qed (metis le_add1 option.inject run_system.simps(1))

section \<open>Property\<close>


text \<open>Two clients at once: the first pipelines two requests, the second asks between them.\<close>

definition two_requests :: "nat \<Rightarrow> http_request list" where
  "two_requests c = (if c = 0 then [get_root [], get_root [close_header]] else [get_root [close_header]])"

definition asking_peers :: "nat \<Rightarrow> peer" where
  "asking_peers c = \<lparr>peer_src = \<lparr>segs = map render_request (two_requests c), src_err = IoEOF, src_eager = False\<rparr>,
     peer_out = \<lparr>sink_sent = [], sink_room = None\<rparr>, peer_deadlines = []\<rparr>"

lemma two_requests_polite: "polite_peer (main_handler gz wbsv_defaults) (asking_peers c) (two_requests c) []"
proof -
  let ?h = "main_handler gz wbsv_defaults"
  have lims: "handler_max_line ?h = 8192" "handler_limits ?h = \<lparr>max_headers = 100, max_body = 1048576\<rparr>"
    by (simp_all add: main_handler_def wbsv_defaults_def handler_max_line_def handler_max_headers_def handler_max_body_def)
  have "\<not> accepts_gzip (get_root [])" "\<not> accepts_gzip (get_root [close_header])" by code_simp+
  then have "polite ?h (two_requests c)"
    using get_root_facts by (simp add: two_requests_def polite_def lims)
  then show ?thesis by (simp add: polite_peer_def asking_peers_def src_bytes_def)
qed

text \<open>A turn of a polite client in the system.\<close>

lemma turn_event_polite:
  assumes f: "plain_flags f" "h = main_handler gz f" and p: "polite h (r # rs)"
    and s: "\<not> sys_crashed s" "sys_sessions s c = Some (Talking x)" "healthy h x (r # rs) rest"
  shows "\<exists>s' x'. exec_system cfg opens (http_turn h) (Turn c) s = Some s' \<and> \<not> sys_crashed s' \<and> healthy h x' rs rest \<and>
    sys_sessions s' = (sys_sessions s)(c \<mapsto> (if rs = [] then Over ConnDone x' else Talking x'))"
  using polite_turn[OF f p s(3), of "Some BackgroundCtx" "sys_world s"] s(1, 2)
  by (auto simp: exec_system_def turn_event_def http_turn_def split: if_splits)


end
