(* ===== verification/Load_Test.thy ===== *)
theory Load_Test
  imports Go_Time "HOL-Library.Multiset"
begin

text \<open>
  The load test client (loadtest/loadtest.go). \<open>Run\<close> is modelled as an interleaving of its goroutines: the producer
  of jobs, the workers, the goroutine that closes the results, and the collecting loop. The
  HTTP client of package net/http is a parameter: what one call of it comes to.
\<close>

section \<open>Configuration and results\<close>

record load_config =
  lc_url :: bytes
  lc_method :: bytes
  lc_headers :: "(bytes \<times> bytes list) list"
  lc_body :: bytes
  lc_requests :: int
  lc_concurrency :: int
  lc_timeout :: int
  lc_disable_keep_alives :: bool

record load_result =
  lr_requests :: int
  lr_completed :: int
  lr_failed :: int
  lr_bytes_read :: int
  lr_status_counts :: "int \<rightharpoonup> int"
  lr_duration :: int
  lr_min_latency :: int
  lr_max_latency :: int
  lr_avg_latency :: int

record request_result =
  rr_status :: int
  rr_bytes :: int
  rr_latency :: int
  rr_err :: "bytes option"

definition valid_load_config :: "load_config \<Rightarrow> bool" where
  "valid_load_config cfg \<longleftrightarrow> \<not> (lc_url cfg = [] \<or> lc_requests cfg \<le> 0 \<or> lc_concurrency cfg \<le> 0)"

text \<open>
  A call of the client: the request could not be built, the call failed, or it was answered
  with a status, and reading the body gave a number of bytes and maybe an error. The client is
  set up with the timeout of a call and whether connections are kept alive.
\<close>

datatype call_result = RequestInvalid bytes | CallFailed bytes | Answered int int "bytes option"

type_synonym client = "int \<Rightarrow> bool \<Rightarrow> bytes \<Rightarrow> bytes \<Rightarrow> (bytes \<times> bytes) list \<Rightarrow> bytes \<Rightarrow> call_result"

definition effective_method :: "load_config \<Rightarrow> bytes" where
  "effective_method cfg = (if lc_method cfg = [] then ''GET'' else lc_method cfg)"

definition execute_request :: "load_config \<Rightarrow> client \<Rightarrow> int \<Rightarrow> request_result" where
  "execute_request cfg client elapsed =
     (let adds = concat (map (\<lambda>(name, values). map (Pair name) values) (lc_headers cfg)) in
      (case client (lc_timeout cfg) (lc_disable_keep_alives cfg) (effective_method cfg) (lc_url cfg) adds (lc_body cfg) of
         RequestInvalid e \<Rightarrow> \<lparr>rr_status = 0, rr_bytes = 0, rr_latency = elapsed, rr_err = Some e\<rparr>
       | CallFailed e \<Rightarrow> \<lparr>rr_status = 0, rr_bytes = 0, rr_latency = elapsed, rr_err = Some e\<rparr>
       | Answered status n e \<Rightarrow> \<lparr>rr_status = status, rr_bytes = n, rr_latency = elapsed, rr_err = e\<rparr>))"

section \<open>The collecting loop\<close>

definition first_result :: "load_config \<Rightarrow> load_result" where
  "first_result cfg = \<lparr>lr_requests = lc_requests cfg, lr_completed = 0, lr_failed = 0, lr_bytes_read = 0,
     lr_status_counts = Map.empty, lr_duration = 0, lr_min_latency = 0, lr_max_latency = 0, lr_avg_latency = 0\<rparr>"

definition count_up :: "(int \<rightharpoonup> int) \<Rightarrow> int \<Rightarrow> (int \<rightharpoonup> int)" where
  "count_up m code = m(code \<mapsto> (case m code of None \<Rightarrow> 0 | Some n \<Rightarrow> n) + 1)"

text \<open>One iteration, with the sum of the latencies beside the result; both sums are 64-bit.\<close>

definition collect :: "request_result \<Rightarrow> load_result \<times> int \<Rightarrow> load_result \<times> int" where
  "collect r x =
     (case x of (res, totalLatency) \<Rightarrow>
        let res1 = (if rr_err r \<noteq> None then res\<lparr>lr_failed := lr_failed res + 1\<rparr>
              else res\<lparr>lr_completed := lr_completed res + 1,
                lr_bytes_read := wrap_int64 (lr_bytes_read res + rr_bytes r),
                lr_status_counts := count_up (lr_status_counts res) (rr_status r)\<rparr>);
            res2 = (if lr_min_latency res1 = 0 \<or> rr_latency r < lr_min_latency res1
              then res1\<lparr>lr_min_latency := rr_latency r\<rparr> else res1);
            res3 = (if lr_max_latency res2 < rr_latency r
              then res2\<lparr>lr_max_latency := rr_latency r\<rparr> else res2)
        in (res3, wrap_int64 (totalLatency + rr_latency r)))"

text \<open>Go's integer division truncates towards zero.\<close>

definition int_quot :: "int \<Rightarrow> int \<Rightarrow> int" where
  "int_quot a b = sgn a * sgn b * (\<bar>a\<bar> div \<bar>b\<bar>)"

definition finish_result :: "int \<Rightarrow> load_result \<times> int \<Rightarrow> load_result" where
  "finish_result elapsed x =
     (case x of (res, totalLatency) \<Rightarrow>
        let res1 = res\<lparr>lr_duration := elapsed\<rparr>; attempts = lr_completed res1 + lr_failed res1 in
        if 0 < attempts then res1\<lparr>lr_avg_latency := int_quot totalLatency attempts\<rparr> else res1)"

section \<open>The goroutines\<close>

datatype worker = AwaitsJob | Calls | Delivers request_result | WorkerExited

record load_state =
  lt_next :: int
  lt_jobs_closed :: bool
  lt_ctx_done :: bool
  lt_workers :: "worker list"
  lt_results_closed :: bool
  lt_collected :: "load_result \<times> int"

definition start_load :: "load_config \<Rightarrow> load_state" where
  "start_load cfg = \<lparr>lt_next = 0, lt_jobs_closed = False, lt_ctx_done = False,
     lt_workers = replicate (nat (lc_concurrency cfg)) AwaitsJob, lt_results_closed = False,
     lt_collected = (first_result cfg, 0)\<rparr>"

text \<open>
  Both channels are unbuffered, so that a send and its receive are one step. The context may be
  done at any time; the producer then may take either branch of its \<open>select\<close>. The client is
  one behaviour per call.
\<close>

datatype load_event =
    HandJob nat | ContextDone | CloseJobs | Call nat nat int | Deliver nat | ExitWorker nat | CloseResults

fun load_step :: "load_config \<Rightarrow> (nat \<Rightarrow> client) \<Rightarrow> load_event \<Rightarrow> load_state \<Rightarrow> load_state option" where
  "load_step cfg clients (HandJob w) s =
     (if \<not> lt_jobs_closed s \<and> lt_next s < lc_requests cfg \<and> w < length (lt_workers s) \<and> lt_workers s ! w = AwaitsJob
      then Some (s\<lparr>lt_next := lt_next s + 1, lt_workers := (lt_workers s)[w := Calls]\<rparr>) else None)"
| "load_step cfg clients ContextDone s = (if lt_ctx_done s then None else Some (s\<lparr>lt_ctx_done := True\<rparr>))"
| "load_step cfg clients CloseJobs s =
     (if \<not> lt_jobs_closed s \<and> (lc_requests cfg \<le> lt_next s \<or> lt_ctx_done s)
      then Some (s\<lparr>lt_jobs_closed := True\<rparr>) else None)"
| "load_step cfg clients (Call w k elapsed) s =
     (if w < length (lt_workers s) \<and> lt_workers s ! w = Calls
      then Some (s\<lparr>lt_workers := (lt_workers s)[w := Delivers (execute_request cfg (clients k) elapsed)]\<rparr>) else None)"
| "load_step cfg clients (Deliver w) s =
     (if w < length (lt_workers s)
      then (case lt_workers s ! w of
          Delivers r \<Rightarrow> Some (s\<lparr>lt_workers := (lt_workers s)[w := AwaitsJob], lt_collected := collect r (lt_collected s)\<rparr>)
        | _ \<Rightarrow> None)
      else None)"
| "load_step cfg clients (ExitWorker w) s =
     (if lt_jobs_closed s \<and> w < length (lt_workers s) \<and> lt_workers s ! w = AwaitsJob
      then Some (s\<lparr>lt_workers := (lt_workers s)[w := WorkerExited]\<rparr>) else None)"
| "load_step cfg clients CloseResults s =
     (if \<not> lt_results_closed s \<and> (\<forall>x\<in>set (lt_workers s). x = WorkerExited)
      then Some (s\<lparr>lt_results_closed := True\<rparr>) else None)"

fun load_steps :: "load_config \<Rightarrow> (nat \<Rightarrow> client) \<Rightarrow> load_event list \<Rightarrow> load_state \<Rightarrow> load_state option" where
  "load_steps cfg clients [] s = Some s"
| "load_steps cfg clients (e # es) s =
     (case load_step cfg clients e s of None \<Rightarrow> None | Some s' \<Rightarrow> load_steps cfg clients es s')"

text \<open>
  \<open>Run\<close> under one schedule: an invalid configuration is refused; otherwise the report, with
  whether the error of the context is returned, or \<open>None\<close> while the run has not ended.
\<close>

definition load_run ::
  "load_config \<Rightarrow> (nat \<Rightarrow> client) \<Rightarrow> load_event list \<Rightarrow> int \<Rightarrow> (unit + load_result \<times> bool) option" where
  "load_run cfg clients es elapsed =
     (if \<not> valid_load_config cfg then Some (Inl ())
      else (case load_steps cfg clients es (start_load cfg) of
          None \<Rightarrow> None
        | Some s \<Rightarrow>
            if lt_results_closed s then Some (Inr (finish_result elapsed (lt_collected s), lt_ctx_done s)) else None))"

text \<open>Go iterates over a map in any order; \<open>codes\<close> is the order it happened to take.\<close>

definition sorted_status_codes :: "int list \<Rightarrow> int list" where
  "sorted_status_codes codes = sort codes"

section \<open>What a report says\<close>

definition succeeded :: "request_result \<Rightarrow> bool" where
  "succeeded r \<longleftrightarrow> rr_err r = None"

definition status_histogram :: "request_result multiset \<Rightarrow> int \<rightharpoonup> int" where
  "status_histogram M code =
     (let n = size (filter_mset (\<lambda>r. succeeded r \<and> rr_status r = code) M) in if n = 0 then None else Some (int n))"

text \<open>
  A report and a sum of latencies are about a multiset of results. The least latency is
  promised only when every latency is positive: the code takes 0 for "none yet".
\<close>

definition reports :: "load_config \<Rightarrow> request_result multiset \<Rightarrow> load_result \<Rightarrow> bool" where
  "reports cfg M res \<longleftrightarrow>
     lr_requests res = lc_requests cfg \<and>
     lr_completed res = int (size (filter_mset succeeded M)) \<and>
     lr_failed res = int (size (filter_mset (\<lambda>r. \<not> succeeded r) M)) \<and>
     lr_bytes_read res = wrap_int64 (\<Sum>r\<in>#filter_mset succeeded M. rr_bytes r) \<and>
     lr_status_counts res = status_histogram M \<and>
     lr_max_latency res = Max (insert 0 (rr_latency ` set_mset M)) \<and>
     ((\<forall>r\<in>#M. 0 < rr_latency r) \<longrightarrow>
        lr_min_latency res = (if M = {#} then 0 else Min (rr_latency ` set_mset M)))"

lemma wrap_int64_wrap [simp]: "wrap_int64 (wrap_int64 a + b) = wrap_int64 (a + b)"
proof -
  have "(((a - min_int64) mod 18446744073709551616 + min_int64) + b - min_int64) mod 18446744073709551616 =
      ((a - min_int64) mod 18446744073709551616 + b) mod 18446744073709551616" by simp
  also have "\<dots> = (a - min_int64 + b) mod 18446744073709551616" by (rule mod_add_left_eq)
  also have "a - min_int64 + b = a + b - min_int64" by simp
  finally show ?thesis by (simp only: wrap_int64_def)
qed

lemma wrap_int64_wrap2 [simp]: "wrap_int64 (b + wrap_int64 a) = wrap_int64 (b + a)"
  using wrap_int64_wrap[of a b] by (simp add: add.commute)

lemma status_histogram_add:
  "status_histogram (add_mset r M) =
     (if succeeded r then count_up (status_histogram M) (rr_status r) else status_histogram M)"
  by (rule ext) (auto simp: status_histogram_def count_up_def Let_def)

lemma collect_fields:
  assumes "collect r (res, t) = (res', t')"
  shows "lr_requests res' = lr_requests res"
    and "lr_completed res' = (if succeeded r then lr_completed res + 1 else lr_completed res)"
    and "lr_failed res' = (if succeeded r then lr_failed res else lr_failed res + 1)"
    and "lr_bytes_read res' = (if succeeded r then wrap_int64 (lr_bytes_read res + rr_bytes r) else lr_bytes_read res)"
    and "lr_status_counts res' =
      (if succeeded r then count_up (lr_status_counts res) (rr_status r) else lr_status_counts res)"
    and "lr_max_latency res' = max (lr_max_latency res) (rr_latency r)"
    and "lr_min_latency res' = (if lr_min_latency res = 0 then rr_latency r else min (lr_min_latency res) (rr_latency r))"
    and "t' = wrap_int64 (t + rr_latency r)"
  using assms by (auto simp: collect_def succeeded_def Let_def)

lemma collect_reports:
  assumes "reports cfg M res" "t = wrap_int64 (\<Sum>r\<in>#M. rr_latency r)" "collect r (res, t) = (res', t')"
  shows "reports cfg (add_mset r M) res' \<and> t' = wrap_int64 (\<Sum>r\<in>#add_mset r M. rr_latency r)"
proof
  note f = collect_fields[OF assms(3)]
  show "t' = wrap_int64 (\<Sum>r\<in>#add_mset r M. rr_latency r)" by (simp add: f(8) assms(2) add.commute)
  have old: "lr_max_latency res = Max (insert 0 (rr_latency ` set_mset M))"
    "(\<forall>r\<in>#M. 0 < rr_latency r) \<Longrightarrow> lr_min_latency res = (if M = {#} then 0 else Min (rr_latency ` set_mset M))"
    using assms(1) by (simp_all add: reports_def)
  have "Max (insert 0 (rr_latency ` set_mset (add_mset r M))) = max (rr_latency r) (Max (insert 0 (rr_latency ` set_mset M)))"
    by (simp add: insert_commute[of 0] del: Max_insert) (rule Max_insert; simp)
  then have mx: "lr_max_latency res' = Max (insert 0 (rr_latency ` set_mset (add_mset r M)))"
    by (simp add: f(6) old(1) max.commute)
  have mn: "lr_min_latency res' = Min (rr_latency ` set_mset (add_mset r M))" if "\<forall>r\<in>#add_mset r M. 0 < rr_latency r"
  proof (cases "M = {#}")
    case False
    then have ne: "rr_latency ` set_mset M \<noteq> {}" by simp
    have "Min (rr_latency ` set_mset M) \<in> rr_latency ` set_mset M" using ne by (intro Min_in) auto
    then have "Min (rr_latency ` set_mset M) \<noteq> 0" using that by auto
    with ne False that show ?thesis by (simp add: f(7) old(2) min.commute)
  qed (use old(2) in \<open>simp add: f(7)\<close>)
  show "reports cfg (add_mset r M) res'"
    unfolding reports_def
    using assms(1) mx mn by (simp add: reports_def f(1-5) status_histogram_add add.commute)
qed

section \<open>Invariant of a run\<close>

fun pending :: "worker \<Rightarrow> request_result multiset" where
  "pending (Delivers r) = {#r#}"
| "pending _ = {#}"

fun calling :: "worker \<Rightarrow> nat" where
  "calling Calls = 1"
| "calling _ = 0"

text \<open>The results of the calls made under a schedule, in the order of the calls.\<close>

fun load_calls :: "load_config \<Rightarrow> (nat \<Rightarrow> client) \<Rightarrow> load_event list \<Rightarrow> request_result list" where
  "load_calls cfg clients [] = []"
| "load_calls cfg clients (Call w k elapsed # es) = execute_request cfg (clients k) elapsed # load_calls cfg clients es"
| "load_calls cfg clients (_ # es) = load_calls cfg clients es"

lemma sum_list_update:
  fixes f :: "'a \<Rightarrow> 'b::cancel_comm_monoid_add"
  shows "w < length xs \<Longrightarrow> sum_list (map f (xs[w := x])) + f (xs ! w) = sum_list (map f xs) + f x"
proof (induction xs arbitrary: w)
  case (Cons y ys)
  show ?case
  proof (cases w)
    case (Suc n)
    with Cons show ?thesis by (simp add: add.assoc)
  qed (simp add: ac_simps)
qed simp

definition load_inv :: "load_config \<Rightarrow> request_result multiset \<Rightarrow> load_state \<Rightarrow> bool" where
  "load_inv cfg done_calls s \<longleftrightarrow>
     (\<exists>M. reports cfg M (fst (lt_collected s)) \<and> snd (lt_collected s) = wrap_int64 (\<Sum>r\<in>#M. rr_latency r) \<and>
        done_calls = M + sum_list (map pending (lt_workers s))) \<and>
     lt_next s = int (size done_calls + sum_list (map calling (lt_workers s))) \<and>
     lt_next s \<le> lc_requests cfg \<and>
     (lt_jobs_closed s \<longrightarrow> lt_ctx_done s \<or> lt_next s = lc_requests cfg) \<and>
     (WorkerExited \<in> set (lt_workers s) \<longrightarrow> lt_jobs_closed s) \<and>
     length (lt_workers s) = nat (lc_concurrency cfg) \<and>
     (lt_results_closed s \<longrightarrow> (\<forall>x\<in>set (lt_workers s). x = WorkerExited))"

lemma load_inv_start:
  assumes "valid_load_config cfg"
  shows "load_inv cfg {#} (start_load cfg)"
proof -
  have "reports cfg {#} (first_result cfg)"
    by (auto simp: reports_def first_result_def status_histogram_def wrap_int64_def Let_def)
  moreover have "sum_list (map pending (replicate n AwaitsJob)) = {#}" "sum_list (map calling (replicate n AwaitsJob)) = 0" for n
    by (induction n) simp_all
  ultimately show ?thesis
    using assms by (auto simp: load_inv_def start_load_def valid_load_config_def wrap_int64_def intro!: exI[of _ "{#}"])
qed

text \<open>How the sums over the workers move when one worker does.\<close>

lemma worker_moves:
  assumes "w < length ws" "ws ! w = old"
  shows "sum_list (map pending (ws[w := new])) + pending old = sum_list (map pending ws) + pending new"
    and "sum_list (map calling (ws[w := new])) + calling old = sum_list (map calling ws) + calling new"
    and "WorkerExited \<in> set (ws[w := new]) \<Longrightarrow> new = WorkerExited \<or> WorkerExited \<in> set ws"
    and "old \<in> set ws \<and> length (ws[w := new]) = length ws"
  using sum_list_update[OF assms(1), of pending new] sum_list_update[OF assms(1), of calling new] assms(2)
    set_update_subset_insert[of ws w new] nth_mem[OF assms(1)] by auto

definition calls_of :: "load_config \<Rightarrow> (nat \<Rightarrow> client) \<Rightarrow> load_event \<Rightarrow> request_result multiset" where
  "calls_of cfg clients e = mset (load_calls cfg clients [e])"

lemma load_inv_step:
  assumes inv: "load_inv cfg D s" and step: "load_step cfg clients e s = Some s'"
  shows "load_inv cfg (D + calls_of cfg clients e) s'"
proof -
  obtain M where M: "reports cfg M (fst (lt_collected s))" "snd (lt_collected s) = wrap_int64 (\<Sum>r\<in>#M. rr_latency r)"
      "D = M + sum_list (map pending (lt_workers s))"
    using inv by (auto simp: load_inv_def)
  have I: "lt_next s = int (size D + sum_list (map calling (lt_workers s)))" "lt_next s \<le> lc_requests cfg"
      "lt_jobs_closed s \<Longrightarrow> lt_ctx_done s \<or> lt_next s = lc_requests cfg"
      "WorkerExited \<in> set (lt_workers s) \<Longrightarrow> lt_jobs_closed s" "length (lt_workers s) = nat (lc_concurrency cfg)"
      "lt_results_closed s \<Longrightarrow> \<forall>x\<in>set (lt_workers s). x = WorkerExited"
    using inv[unfolded load_inv_def] by blast+
  show ?thesis
  proof (cases e)
    case (HandJob w)
    then have "w < length (lt_workers s)" "lt_workers s ! w = AwaitsJob" using step by (auto split: if_splits)
    note mv = worker_moves[OF this, of Calls]
    from mv show ?thesis
      using step HandJob I M by (auto simp: load_inv_def calls_of_def split: if_splits)
  next
    case (Call w k elapsed)
    then have "w < length (lt_workers s)" "lt_workers s ! w = Calls" using step by (auto split: if_splits)
    note mv = worker_moves[OF this, of "Delivers (execute_request cfg (clients k) elapsed)"]
    from mv show ?thesis
      using step Call I M by (auto simp: load_inv_def calls_of_def split: if_splits)
  next
    case (Deliver w)
    then obtain r where r: "w < length (lt_workers s)" "lt_workers s ! w = Delivers r"
      using step by (auto split: if_splits worker.splits)
    note mv = worker_moves[OF r, of AwaitsJob]
    obtain res t res' t' where c: "lt_collected s = (res, t)" "collect r (res, t) = (res', t')" by (metis prod.collapse)
    from mv collect_reports[OF _ _ c(2)] show ?thesis
      using step Deliver I M c r by (auto simp: load_inv_def calls_of_def intro!: exI[of _ "add_mset r M"] split: if_splits)
  next
    case (ExitWorker w)
    then have "w < length (lt_workers s)" "lt_workers s ! w = AwaitsJob" using step by (auto split: if_splits)
    note mv = worker_moves[OF this, of WorkerExited]
    from mv show ?thesis
      using step ExitWorker I M by (auto simp: load_inv_def calls_of_def split: if_splits)
  qed (use step I M in \<open>auto simp: load_inv_def calls_of_def split: if_splits\<close>)
qed

lemma load_inv_steps:
  "load_inv cfg D s \<Longrightarrow> load_steps cfg clients es s = Some s' \<Longrightarrow>
     load_inv cfg (D + mset (load_calls cfg clients es)) s'"
proof (induction es arbitrary: D s)
  case (Cons e es)
  then obtain s1 where s1: "load_step cfg clients e s = Some s1" "load_steps cfg clients es s1 = Some s'"
    by (auto split: option.splits)
  have "mset (load_calls cfg clients (e # es)) = calls_of cfg clients e + mset (load_calls cfg clients es)"
    by (cases e) (simp_all add: calls_of_def)
  with Cons.IH[OF load_inv_step[OF Cons.prems(1) s1(1)] s1(2)] show ?case by (simp add: add.assoc)
qed simp

section \<open>Properties\<close>

text \<open>Every goroutine's next steps: work left, which every step reduces.\<close>

fun worker_work :: "worker \<Rightarrow> nat" where
  "worker_work AwaitsJob = 1"
| "worker_work Calls = 3"
| "worker_work (Delivers r) = 2"
| "worker_work WorkerExited = 0"

definition load_work :: "load_config \<Rightarrow> load_state \<Rightarrow> nat" where
  "load_work cfg s = 3 * nat (lc_requests cfg - lt_next s) + sum_list (map worker_work (lt_workers s)) +
     (if lt_jobs_closed s then 0 else 1) + (if lt_ctx_done s then 0 else 1) + (if lt_results_closed s then 0 else 1)"

lemma worker_work_moves:
  "w < length ws \<Longrightarrow> ws ! w = old \<Longrightarrow>
     sum_list (map worker_work (ws[w := new])) + worker_work old = sum_list (map worker_work ws) + worker_work new"
  using sum_list_update[of w ws worker_work new] by simp

lemma load_step_works: "load_step cfg clients e s = Some s' \<Longrightarrow> load_work cfg s' < load_work cfg s"
proof (cases e)
  case (HandJob w)
  assume "load_step cfg clients e s = Some s'"
  with HandJob worker_work_moves[of w "lt_workers s" AwaitsJob Calls] show ?thesis
    by (auto simp: load_work_def nat_diff_distrib split: if_splits)
next
  case (Call w k elapsed)
  assume "load_step cfg clients e s = Some s'"
  with Call worker_work_moves[of w "lt_workers s" Calls "Delivers (execute_request cfg (clients k) elapsed)"]
  show ?thesis by (auto simp: load_work_def split: if_splits)
next
  case (Deliver w)
  assume "load_step cfg clients e s = Some s'"
  with Deliver worker_work_moves[of w "lt_workers s" "lt_workers s ! w" AwaitsJob] show ?thesis
    by (auto simp: load_work_def split: if_splits worker.splits)
next
  case (ExitWorker w)
  assume "load_step cfg clients e s = Some s'"
  with ExitWorker worker_work_moves[of w "lt_workers s" AwaitsJob WorkerExited] show ?thesis
    by (auto simp: load_work_def split: if_splits)
qed (auto simp: load_work_def split: if_splits)

lemma load_steps_bounded:
  "load_steps cfg clients es s = Some s' \<Longrightarrow> length es + load_work cfg s' \<le> load_work cfg s"
proof (induction es arbitrary: s)
  case (Cons e es)
  then obtain s1 where "load_step cfg clients e s = Some s1" "load_steps cfg clients es s1 = Some s'"
    by (auto split: option.splits)
  with Cons.IH load_step_works[of cfg clients e s s1] show ?case by fastforce
qed simp

lemma load_progress:
  assumes "load_inv cfg D s" "valid_load_config cfg" "\<not> lt_results_closed s"
  shows "\<exists>e s'. e \<noteq> ContextDone \<and> load_step cfg clients e s = Some s'"
proof (cases "\<exists>w < length (lt_workers s). lt_workers s ! w = Calls \<or> (\<exists>r. lt_workers s ! w = Delivers r)")
  case True
  then obtain w where w: "w < length (lt_workers s)" "lt_workers s ! w = Calls \<or> (\<exists>r. lt_workers s ! w = Delivers r)"
    by blast
  then have "\<exists>s'. load_step cfg clients (Call w 0 0) s = Some s' \<or> load_step cfg clients (Deliver w) s = Some s'"
    by auto
  then show ?thesis by blast
next
  case False
  have I: "WorkerExited \<in> set (lt_workers s) \<Longrightarrow> lt_jobs_closed s" "length (lt_workers s) = nat (lc_concurrency cfg)"
    using assms(1)[unfolded load_inv_def] by blast+
  have idle: "lt_workers s ! w \<in> {AwaitsJob, WorkerExited}" if "w < length (lt_workers s)" for w
    using False that by (cases "lt_workers s ! w") auto
  show ?thesis
  proof (cases "\<exists>w < length (lt_workers s). lt_workers s ! w = AwaitsJob")
    case True
    then obtain w where w: "w < length (lt_workers s)" "lt_workers s ! w = AwaitsJob" by blast
    then have "\<exists>s'. load_step cfg clients (HandJob w) s = Some s' \<or> load_step cfg clients (ExitWorker w) s = Some s' \<or>
        load_step cfg clients CloseJobs s = Some s'" by auto
    then show ?thesis by blast
  next
    case no: False
    then have "\<forall>x\<in>set (lt_workers s). x = WorkerExited" using idle by (metis empty_iff in_set_conv_nth insert_iff)
    with assms(3) have "\<exists>s'. load_step cfg clients CloseResults s = Some s'" by simp
    then show ?thesis by blast
  qed
qed

lemma load_inv_run:
  "valid_load_config cfg \<Longrightarrow> load_steps cfg clients es (start_load cfg) = Some s \<Longrightarrow>
     load_inv cfg (mset (load_calls cfg clients es)) s"
  using load_inv_steps[OF load_inv_start] by fastforce

lemma exited_owe_nothing:
  "\<forall>x\<in>set ws. x = WorkerExited \<Longrightarrow> sum_list (map pending ws) = {#} \<and> sum_list (map calling ws) = 0"
  by (induction ws) auto

lemma load_run_Inr:
  assumes "load_run cfg clients es elapsed = Some (Inr (res, cancelled))"
  obtains s where "valid_load_config cfg" "load_steps cfg clients es (start_load cfg) = Some s" "lt_results_closed s"
    "res = finish_result elapsed (lt_collected s)" "cancelled = lt_ctx_done s"
  using assms that by (auto simp: load_run_def split: if_splits option.splits)

lemma finish_reports: "reports cfg M (fst x) \<Longrightarrow> reports cfg M (finish_result elapsed x)"
  by (cases x) (auto simp: reports_def finish_result_def Let_def)

text \<open>When the results are closed, exactly the results of the calls that were made have been collected.\<close>

lemma closed_run:
  assumes "valid_load_config cfg" "load_steps cfg clients es (start_load cfg) = Some s" "lt_results_closed s"
  shows "reports cfg (mset (load_calls cfg clients es)) (fst (lt_collected s))"
    "snd (lt_collected s) = wrap_int64 (\<Sum>r\<in>#mset (load_calls cfg clients es). rr_latency r)"
    "\<not> lt_ctx_done s \<Longrightarrow> int (length (load_calls cfg clients es)) = lc_requests cfg"
proof -
  note inv = load_inv_run[OF assms(1, 2), unfolded load_inv_def]
  have exited: "\<forall>x\<in>set (lt_workers s). x = WorkerExited" using inv assms(3) by blast
  then have none: "sum_list (map pending (lt_workers s)) = {#}" "sum_list (map calling (lt_workers s)) = 0"
    using exited_owe_nothing by blast+
  obtain M where M: "reports cfg M (fst (lt_collected s))" "mset (load_calls cfg clients es) = M"
      "snd (lt_collected s) = wrap_int64 (\<Sum>r\<in>#M. rr_latency r)"
    using inv none(1) by auto
  then show "reports cfg (mset (load_calls cfg clients es)) (fst (lt_collected s))"
    "snd (lt_collected s) = wrap_int64 (\<Sum>r\<in>#mset (load_calls cfg clients es). rr_latency r)" by simp_all
  have "0 < length (lt_workers s)" using inv assms(1) by (simp add: valid_load_config_def)
  then have "lt_jobs_closed s" using inv exited by (metis length_greater_0_conv list.set_sel(1))
  then show "int (length (load_calls cfg clients es)) = lc_requests cfg" if "\<not> lt_ctx_done s"
    using inv none(2) that by simp
qed

lemma attempts_counted:
  assumes "reports cfg (mset rs) res"
  shows "lr_completed res + lr_failed res = int (length rs)"
proof -
  have "size (filter_mset succeeded (mset rs)) + size (filter_mset (\<lambda>r. \<not> succeeded r) (mset rs)) = size (mset rs)"
    by (metis multiset_partition size_union)
  with assms show ?thesis by (simp add: reports_def)
qed

text \<open>
  The report does not depend on the schedule: it is about exactly the calls that were made,
  however producer, workers and collector were interleaved. Completed and failed calls are
  counted once each, and unless the context was cancelled there was one call per request.
\<close>

lemma load_run_report:
  assumes "load_run cfg clients es elapsed = Some (Inr (res, cancelled))"
  shows "reports cfg (mset (load_calls cfg clients es)) res"
    "lr_completed res + lr_failed res = int (length (load_calls cfg clients es))"
    "\<not> cancelled \<Longrightarrow> int (length (load_calls cfg clients es)) = lc_requests cfg"
    "lr_duration res = elapsed"
    "load_calls cfg clients es \<noteq> [] \<Longrightarrow> lr_avg_latency res =
      int_quot (wrap_int64 (\<Sum>r\<in>#mset (load_calls cfg clients es). rr_latency r)) (int (length (load_calls cfg clients es)))"
proof -
  obtain s where s: "valid_load_config cfg" "load_steps cfg clients es (start_load cfg) = Some s" "lt_results_closed s"
    "res = finish_result elapsed (lt_collected s)" "cancelled = lt_ctx_done s"
    using load_run_Inr[OF assms] .
  note closed = closed_run[OF s(1-3)]
  show rep: "reports cfg (mset (load_calls cfg clients es)) res" unfolding s(4) by (rule finish_reports[OF closed(1)])
  show "lr_completed res + lr_failed res = int (length (load_calls cfg clients es))" by (rule attempts_counted[OF rep])
  show "int (length (load_calls cfg clients es)) = lc_requests cfg" if "\<not> cancelled" using that closed(3) s(5) by simp
  show "lr_duration res = elapsed" by (simp add: s(4) finish_result_def Let_def split: prod.split)
  show "lr_avg_latency res =
      int_quot (wrap_int64 (\<Sum>r\<in>#mset (load_calls cfg clients es). rr_latency r)) (int (length (load_calls cfg clients es)))"
    if "load_calls cfg clients es \<noteq> []"
    using that closed(2) attempts_counted[OF closed(1)]
    by (auto simp: s(4) finish_result_def Let_def split: prod.split)
qed

text \<open>Two workers, three requests, one of which fails: a schedule and its report.\<close>

definition small_load :: load_config where
  "small_load = \<lparr>lc_url = ''http://h/'', lc_method = [], lc_headers = [(''Accept'', [''a'', ''b''])], lc_body = [],
     lc_requests = 3, lc_concurrency = 2, lc_timeout = 10000000000, lc_disable_keep_alives = False\<rparr>"

fun small_client :: "nat \<Rightarrow> client" where
  "small_client 0 t k m u hs b = CallFailed ''refused''"
| "small_client (Suc n) t k m u hs b = Answered 200 17 None"

definition small_schedule :: "load_event list" where
  "small_schedule = [HandJob 0, HandJob 1, Call 1 1 4, Call 0 0 9, Deliver 0, HandJob 0, CloseJobs, Call 0 2 6,
     Deliver 1, ExitWorker 1, Deliver 0, ExitWorker 0, CloseResults]"

lemma small_run:
  "load_run small_load small_client small_schedule 20 =
     Some (Inr (\<lparr>lr_requests = 3, lr_completed = 2, lr_failed = 1, lr_bytes_read = 34,
       lr_status_counts = [200 \<mapsto> 2], lr_duration = 20, lr_min_latency = 4, lr_max_latency = 9, lr_avg_latency = 6\<rparr>, False))"
  by (simp add: load_run_def small_schedule_def small_load_def small_client.simps numeral_2_eq_2 start_load_def
      valid_load_config_def execute_request_def collect_def first_result_def finish_result_def count_up_def
      wrap_int64_def int_quot_def Let_def)

text \<open>
  C40. A run cannot go on for ever nor get stuck: every schedule is bounded, and as long as the
  results are not closed some goroutine can move without the context being cancelled.
\<close>

theorem load_run_ends:
  assumes "valid_load_config cfg" "load_steps cfg clients es (start_load cfg) = Some s"
  shows "length es \<le> 3 * nat (lc_requests cfg) + nat (lc_concurrency cfg) + 3 \<and>
    (lt_results_closed s \<or> (\<exists>e s'. e \<noteq> ContextDone \<and> load_step cfg clients e s = Some s'))"
proof -
  have "sum_list (map worker_work (replicate n AwaitsJob)) = n" for n by (induction n) simp_all
  then have "load_work cfg (start_load cfg) = 3 * nat (lc_requests cfg) + nat (lc_concurrency cfg) + 3"
    by (simp add: load_work_def start_load_def)
  with load_steps_bounded[OF assms(2)] show ?thesis
    using load_progress[OF load_inv_run[OF assms] assms(1)] by fastforce
qed

theorem load_run_ends_witness:
  "length small_schedule \<le> 3 * nat (lc_requests small_load) + nat (lc_concurrency small_load) + 3 \<and>
   (\<exists>e s'. e \<noteq> ContextDone \<and> load_step small_load small_client e (start_load small_load) = Some s')"
proof -
  have v: "valid_load_config small_load" by (simp add: valid_load_config_def small_load_def)
  obtain s where "load_steps small_load small_client small_schedule (start_load small_load) = Some s"
    using small_run v by (auto simp: load_run_def split: option.splits)
  then have "length small_schedule \<le> 3 * nat (lc_requests small_load) + nat (lc_concurrency small_load) + 3"
    using load_run_ends[OF v] by blast
  moreover have "load_steps small_load small_client [] (start_load small_load) = Some (start_load small_load)" by simp
  moreover have "\<not> lt_results_closed (start_load small_load)" by (simp add: start_load_def)
  ultimately show ?thesis using load_run_ends[OF v] by blast
qed

text \<open>The least latency is lost when a call takes no measurable time.\<close>

lemma min_latency_zero_is_unset:
  "lr_min_latency (fst (fold (\<lambda>l. collect \<lparr>rr_status = 200, rr_bytes = 0, rr_latency = l, rr_err = None\<rparr>)
     [5, 0, 7] (first_result small_load, 0))) = 7"
  by (simp add: collect_def first_result_def Let_def)

text \<open>The order in which the map is enumerated does not matter.\<close>

lemma sorted_status_codes_any_order:
  assumes "distinct codes" "set codes = dom counts"
  shows "sorted_status_codes codes = sorted_list_of_set (dom counts)"
  using assms sorted_list_of_set_sort_remdups[of codes] by (simp add: sorted_status_codes_def distinct_remdups_id)

end
