(* ===== verification/Load_Command.thy ===== *)
theory Load_Command
  imports Load_Test Go_Flag_Facts
begin

text \<open>
  The load test command (cmd/wbsvload/main.go): its flags, what it runs, what it prints and the
  status with which it ends. The order in which Go enumerates a map is a parameter.
\<close>

section \<open>The header flags of the command\<close>

text \<open>\<open>http.Header\<close> keys are canonical: upper case at the start and after hyphens, unless the name is no token.\<close>

definition is_token_byte :: "char \<Rightarrow> bool" where
  "is_token_byte c \<longleftrightarrow> (let n = of_char c :: nat in 48 \<le> n \<and> n \<le> 57 \<or> 65 \<le> n \<and> n \<le> 90 \<or> 97 \<le> n \<and> n \<le> 122) \<or>
     c \<in> set ''!#$%&*+-.^_|~'' \<or> c = CHR 0x27 \<or> c = CHR 0x60"

fun canonical_from :: "bool \<Rightarrow> bytes \<Rightarrow> bytes" where
  "canonical_from upper [] = []"
| "canonical_from upper (c # s) =
     (let d = if upper then ascii_upper c else ascii_lower c in d # canonical_from (d = CHR ''-'') s)"

definition canonical_header_key :: "bytes \<Rightarrow> bytes" where
  "canonical_header_key s = (if list_all is_token_byte s then canonical_from True s else s)"

fun header_add :: "bytes \<Rightarrow> bytes \<Rightarrow> (bytes \<times> bytes list) list \<Rightarrow> (bytes \<times> bytes list) list" where
  "header_add k v [] = [(k, [v])]"
| "header_add k v ((k', vs) # hs) = (if k' = k then (k', vs @ [v]) # hs else (k', vs) # header_add k v hs)"

definition header_flags_set :: "bytes list \<Rightarrow> bytes \<Rightarrow> unit + bytes list" where
  "header_flags_set h val =
     (case cut val CHR '':'' of (_, _, ok) \<Rightarrow> if \<not> ok then Inl () else Inr (h @ [val]))"

fun header_flags_loop :: "bytes list \<Rightarrow> (bytes \<times> bytes list) list \<Rightarrow> (bytes \<times> bytes list) list" where
  "header_flags_loop [] headers = headers"
| "header_flags_loop (raw # h) headers =
     (case cut raw CHR '':'' of (name, val, _) \<Rightarrow>
        header_flags_loop h (header_add (canonical_header_key (trim_space name)) (trim_space val) headers))"

definition header_flags_header :: "bytes list \<Rightarrow> (bytes \<times> bytes list) list" where
  "header_flags_header h = header_flags_loop h []"

lemma header_add_get:
  "map_of (header_add k v hs) k' = (if k' = k then Some ((case map_of hs k of None \<Rightarrow> [] | Some vs \<Rightarrow> vs) @ [v])
     else map_of hs k')"
  by (induction k v hs rule: header_add.induct) (auto split: option.splits)

text \<open>Every flag contributes its value, in the order given, to the header of its canonical name.\<close>

definition flag_values :: "bytes list \<Rightarrow> bytes \<Rightarrow> bytes list" where
  "flag_values h k = map (\<lambda>raw. trim_space (fst (snd (cut raw CHR '':''))))
     (filter (\<lambda>raw. canonical_header_key (trim_space (fst (cut raw CHR '':''))) = k) h)"

lemma header_flags_loop_get:
  "map_of (header_flags_loop h hs) k =
     (let old = map_of hs k; new = flag_values h k
      in if old = None \<and> new = [] then None else Some ((case old of None \<Rightarrow> [] | Some vs \<Rightarrow> vs) @ new))"
  by (induction h hs rule: header_flags_loop.induct)
     (auto simp: flag_values_def header_add_get Let_def split: prod.splits option.splits)

theorem header_flags_values:
  "map_of (header_flags_header h) k = (if flag_values h k = [] then None else Some (flag_values h k))"
  by (simp add: header_flags_header_def header_flags_loop_get)

section \<open>The flags\<close>

definition header_flags_string :: "bytes list \<Rightarrow> bytes" where
  "header_flags_string h = join '', '' h"

record load_flags =
  lf_url :: bytes
  lf_method :: bytes
  lf_requests :: int
  lf_concurrency :: int
  lf_timeout :: int
  lf_body :: bytes
  lf_disable_keep_alives :: bool
  lf_headers :: "bytes list"

definition wbsvload_defaults :: load_flags where
  "wbsvload_defaults = \<lparr>
     lf_url = ''http://127.0.0.1:8080/hello'',
     lf_method = ''GET'',
     lf_requests = 100,
     lf_concurrency = 10,
     lf_timeout = 10 * 1000000000,
     lf_body = [],
     lf_disable_keep_alives = False,
     lf_headers = []\<rparr>"

definition wbsvload_flags :: "load_flags flag_def list" where
  "wbsvload_flags = [
     string_flag ''url'' lf_url_update,
     string_flag ''method'' lf_method_update,
     int_flag ''requests'' lf_requests_update,
     int_flag ''concurrency'' lf_concurrency_update,
     duration_flag ''timeout'' lf_timeout_update,
     string_flag ''body'' lf_body_update,
     bool_flag ''disable-keep-alives'' lf_disable_keep_alives_update,
     \<lparr>flag_name = ''header'', flag_is_bool = False,
       flag_set = (\<lambda>v f. case header_flags_set (lf_headers f) v of Inl _ \<Rightarrow> None | Inr h \<Rightarrow> Some (f\<lparr>lf_headers := h\<rparr>))\<rparr>]"

definition wbsvload_config :: "load_flags \<Rightarrow> load_config" where
  "wbsvload_config f = \<lparr>lc_url = lf_url f, lc_method = lf_method f, lc_headers = header_flags_header (lf_headers f),
     lc_body = lf_body f, lc_requests = lf_requests f, lc_concurrency = lf_concurrency f, lc_timeout = lf_timeout f,
     lc_disable_keep_alives = lf_disable_keep_alives f\<rparr>"

section \<open>The report\<close>

definition status_line_text :: "(int \<rightharpoonup> int) \<Rightarrow> int \<Rightarrow> bytes" where
  "status_line_text counts code =
     ''  '' @ format_int code @ '': '' @ format_int (case counts code of None \<Rightarrow> 0 | Some n \<Rightarrow> n) @ [lf]"

definition print_result :: "((int \<rightharpoonup> int) \<Rightarrow> int list) \<Rightarrow> load_result \<Rightarrow> bytes" where
  "print_result enum r =
     ''requests:    '' @ format_int (lr_requests r) @ [lf] @
     ''completed:   '' @ format_int (lr_completed r) @ [lf] @
     ''failed:      '' @ format_int (lr_failed r) @ [lf] @
     ''bytes read:  '' @ format_int (lr_bytes_read r) @ [lf] @
     ''duration:    '' @ duration_string (lr_duration r) @ [lf] @
     ''latency min: '' @ duration_string (lr_min_latency r) @ [lf] @
     ''latency avg: '' @ duration_string (lr_avg_latency r) @ [lf] @
     ''latency max: '' @ duration_string (lr_max_latency r) @ [lf] @
     ''status:'' @ [lf] @
     concat (map (status_line_text (lr_status_counts r)) (sorted_status_codes (enum (lr_status_counts r))))"

text \<open>
  \<open>main\<close> under one schedule: what is printed, and the exit status; \<open>None\<close> while the run has not
  ended. \<open>context.Background()\<close> is never done.
\<close>

definition zero_load_result :: load_result where
  "zero_load_result = \<lparr>lr_requests = 0, lr_completed = 0, lr_failed = 0, lr_bytes_read = 0, lr_status_counts = Map.empty,
     lr_duration = 0, lr_min_latency = 0, lr_max_latency = 0, lr_avg_latency = 0\<rparr>"

definition wbsvload ::
  "((int \<rightharpoonup> int) \<Rightarrow> int list) \<Rightarrow> bytes list \<Rightarrow> (nat \<Rightarrow> client) \<Rightarrow> load_event list \<Rightarrow> int \<Rightarrow> (bytes \<times> int) option" where
  "wbsvload enum args clients es elapsed =
     (case command_line wbsvload_flags wbsvload_defaults args of
        Inl status \<Rightarrow> Some ([], status)
      | Inr f \<Rightarrow>
          if ContextDone \<in> set es then None
          else (case load_run (wbsvload_config f) clients es elapsed of
                  None \<Rightarrow> None
                | Some (Inl _) \<Rightarrow> Some (print_result enum zero_load_result, 1)
                | Some (Inr (r, cancelled)) \<Rightarrow> Some (print_result enum r, if cancelled then 1 else 0)))"

section \<open>What is printed\<close>

text \<open>
  The report on a multiset of results with positive latencies: it does not mention the schedule
  and does not depend on it.
\<close>

definition latency_sum :: "request_result multiset \<Rightarrow> int" where
  "latency_sum M = (\<Sum>r\<in>#M. rr_latency r)"

definition status_counts_text :: "request_result multiset \<Rightarrow> bytes" where
  "status_counts_text M = concat (map
     (\<lambda>code. ''  '' @ format_int code @ '': '' @ format_int (int (size {#r \<in># M. rr_status r = code#})) @ [lf])
     (sorted_list_of_set (rr_status ` set_mset M)))"

definition report_text :: "request_result multiset \<Rightarrow> int \<Rightarrow> bytes" where
  "report_text M elapsed =
     (let ok = {#r \<in># M. succeeded r#} in
      ''requests:    '' @ format_int (int (size M)) @ [lf] @
      ''completed:   '' @ format_int (int (size ok)) @ [lf] @
      ''failed:      '' @ format_int (int (size M) - int (size ok)) @ [lf] @
      ''bytes read:  '' @ format_int (wrap_int64 (\<Sum>r\<in>#ok. rr_bytes r)) @ [lf] @
      ''duration:    '' @ duration_string elapsed @ [lf] @
      ''latency min: '' @ duration_string (Min (rr_latency ` set_mset M)) @ [lf] @
      ''latency avg: '' @ duration_string (int_quot (wrap_int64 (latency_sum M)) (int (size M))) @ [lf] @
      ''latency max: '' @ duration_string (Max (rr_latency ` set_mset M)) @ [lf] @
      ''status:'' @ [lf] @ status_counts_text ok)"

lemma status_histogram_dom: "dom (status_histogram M) = rr_status ` set_mset {#r \<in># M. succeeded r#}"
  by (auto simp: status_histogram_def Let_def dom_def)

lemma status_histogram_count:
  "(case status_histogram M code of None \<Rightarrow> 0 | Some n \<Rightarrow> n) = int (size {#r \<in># {#r \<in># M. succeeded r#}. rr_status r = code#})"
proof -
  have "{#r \<in># {#r \<in># M. succeeded r#}. rr_status r = code#} = {#r \<in># M. succeeded r \<and> rr_status r = code#}"
    by (simp add: filter_filter_mset conj_commute)
  then show ?thesis by (auto simp: status_histogram_def Let_def)
qed

lemma status_counts_printed:
  assumes "\<And>m :: int \<rightharpoonup> int. finite (dom m) \<Longrightarrow> distinct (enum m) \<and> set (enum m) = dom m"
  shows "concat (map (status_line_text (status_histogram M)) (sorted_status_codes (enum (status_histogram M)))) =
    status_counts_text {#r \<in># M. succeeded r#}"
proof -
  let ?ok = "{#r \<in># M. succeeded r#}"
  have "finite (dom (status_histogram M))" by (simp add: status_histogram_dom)
  then have codes: "sorted_status_codes (enum (status_histogram M)) = sorted_list_of_set (rr_status ` set_mset ?ok)"
    using sorted_status_codes_any_order assms by (metis status_histogram_dom)
  show ?thesis
    unfolding codes status_counts_text_def status_line_text_def status_histogram_count ..
qed

text \<open>A context that nobody cancels is never done.\<close>

lemma never_cancelled:
  "ContextDone \<notin> set es \<Longrightarrow> load_steps cfg clients es s = Some s' \<Longrightarrow> lt_ctx_done s' = lt_ctx_done s"
proof (induction es arbitrary: s)
  case (Cons e es)
  then obtain s1 where s1: "load_step cfg clients e s = Some s1" "load_steps cfg clients es s1 = Some s'"
    by (auto split: option.splits)
  have "lt_ctx_done s1 = lt_ctx_done s" using s1(1) Cons.prems(1) by (cases e) (auto split: if_splits worker.splits)
  with Cons s1(2) show ?case by simp
qed simp

lemma wbsvload_Inr:
  assumes "wbsvload enum args clients es elapsed = Some (out, status)" "valid_load_config (wbsvload_config f)"
    and "command_line wbsvload_flags wbsvload_defaults args = Inr f"
  obtains r where "load_run (wbsvload_config f) clients es elapsed = Some (Inr (r, False))"
    "out = print_result enum r" "status = 0"
proof -
  have es: "ContextDone \<notin> set es" using assms(1, 3) by (auto simp: wbsvload_def)
  with assms obtain r c where r: "load_run (wbsvload_config f) clients es elapsed = Some (Inr (r, c))" "out = print_result enum r"
      "status = (if c then 1 else 0)"
    by (auto simp: wbsvload_def load_run_def split: option.splits sum.splits prod.splits if_splits)
  from load_run_Inr[OF r(1)] obtain s where "load_steps (wbsvload_config f) clients es (start_load (wbsvload_config f)) = Some s"
      "c = lt_ctx_done s" by blast
  with never_cancelled[OF es] have "\<not> c" by (simp add: start_load_def)
  with r that show thesis by simp
qed


text \<open>The schedule of the two workers, started from a command line.\<close>

definition small_args :: "bytes list" where
  "small_args = [''-requests'', ''3'', ''-concurrency=2'', ''--header'', ''Accept: a'']"

definition small_flags :: load_flags where
  "small_flags = wbsvload_defaults\<lparr>lf_requests := 3, lf_concurrency := 2, lf_headers := [''Accept: a'']\<rparr>"

lemma small_command_line: "command_line wbsvload_flags wbsvload_defaults small_args = Inr small_flags"
proof -
  have "parse_int_base0 ''3'' = Some 3" "parse_int_base0 ''2'' = Some 2" by code_simp+
  moreover have "header_flags_set [] ''Accept: a'' = Inr [''Accept: a'']" by code_simp
  ultimately show ?thesis
    by (simp add: command_line_def small_args_def small_flags_def wbsvload_defaults_def parse_flags.simps parse_one_def
        split_flag_def cut_def find_flag_Cons wbsvload_flags_def int_flag_def)
qed

lemma small_flags_run:
  "load_run (wbsvload_config small_flags) small_client small_schedule 20 =
     Some (Inr (\<lparr>lr_requests = 3, lr_completed = 2, lr_failed = 1, lr_bytes_read = 34,
       lr_status_counts = [200 \<mapsto> 2], lr_duration = 20, lr_min_latency = 4, lr_max_latency = 9, lr_avg_latency = 6\<rparr>, False))"
  by (simp add: load_run_def small_schedule_def small_flags_def wbsvload_defaults_def wbsvload_config_def small_client.simps
      numeral_2_eq_2 start_load_def valid_load_config_def execute_request_def collect_def first_result_def finish_result_def
      count_up_def wrap_int64_def int_quot_def Let_def)

lemma small_flags_calls:
  "load_calls (wbsvload_config small_flags) small_client small_schedule =
     [\<lparr>rr_status = 200, rr_bytes = 17, rr_latency = 4, rr_err = None\<rparr>,
      \<lparr>rr_status = 0, rr_bytes = 0, rr_latency = 9, rr_err = Some ''refused''\<rparr>,
      \<lparr>rr_status = 200, rr_bytes = 17, rr_latency = 6, rr_err = None\<rparr>]"
  by (simp add: small_schedule_def execute_request_def numeral_2_eq_2)


end
