(* ===== verification/Spec2Isabelle.thy ===== *)
theory Spec2Isabelle
  imports Sse Cache Download WebSocket Server_Isolation Load_Command
begin

text \<open>
  A verification development for the HTTP/1.1 server of this repository.

  The program. \<open>cmd/wbsv\<close> starts a TCP server (\<open>internal/tcpserver\<close>) which accepts connections,
  tracks them and gives each to a connection handler (\<open>internal/httpserver/handler.go\<close>). The
  handler reads requests with \<open>internal/http1\<close>, runs the application behind a chain of
  middlewares, collects its response in a buffered writer and writes that with
  \<open>internal/http1\<close>, until the connection should close. \<open>cmd/wbsvload\<close> is a load test client
  (\<open>internal/loadtest\<close>).

  Theories, bottom up, with the code that they model.

  \<^item> \<open>Prelude\<close>, \<open>Go_Strings\<close>, \<open>Go_IO\<close>, \<open>Go_Time\<close>, \<open>Http_Date\<close>, \<open>Go_Flag\<close>, \<open>Go_Flag_Facts\<close>, \<open>Encoding\<close>: what
    the code uses of Go and its standard library: strings, strconv, bufio and io.Reader, instants,
    durations and HTTP dates, package flag, base64 and SHA-1. The facts are the round trips of
    what is printed and parsed: numbers, dates, durations (with the float64 arithmetic of
    \<open>ParseDuration\<close>) and command lines. Readers deliver a finite sequence of segments and then an error; \<open>Read\<close> returns any
    prefix of a segment.
  \<^item> \<open>Http_Types\<close>, \<open>Line_Reader\<close>, \<open>Header\<close>, \<open>Request\<close>: request reading (http1/header.go,
    line_reader.go, body.go, request_line.go, request.go). \<open>read_request\<close> takes the two readers it
    calls as arguments; the locale \<open>request_source\<close> states their laws, and is interpreted on the
    code's readers and on the flat byte sequence that specifies them. The theorems: the reader
    accepts exactly the declared language of requests (\<open>accepted\<close>), reads back what is written,
    does not depend on segmentation, always returns, and leaves no room for request smuggling.
  \<^item> \<open>Mime\<close>, \<open>Response\<close>: response writing (http1/mime.go, response.go) over any \<open>io.Writer\<close>
    (locale \<open>io_writer\<close>, interpreted on a connection that may fail at any byte and on a buffer):
    what is sent is a complete framed message, or a prefix of it with an error reported, and the
    header section reads back. \<open>decode_chunked\<close> is the specification of chunked bodies.
  \<^item> \<open>App_Types\<close>, \<open>Byte_Range\<close>, \<open>Sse\<close>, \<open>Cookie\<close>, \<open>Cache\<close>, \<open>Rate_Limit\<close>: the pure parts of package
    httpserver (app.go, range.go, sse.go, cookie.go, cache.go, rate_limit.go). Each encoder is
    proved against a decoder written from the standard (RFC 6265, RFC 9110, the event stream
    format, HTTP dates), the limiter against the bound it promises for every window.
  \<^item> \<open>World\<close>, \<open>Writer\<close>, \<open>Writer_Facts\<close>: the outside state (files, clock, loggers, counters), the
    buffered writer and the logging recorder (response_writer.go, logging.go). The locale
    \<open>response_writer\<close> is the contract of the interface; both the bare buffer and any stack of
    recorders implement it. Files that are opened are closed by the response or on the error.
  \<^item> \<open>Middleware\<close>, \<open>Middleware_Facts\<close>: chains, recovery, bearer authentication, request IDs, access
    log, CORS, compression and rate limiting (middleware.go, recovery.go, auth.go, request_id.go,
    logging.go, cors.go, compression.go). A handler is a function of writer, request and world
    that returns or panics.
  \<^item> \<open>Router\<close>, \<open>Router_Facts\<close>, \<open>Router_Order\<close>: router.go, with the tree of segments. The locale
    \<open>route_table\<close> is the contract of an association of patterns with methods; it is interpreted on
    the tree and on the table of static routes. The theorems relate dispatch to the declarative
    matching of patterns and state which pattern wins.
  \<^item> \<open>Handler\<close>, \<open>Handler_Facts\<close>, \<open>Main_Facts\<close>: handler.go and the configuration of cmd/wbsv/main.go,
    the composition of everything above. \<open>serve_loop\<close> is a \<open>partial_function\<close>, and it is proved to
    return on every input; conversations of pipelined requests, refusals and panics are described
    to the byte. The locale \<open>writer_embedding\<close> carries results about the buffer over to a connection
    without limit.
  \<^item> \<open>WebSocket\<close>: websocket.go, and the handshake on a connection. \<open>Download\<close>: a range request from its
    header to the bytes that are sent.
  \<^item> \<open>Tcp_Server\<close>, \<open>Tcp_Facts\<close>: tcpserver/server.go as an interleaving of the goroutines involved,
    one event per critical section, channel operation or call. The invariant \<open>server_inv\<close> holds in
    every reachable state; from it follow the limits, the clean end of \<open>Serve\<close> and the progress of
    a shutdown.
  \<^item> \<open>Command\<close>, \<open>Command_Facts\<close>: cmd/wbsv/main.go from its arguments to the server and the handler that
    it starts and its exit status. Every configuration can be written on a command line, and the
    replies of the default application are derived from there to the byte.
  \<^item> \<open>Server_System\<close>, \<open>Server_Isolation\<close>: the composition: the TCP server with a connection handler at
    work on every connection (\<open>handleConn\<close>), all interleaved; a turn of a handler, that is one request
    with its reply, is one step. The locale \<open>conn_service\<close> is what the server relies on (a turn ends,
    makes progress and does not panic); it is interpreted on the HTTP handler behind the
    middlewares of the command, with any application, and on the echo loop. From it follow that a
    shutdown completes and that limits and panics are contained; the isolation theorem says that
    well-behaved clients are served as if they were alone, up to the numbers in their request IDs.
  \<^item> \<open>Load_Test\<close>, \<open>Load_Command\<close>: loadtest.go, again as an interleaving, and cmd/wbsvload/main.go: what is
    printed is a function of the multiset of the results of the calls.

  Integers. Lengths and offsets that the code checks against 64 bits are \<open>int\<close> with the bounds
  \<open>min_int64\<close> and \<open>max_int64\<close> written out; sums of durations wrap (\<open>wrap_int64\<close>). SHA-1 works on
  32-bit words.

  Termination. Loops over input are functions with termination proofs on the bytes left, or
  return an option that is proved to be \<open>Some\<close>; there is no fuel. The bounds of runs of the TCP
  server, of the whole system (\<open>system_work\<close>) and of the load test are explicit measures.

  Parameters. What \<open>gzip.Writer\<close> makes of a body, the two obsolete date layouts of \<open>net/http.ParseTime\<close>, the
  HTTP client of \<open>net/http\<close>, whether listening succeeds and the order in which Go enumerates a map
  are arguments of the definitions that use them; what is assumed of them is a hypothesis of the
  theorem, with a witness.

  Not modelled. Signals (one is the cancellation of the context) and sockets; the contents of error
  and log messages beyond the values that they carry; the log lines of the TCP server and the
  number of goroutines in its statistics; the usage text of the commands; the text that wraps
  \<open>ErrInvalidWebSocketUpgrade\<close>. The steps inside a turn of a handler are not interleaved with those of
  other handlers: they share the request-ID counter, which is atomic, the log and the clock. Time passes only where the code reads
  the clock, and a deadline is an error that the connection delivers. Memory exhaustion and
  data races outside the server's mutex are out of scope. Letter case and space are those of
  ASCII except in \<open>strings.EqualFold\<close>, which is exact where one argument is ASCII.
\<close>

end
